(* ===== verification/Prelude.thy ===== *)
theory Prelude
  imports Main "HOL-Library.AList"
begin

text \<open>
  The shared base of the development: the strings, arrays, sets and decimal numerals of
  JavaScript that the web client's own code is written with.

  A JavaScript string is a sequence of UTF-16 code units.  The model keeps exactly that: a
  \<^emph>\<open>jstring\<close> is a list of code units, so that \<open>length\<close>, slicing and searching count what
  the source counts.  ASCII literals of the source are written \<open>js ''...''\<close>.
  A \<open>Set\<close> keeps its insertion order and is modelled by a distinct list (\<open>js_set\<close>); a \<open>Map\<close>
  is an association list that is updated in place (\<open>AList.update\<close>).
\<close>

named_theorems js_eval \<open>equations that evaluate string operations on literals\<close>

type_synonym jchar = nat
type_synonym jstring = "jchar list"

definition js :: "string \<Rightarrow> jstring" where
  "js s = map of_char s"

lemma js_Nil [simp]: "js [] = []"
  by (simp add: js_def)

lemma js_Cons [js_eval]: "js (c # s) = of_char c # js s"
  by (simp add: js_def)

lemma js_inject [simp]: "js s = js t \<longleftrightarrow> s = t"
  by (auto simp: js_def inj_map_eq_map inj_of_char)

lemma js_eq_Nil [simp]: "js s = [] \<longleftrightarrow> s = []" "[] = js s \<longleftrightarrow> s = []"
  by (auto simp: js_def)

lemma length_js [simp]: "length (js s) = length s"
  by (simp add: js_def)

lemma js_append: "js (s @ t) = js s @ js t"
  by (simp add: js_def)

section \<open>White space and trimming\<close>

text \<open>The code units that \<open>String.prototype.trim\<close> and the class \<open>\s\<close> treat as blank.\<close>

definition is_ws :: "jchar \<Rightarrow> bool" where
  "is_ws c \<longleftrightarrow> (9 \<le> c \<and> c \<le> 13) \<or> c = 32 \<or> c = 160 \<or> c = 5760 \<or> (8192 \<le> c \<and> c \<le> 8202) \<or>
     c = 8232 \<or> c = 8233 \<or> c = 8239 \<or> c = 8287 \<or> c = 12288 \<or> c = 65279"

lemma not_ws_punct: "\<not> is_ws 44" "\<not> is_ws 45"
  by (simp_all add: is_ws_def)

definition trim_start :: "jstring \<Rightarrow> jstring" where
  "trim_start s = dropWhile is_ws s"

definition trim_end :: "jstring \<Rightarrow> jstring" where
  "trim_end s = rev (dropWhile is_ws (rev s))"

definition js_trim :: "jstring \<Rightarrow> jstring" where
  "js_trim s = trim_start (trim_end s)"

lemmas trim_defs = js_trim_def trim_start_def trim_end_def
lemmas [js_eval] = trim_defs is_ws_def

lemma js_trim_Nil [simp]: "js_trim [] = []"
  by (simp add: trim_defs)

lemma js_trim_decomp: "\<exists>a b. s = a @ js_trim s @ b \<and> (\<forall>c \<in> set a \<union> set b. is_ws c)"
proof -
  let ?e = "trim_end s"
  have e: "s = ?e @ rev (takeWhile is_ws (rev s))"
    by (simp add: trim_end_def flip: rev_append)
  have t: "?e = takeWhile is_ws ?e @ js_trim s"
    by (simp add: js_trim_def trim_start_def)
  have "s = takeWhile is_ws ?e @ js_trim s @ rev (takeWhile is_ws (rev s))"
    using e t by (metis append.assoc)
  moreover have "\<forall>c \<in> set (takeWhile is_ws ?e) \<union> set (rev (takeWhile is_ws (rev s))). is_ws c"
    by (auto dest: set_takeWhileD)
  ultimately show ?thesis by blast
qed

lemma set_js_trim: "set (js_trim s) \<subseteq> set s"
  using js_trim_decomp [of s] by (metis Un_iff set_append subsetI)

definition trimmed :: "jstring \<Rightarrow> bool" where
  "trimmed s \<longleftrightarrow> s = [] \<or> (\<not> is_ws (hd s) \<and> \<not> is_ws (last s))"

lemma trimmed_id: "trimmed s \<Longrightarrow> js_trim s = s"
proof (cases s rule: rev_cases)
  case (snoc ys y)
  moreover assume "trimmed s"
  ultimately show ?thesis by (cases ys) (auto simp: trimmed_def trim_defs)
qed simp

lemma trimmed_js_trim [simp]: "trimmed (js_trim s)"
proof (cases "js_trim s = []")
  case False
  have *: "trim_end s \<noteq> []"
    using False by (auto simp: js_trim_def trim_start_def)
  have l: "\<not> is_ws (last (trim_end s))"
    using * by (auto simp: trim_end_def last_rev hd_dropWhile)
  have "last (js_trim s) = last (trim_end s)"
    using False by (metis js_trim_def last_appendR takeWhile_dropWhile_id trim_start_def)
  with l False show ?thesis
    by (auto simp: trimmed_def js_trim_def trim_start_def hd_dropWhile)
qed (simp add: trimmed_def)

lemma js_trim_idem [simp]: "js_trim (js_trim s) = js_trim s"
  by (simp add: trimmed_id)

lemma trimmed_no_ws: "\<forall>c \<in> set s. \<not> is_ws c \<Longrightarrow> trimmed s"
  by (auto simp: trimmed_def)

lemma js_trim_no_ws: "\<forall>c \<in> set s. \<not> is_ws c \<Longrightarrow> js_trim s = s"
  by (simp add: trimmed_id trimmed_no_ws)

lemma js_trim_eq_Nil: "js_trim s = [] \<longleftrightarrow> (\<forall>c \<in> set s. is_ws c)"
proof
  assume "js_trim s = []"
  then show "\<forall>c \<in> set s. is_ws c"
    using js_trim_decomp [of s] by (metis append_Nil Un_iff set_append)
next
  assume ws: "\<forall>c \<in> set s. is_ws c"
  have "\<forall>c \<in> set (js_trim s). is_ws c"
    using ws set_js_trim [of s] by blast
  moreover have "js_trim s \<noteq> [] \<Longrightarrow> \<not> is_ws (hd (js_trim s))"
    using trimmed_js_trim [of s] by (auto simp: trimmed_def)
  ultimately show "js_trim s = []"
    by (metis list.set_sel(1))
qed

section \<open>Searching, splitting, joining, slicing\<close>

fun js_split :: "jchar \<Rightarrow> jstring \<Rightarrow> jstring list" where
  "js_split c [] = [[]]"
| "js_split c (x # xs) =
     (if x = c then [] # js_split c xs
      else (case js_split c xs of [] \<Rightarrow> [[x]] | p # ps \<Rightarrow> (x # p) # ps))"

fun js_join :: "jstring \<Rightarrow> jstring list \<Rightarrow> jstring" where
  "js_join sep [] = []"
| "js_join sep [p] = p"
| "js_join sep (p # q # ps) = p @ sep @ js_join sep (q # ps)"

fun js_starts_with :: "jstring \<Rightarrow> jstring \<Rightarrow> bool" where
  "js_starts_with s [] = True"
| "js_starts_with [] (p # ps) = False"
| "js_starts_with (c # cs) (p # ps) = (c = p \<and> js_starts_with cs ps)"

text \<open>The position of the first occurrence (\<open>indexOf\<close>), \<open>None\<close> for the source's \<open>-1\<close>.\<close>

fun js_index_of :: "jstring \<Rightarrow> jstring \<Rightarrow> nat option" where
  "js_index_of [] p = (if p = [] then Some 0 else None)"
| "js_index_of (c # cs) p =
     (if js_starts_with (c # cs) p then Some 0 else map_option Suc (js_index_of cs p))"

definition js_includes :: "jstring \<Rightarrow> jstring \<Rightarrow> bool" where
  "js_includes s p \<longleftrightarrow> js_index_of s p \<noteq> None"

definition js_slice :: "jstring \<Rightarrow> nat \<Rightarrow> nat \<Rightarrow> jstring" where
  "js_slice s a b = take (b - a) (drop a s)"

text \<open>\<open>s.slice(-n)\<close>, for a positive \<open>n\<close>: the last \<open>n\<close> code units.\<close>

definition js_slice_last :: "jstring \<Rightarrow> nat \<Rightarrow> jstring" where
  "js_slice_last s n = drop (length s - n) s"

lemmas [js_eval] = js_includes_def js_slice_def js_slice_last_def

lemma js_split_not_Nil [simp]: "js_split c s \<noteq> []"
  by (induction s) (auto split: list.splits)

lemma js_starts_with_prefix: "js_starts_with s p \<longleftrightarrow> (\<exists>t. s = p @ t)"
  by (induction s p rule: js_starts_with.induct) auto

lemma js_starts_with_append [simp]: "js_starts_with (p @ t) p"
  by (auto simp: js_starts_with_prefix)

lemma js_join_split: "js_join [c] (js_split c s) = s"
proof (induction s)
  case (Cons x xs)
  then show ?case
    by (cases "js_split c xs" rule: list.exhaust; cases "tl (js_split c xs)") auto
qed simp

lemma js_split_no_sep: "c \<notin> set s \<Longrightarrow> js_split c s = [s]"
  by (induction s) auto

lemma js_split_append_sep: "c \<notin> set p \<Longrightarrow> js_split c (p @ c # t) = p # js_split c t"
  by (induction p) auto

lemma js_split_join:
  "ps \<noteq> [] \<Longrightarrow> \<forall>p \<in> set ps. c \<notin> set p \<Longrightarrow> js_split c (js_join [c] ps) = ps"
proof (induction ps rule: induct_list012)
  case (3 p q ps)
  then show ?case by (simp add: js_split_append_sep)
qed (auto simp: js_split_no_sep)

lemma set_js_join: "set (js_join sep ps) \<subseteq> set sep \<union> (\<Union>p \<in> set ps. set p)"
  by (induction sep ps rule: js_join.induct) auto

lemma js_split_pieces: "p \<in> set (js_split c s) \<Longrightarrow> c \<notin> set p \<and> set p \<subseteq> set s"
proof (induction s arbitrary: p)
  case (Cons x xs)
  obtain q qs where q: "js_split c xs = q # qs"
    by (meson js_split_not_Nil neq_Nil_conv)
  show ?case
  proof (cases "p \<in> set (js_split c xs)")
    case True
    with Cons.IH show ?thesis by auto
  next
    case False
    with Cons.prems q have "p = [] \<or> (x \<noteq> c \<and> p = x # q)"
      by (auto split: if_splits)
    with Cons.IH [of q] q show ?thesis by auto
  qed
qed simp

lemma js_index_of_Some:
  "js_index_of s p = Some i \<Longrightarrow> s = take i s @ p @ drop (i + length p) s"
proof (induction s arbitrary: i)
  case (Cons c cs)
  show ?case
  proof (cases "js_starts_with (c # cs) p")
    case True
    with Cons.prems have "i = 0" by (simp split: if_splits)
    with True show ?thesis by (auto simp: js_starts_with_prefix)
  next
    case False
    with Cons obtain j where "js_index_of cs p = Some j" "i = Suc j"
      by (auto split: if_splits)
    with Cons.IH show ?thesis by simp
  qed
qed (auto split: if_splits)

lemma js_index_of_bound: "js_index_of s p = Some i \<Longrightarrow> i + length p \<le> length s"
proof -
  assume "js_index_of s p = Some i"
  from js_index_of_Some [OF this] have l: "length s = length (take i s @ p @ drop (i + length p) s)"
    by simp
  have "i \<le> length s"
    using \<open>js_index_of s p = Some i\<close>
    by (induction s arbitrary: i) (auto split: if_splits)
  with l show ?thesis by simp
qed

lemma js_index_of_None: "js_index_of s p = None \<longleftrightarrow> (\<nexists>a b. s = a @ p @ b)"
proof (induction s)
  case (Cons c cs)
  have "(\<exists>a b. c # cs = a @ p @ b) \<longleftrightarrow> js_starts_with (c # cs) p \<or> (\<exists>a b. cs = a @ p @ b)"
    (is "?L \<longleftrightarrow> ?R")
  proof
    assume ?L
    then obtain a b where ab: "c # cs = a @ p @ b" by blast
    show ?R
      by (cases a) (use ab in \<open>auto simp: js_starts_with_prefix\<close>)
  next
    assume ?R
    then show ?L
      by (metis append_Cons append_Nil js_starts_with_prefix)
  qed
  with Cons.IH show ?case by auto
qed auto

lemma js_includes_iff: "js_includes s p \<longleftrightarrow> (\<exists>a b. s = a @ p @ b)"
  by (simp add: js_includes_def js_index_of_None)

lemma js_index_of_take: "js_index_of s p = Some i \<Longrightarrow> \<not> js_includes (take i s) p \<or> p = []"
proof (induction s arbitrary: i)
  case (Cons c cs)
  show ?case
  proof (cases "js_starts_with (c # cs) p")
    case True
    with Cons.prems show ?thesis by (auto simp: js_includes_def)
  next
    case False
    with Cons.prems obtain j where j: "js_index_of cs p = Some j" "i = Suc j"
      by (auto split: if_splits)
    have "\<not> js_starts_with (c # take j cs) p"
      using False append_take_drop_id [of j cs] by (metis append_Cons append_assoc js_starts_with_prefix)
    with Cons.IH [OF j(1)] j(2) show ?thesis by (auto simp: js_includes_def)
  qed
qed (auto simp: js_includes_def split: if_splits)

lemma js_starts_with_append_cases:
  "js_starts_with (v @ c # t) ps \<Longrightarrow> js_starts_with v ps \<or> c \<in> set ps"
  by (induction v ps rule: js_starts_with.induct) auto

text \<open>
  A separator whose first character does not occur again in it is found where it was put: it
  cannot begin in the text before it.
\<close>

lemma js_index_of_append:
  "\<not> js_includes v (c # cs) \<Longrightarrow> c \<notin> set cs \<Longrightarrow> js_index_of (v @ (c # cs) @ r) (c # cs) = Some (length v)"
proof (induction v)
  case (Cons x v)
  have "\<not> js_starts_with ((x # v) @ (c # cs) @ r) (c # cs)"
  proof
    assume "js_starts_with ((x # v) @ (c # cs) @ r) (c # cs)"
    then have x: "x = c" and p: "js_starts_with (v @ c # cs @ r) cs" by auto
    have "js_starts_with v cs \<or> c \<in> set cs"
      using p by (rule js_starts_with_append_cases)
    with Cons.prems x show False by (auto simp: js_includes_def)
  qed
  moreover have "\<not> js_includes v (c # cs)"
    using Cons.prems(1) by (auto simp: js_includes_def split: if_splits)
  ultimately show ?case using Cons.IH Cons.prems(2) by simp
qed (simp add: js_starts_with_prefix)

lemma js_join_empty [simp]: "js_join [] ps = concat ps"
  by (induction ps rule: induct_list012) auto

section \<open>Sets in insertion order\<close>

definition set_add :: "'a list \<Rightarrow> 'a \<Rightarrow> 'a list" where
  "set_add s x = (if x \<in> set s then s else s @ [x])"

text \<open>\<open>Array.from(new Set(xs))\<close> and \<open>[...new Set(xs)]\<close>.\<close>

definition js_set :: "'a list \<Rightarrow> 'a list" where
  "js_set xs = foldl set_add [] xs"

lemma set_set_add [simp]: "set (set_add s x) = insert x (set s)"
  by (auto simp: set_add_def)

lemma distinct_set_add [simp]: "distinct (set_add s x) \<longleftrightarrow> distinct s"
  by (auto simp: set_add_def)

lemma foldl_set_add:
  "set (foldl set_add s xs) = set s \<union> set xs"
  "distinct (foldl set_add s xs) \<longleftrightarrow> distinct s"
  by (induction xs arbitrary: s) auto

lemma set_js_set [simp]: "set (js_set xs) = set xs"
  by (simp add: js_set_def foldl_set_add)

lemma distinct_js_set [simp]: "distinct (js_set xs)"
  by (simp add: js_set_def foldl_set_add)

lemma foldl_set_add_distinct:
  "distinct (s @ xs) \<Longrightarrow> foldl set_add s xs = s @ xs"
  by (induction xs arbitrary: s) (auto simp: set_add_def)

lemma js_set_distinct: "distinct xs \<Longrightarrow> js_set xs = xs"
  by (simp add: js_set_def foldl_set_add_distinct)

lemma js_set_idem [simp]: "js_set (js_set xs) = js_set xs"
  by (simp add: js_set_distinct)

lemma js_set_Nil [simp]: "js_set [] = []"
  by (simp add: js_set_def)

lemma js_set_eq_Nil [simp]: "js_set xs = [] \<longleftrightarrow> xs = []"
  by (metis set_empty set_js_set)

lemmas [js_eval] = js_set_def set_add_def

section \<open>Decimal numerals\<close>

definition is_digit :: "jchar \<Rightarrow> bool" where
  "is_digit c \<longleftrightarrow> 48 \<le> c \<and> c \<le> 57"

fun show_nat :: "nat \<Rightarrow> jstring" where
  "show_nat n = (if n < 10 then [48 + n] else show_nat (n div 10) @ [48 + n mod 10])"

declare show_nat.simps [simp del]

definition digits_val :: "jstring \<Rightarrow> nat" where
  "digits_val s = foldl (\<lambda>a c. 10 * a + (c - 48)) 0 s"

definition show_int :: "int \<Rightarrow> jstring" where
  "show_int i = (if i < 0 then 45 # show_nat (nat (- i)) else show_nat (nat i))"

lemmas [js_eval] = is_digit_def digits_val_def show_int_def show_nat.simps

lemma show_nat_not_Nil [simp]: "show_nat n \<noteq> []"
  by (subst show_nat.simps) simp

lemma show_nat_digits: "\<forall>c \<in> set (show_nat n). is_digit c"
proof (induction n rule: show_nat.induct)
  case (1 n)
  then show ?case by (subst show_nat.simps) (auto simp: is_digit_def)
qed

lemma digits_val_show_nat [simp]: "digits_val (show_nat n) = n"
proof (induction n rule: show_nat.induct)
  case (1 n)
  show ?case
  proof (cases "n < 10")
    case True
    then show ?thesis by (subst show_nat.simps) (simp add: digits_val_def)
  next
    case False
    with 1 have "digits_val (show_nat (n div 10)) = n div 10" by simp
    with False show ?thesis by (subst show_nat.simps) (simp add: digits_val_def)
  qed
qed

lemma show_nat_inject [simp]: "show_nat m = show_nat n \<longleftrightarrow> m = n"
  by (metis digits_val_show_nat)

lemma digit_not_ws: "is_digit c \<Longrightarrow> \<not> is_ws c"
  by (auto simp: is_digit_def is_ws_def)

section \<open>Falsy strings\<close>

text \<open>\<open>s || d\<close> on strings: the empty string is falsy.\<close>

definition str_or :: "jstring \<Rightarrow> jstring \<Rightarrow> jstring" where
  "str_or s d = (if s = [] then d else s)"

text \<open>\<open>(s || d)\<close> where \<open>s\<close> may be absent.\<close>

definition opt_or :: "jstring option \<Rightarrow> jstring \<Rightarrow> jstring" where
  "opt_or s d = (case s of None \<Rightarrow> d | Some x \<Rightarrow> str_or x d)"

lemma str_or_simps [simp]: "str_or [] d = d" "s \<noteq> [] \<Longrightarrow> str_or s d = s" "str_or (c # cs) d = c # cs"
  by (auto simp: str_or_def)

lemma opt_or_simps [simp]: "opt_or None d = d" "opt_or (Some s) d = str_or s d"
  by (auto simp: opt_or_def)

section \<open>Printing and reading\<close>

text \<open>A printer and a reader, and the values on which reading undoes printing.\<close>

locale codec =
  fixes enc :: "'a \<Rightarrow> 't" and dec :: "'t \<Rightarrow> 'a option" and ok :: "'a \<Rightarrow> bool"
  assumes decode: "ok x \<Longrightarrow> dec (enc x) = Some x"
begin

lemma enc_eq: "ok x \<Longrightarrow> ok y \<Longrightarrow> enc x = enc y \<longleftrightarrow> x = y"
  using decode by (metis option.inject)

lemma enc_inj: "inj_on enc {x. ok x}"
  by (rule inj_onI) (simp add: enc_eq)

end

end
