(* ===== verification/JS_Value.thy ===== *)
theory JS_Value
  imports Complex_Main Prelude
begin

text \<open>
  The dynamic values of the language (\<open>unknown\<close> in the source) and the parts of its standard
  library that the client calls on them: \<open>Number\<close> as IEEE double, \<open>String(v)\<close>, property
  access, \<open>JSON.parse\<close> and \<open>JSON.stringify\<close>.

  A number is the exact rational value of a double (\<open>Num\<close>), or one of the three special values;
  the sign of zero is not kept, no code of the client observes it.  An object is the list of its
  own enumerable properties in the order in which \<open>Object.entries\<close> yields them: array-index
  keys first, ascending, then the others in the order of creation.
\<close>

section \<open>Numbers\<close>

datatype jsnum = Num rat | NaN | PosInf | NegInf

definition pow2 :: "int \<Rightarrow> rat" where
  "pow2 e = (if 0 \<le> e then 2 ^ nat e else 1 / 2 ^ nat (- e))"

definition pow10 :: "int \<Rightarrow> rat" where
  "pow10 e = (if 0 \<le> e then 10 ^ nat e else 1 / 10 ^ nat (- e))"

fun bitlen :: "nat \<Rightarrow> nat" where
  "bitlen n = (if n = 0 then 0 else Suc (bitlen (n div 2)))"

declare bitlen.simps [simp del]

text \<open>The exponent \<open>k\<close> with \<open>2^k \<le> x < 2^(k+1)\<close>, for a positive \<open>x\<close>.\<close>

definition floor_log2 :: "rat \<Rightarrow> int" where
  "floor_log2 x =
     (let (n, d) = quotient_of x; k = int (bitlen (nat n)) - int (bitlen (nat d))
      in if pow2 k \<le> x then k else k - 1)"

definition round_half_even :: "rat \<Rightarrow> int" where
  "round_half_even x =
     (let f = \<lfloor>x\<rfloor>; r = x - of_int f
      in if r < 1 / 2 then f else if 1 / 2 < r then f + 1 else if even f then f else f + 1)"

text \<open>Rounding to the nearest double, ties to even, with gradual underflow and overflow.\<close>

definition round_double :: "rat \<Rightarrow> jsnum" where
  "round_double x =
     (if x = 0 then Num 0
      else let u = pow2 (max (floor_log2 \<bar>x\<bar> - 52) (-1074));
               y = of_int (round_half_even (\<bar>x\<bar> / u)) * u
           in if pow2 1024 \<le> y then (if 0 < x then PosInf else NegInf) else Num (sgn x * y))"

definition num_int :: "int \<Rightarrow> jsnum" where
  "num_int i = Num (of_int i)"

definition is_integer_num :: "jsnum \<Rightarrow> bool" where
  "is_integer_num x = (case x of Num q \<Rightarrow> of_int \<lfloor>q\<rfloor> = q | _ \<Rightarrow> False)"

definition is_finite_num :: "jsnum \<Rightarrow> bool" where
  "is_finite_num x = (case x of Num q \<Rightarrow> True | _ \<Rightarrow> False)"

definition num_gt0 :: "jsnum \<Rightarrow> bool" where
  "num_gt0 x = (case x of Num q \<Rightarrow> 0 < q | PosInf \<Rightarrow> True | _ \<Rightarrow> False)"

definition num_between :: "jsnum \<Rightarrow> int \<Rightarrow> int \<Rightarrow> bool" where
  "num_between x a b = (case x of Num q \<Rightarrow> of_int a \<le> q \<and> q \<le> of_int b | _ \<Rightarrow> False)"

lemma num_int_inject [simp]: "num_int i = num_int j \<longleftrightarrow> i = j"
  by (simp add: num_int_def)

lemma is_integer_num_int [simp]: "is_integer_num (num_int i)"
  by (simp add: num_int_def is_integer_num_def)

lemma num_between_int [simp]: "num_between (num_int i) a b \<longleftrightarrow> a \<le> i \<and> i \<le> b"
  by (simp add: num_int_def num_between_def)

lemma is_integer_numE: "is_integer_num x \<Longrightarrow> (\<And>i. x = num_int i \<Longrightarrow> P) \<Longrightarrow> P"
  by (cases x) (auto simp: is_integer_num_def num_int_def dest: sym)

lemma pow2_add: "pow2 (a + b) = pow2 a * pow2 b"
proof -
  have p: "pow2 e = 2 powi e" for e
    by (simp add: pow2_def power_int_def field_simps)
  show ?thesis by (simp add: p power_int_add)
qed

lemma pow2_pos [simp]: "0 < pow2 e"
  by (simp add: pow2_def)

lemma pow2_mono: "a \<le> b \<Longrightarrow> pow2 a \<le> pow2 b"
proof -
  assume "a \<le> b"
  then obtain n where "b = a + int n" by (metis add.commute diff_add_cancel nonneg_int_cases diff_ge_0_iff_ge)
  then show ?thesis
    by (simp add: pow2_add) (simp add: pow2_def)
qed

lemma bitlen_bounds: "0 < n \<Longrightarrow> 2 ^ (bitlen n - 1) \<le> n \<and> n < 2 ^ bitlen n"
proof (induction n rule: bitlen.induct)
  case (1 n)
  show ?case
  proof (cases "n div 2 = 0")
    case True
    with 1 show ?thesis by (subst (1 2) bitlen.simps) (simp add: bitlen.simps)
  next
    case False
    with 1 have ih: "2 ^ (bitlen (n div 2) - 1) \<le> n div 2 \<and> n div 2 < 2 ^ bitlen (n div 2)"
      by simp
    have "0 < bitlen (n div 2)"
      using False by (subst bitlen.simps) simp
    then obtain k where k: "bitlen (n div 2) = Suc k" by (metis gr0_implies_Suc)
    have "bitlen n = Suc (Suc k)"
      using "1.prems" k by (subst bitlen.simps) simp
    with ih k have "2 ^ k \<le> n div 2" "n div 2 < 2 * 2 ^ k" by simp_all
    then have "2 * 2 ^ k \<le> n" "n < 4 * 2 ^ k" by linarith+
    with \<open>bitlen n = Suc (Suc k)\<close> show ?thesis by simp
  qed
qed

lemma floor_log2_less: "0 < n \<Longrightarrow> n < 2 ^ Suc k \<Longrightarrow> floor_log2 (of_nat n) \<le> int k"
proof -
  assume n: "0 < n" and lt: "n < 2 ^ Suc k"
  have "2 ^ (bitlen n - 1) < (2::nat) ^ Suc k"
    using bitlen_bounds [OF n] lt by linarith
  then have "bitlen n - 1 < Suc k"
    using power_less_imp_less_exp one_less_numeral_iff semiring_norm(76) by blast
  then have b: "bitlen n \<le> Suc k" by simp
  have q: "quotient_of (of_nat n) = (int n, 1)"
    using quotient_of_rat_of_int [of "int n"] by simp
  have one: "bitlen (Suc 0) = 1" by (simp add: bitlen.simps)
  show ?thesis
    using b by (simp add: floor_log2_def q one Let_def)
qed

text \<open>Every safe integer is a double: rounding does not change it.\<close>

lemma round_double_nat: "n < 2 ^ 53 \<Longrightarrow> round_double (of_nat n) = Num (of_nat n)"
proof (cases "n = 0")
  case True
  then show ?thesis by (simp add: round_double_def)
next
  case False
  assume "n < 2 ^ 53"
  define e where "e = max (floor_log2 (of_nat n) - 52) (-1074)"
  have "e \<le> 0"
    using floor_log2_less [of n 52] False \<open>n < 2 ^ 53\<close> by (simp add: e_def)
  have u: "pow2 e = 1 / 2 ^ nat (- e)"
    using \<open>e \<le> 0\<close> by (cases "e = 0") (auto simp: pow2_def)
  have "of_nat n / pow2 e = (of_int (int n * 2 ^ nat (- e)) :: rat)"
    by (simp add: u)
  then have r: "round_half_even (of_nat n / pow2 e) = int n * 2 ^ nat (- e)"
    by (simp only: round_half_even_def floor_of_int Let_def) simp
  have y: "of_int (round_half_even (of_nat n / pow2 e)) * pow2 e = (of_nat n :: rat)"
    unfolding r by (simp add: u)
  have "(of_nat n :: rat) < of_nat (2 ^ 53)"
    using \<open>n < 2 ^ 53\<close> by (simp only: of_nat_less_iff)
  also have "\<dots> = pow2 53" by (simp add: pow2_def)
  also have "\<dots> \<le> pow2 1024" by (rule pow2_mono) simp
  finally have "\<not> pow2 1024 \<le> (of_nat n :: rat)" by simp
  with y False show ?thesis
    by (simp add: round_double_def Let_def flip: e_def)
qed

lemma round_double_minus: "round_double (- x) = (case round_double x of
    Num q \<Rightarrow> Num (- q) | PosInf \<Rightarrow> NegInf | NegInf \<Rightarrow> PosInf | NaN \<Rightarrow> NaN)"
  by (auto simp: round_double_def Let_def)

definition safe_int :: "int \<Rightarrow> bool" where
  "safe_int i \<longleftrightarrow> \<bar>i\<bar> < 2 ^ 53"

lemma round_double_safe_int: "safe_int i \<Longrightarrow> round_double (of_int i) = num_int i"
proof (cases "0 \<le> i")
  case True
  assume "safe_int i"
  with True have "nat i < 2 ^ 53" by (simp add: safe_int_def nat_less_iff)
  from round_double_nat [OF this] True show ?thesis by (simp add: num_int_def)
next
  case False
  assume "safe_int i"
  with False have "nat (- i) < 2 ^ 53" by (simp add: safe_int_def nat_less_iff)
  from round_double_nat [OF this] False have "round_double (- of_int i) = Num (- of_int i)"
    by simp
  then show ?thesis
    using round_double_minus [of "- of_int i"] by (simp add: num_int_def)
qed

section \<open>Number to string\<close>

text \<open>
  \<open>Number::toString\<close>: the fewest decimal digits that read back as the same double.  \<open>shortest\<close>
  gives the digits \<open>s\<close>, their count \<open>k\<close> and the decimal exponent \<open>n\<close> of the specification.
  A safe integer is its own decimal numeral.
\<close>

definition dec_exp :: "rat \<Rightarrow> int" where
  "dec_exp x = the (find (\<lambda>n. x < pow10 n) [-330..310])"

definition shortest_at :: "rat \<Rightarrow> int \<Rightarrow> int \<Rightarrow> int option" where
  "shortest_at x n k =
     (let y = x * pow10 (k - n); f = \<lfloor>y\<rfloor>;
          ok = (\<lambda>s. round_double (of_int s * pow10 (n - k)) = Num x)
      in if ok f \<and> ok (f + 1) then Some (if y - of_int f \<le> of_int (f + 1) - y then f else f + 1)
         else if ok f then Some f else if ok (f + 1) then Some (f + 1) else None)"

definition shortest :: "rat \<Rightarrow> int \<times> int \<times> int" where
  "shortest x =
     (let n = dec_exp x;
          k = the (find (\<lambda>k. shortest_at x n k \<noteq> None) [1..17]);
          s = the (shortest_at x n k)
      in if of_int s = pow10 k then (1, 1, n + 1) else (s, k, n))"

definition pos_to_string :: "rat \<Rightarrow> jstring" where
  "pos_to_string x =
     (let (s, k, n) = shortest x; ds = show_int s
      in if k \<le> n \<and> n \<le> 21 then ds @ replicate (nat (n - k)) 48
         else if 0 < n \<and> n \<le> 21 then take (nat n) ds @ [46] @ drop (nat n) ds
         else if -6 < n \<and> n \<le> 0 then [48, 46] @ replicate (nat (- n)) 48 @ ds
         else let e = n - 1; es = (if 0 \<le> e then [43] @ show_int e else show_int e)
              in if k = 1 then ds @ [101] @ es else take 1 ds @ [46] @ drop 1 ds @ [101] @ es)"

definition num_to_string :: "jsnum \<Rightarrow> jstring" where
  "num_to_string x =
     (case x of NaN \<Rightarrow> js ''NaN'' | PosInf \<Rightarrow> js ''Infinity'' | NegInf \<Rightarrow> js ''-Infinity''
      | Num q \<Rightarrow>
          (if of_int \<lfloor>q\<rfloor> = q \<and> safe_int \<lfloor>q\<rfloor> then show_int \<lfloor>q\<rfloor>
           else if q < 0 then 45 # pos_to_string (- q) else pos_to_string q))"

lemma num_to_string_int [simp]: "safe_int i \<Longrightarrow> num_to_string (num_int i) = show_int i"
  by (simp add: num_to_string_def num_int_def)

section \<open>Values\<close>

datatype jsval =
    JUndef
  | JNull
  | JBool bool
  | JNum jsnum
  | JStr jstring
  | JArr "jsval list"
  | JObj "(jstring \<times> jsval) list"

fun truthy :: "jsval \<Rightarrow> bool" where
  "truthy JUndef = False"
| "truthy JNull = False"
| "truthy (JBool b) = b"
| "truthy (JNum x) = (x \<noteq> Num 0 \<and> x \<noteq> NaN)"
| "truthy (JStr s) = (s \<noteq> [])"
| "truthy (JArr xs) = True"
| "truthy (JObj es) = True"

text \<open>\<open>v || d\<close>\<close>

definition js_or :: "jsval \<Rightarrow> jsval \<Rightarrow> jsval" where
  "js_or v d = (if truthy v then v else d)"

text \<open>\<open>typeof v === 'object'\<close> of a truthy value: an object or an array.\<close>

definition is_object :: "jsval \<Rightarrow> bool" where
  "is_object v = (case v of JArr _ \<Rightarrow> True | JObj _ \<Rightarrow> True | _ \<Rightarrow> False)"

text \<open>\<open>!v || typeof v !== 'object' || Array.isArray(v)\<close> negated: a proper record.\<close>

definition obj_entries :: "jsval \<Rightarrow> (jstring \<times> jsval) list option" where
  "obj_entries v = (case v of JObj es \<Rightarrow> Some es | _ \<Rightarrow> None)"

text \<open>
  \<open>v?.k\<close> for a property name \<open>k\<close> that is neither an index nor \<open>length\<close>: absent properties, and
  properties of anything but a record, are \<open>undefined\<close>.
\<close>

definition get_prop :: "jsval \<Rightarrow> jstring \<Rightarrow> jsval" where
  "get_prop v k = (case v of JObj es \<Rightarrow> (case map_of es k of None \<Rightarrow> JUndef | Some x \<Rightarrow> x) | _ \<Rightarrow> JUndef)"

definition is_string :: "jsval \<Rightarrow> bool" where
  "is_string v = (case v of JStr _ \<Rightarrow> True | _ \<Rightarrow> False)"

definition is_number :: "jsval \<Rightarrow> bool" where
  "is_number v = (case v of JNum _ \<Rightarrow> True | _ \<Rightarrow> False)"

definition is_boolean :: "jsval \<Rightarrow> bool" where
  "is_boolean v = (case v of JBool _ \<Rightarrow> True | _ \<Rightarrow> False)"

lemma get_prop_simps [simp]:
  "get_prop JUndef k = JUndef" "get_prop JNull k = JUndef" "get_prop (JArr xs) k = JUndef"
  "get_prop (JObj es) k = (case map_of es k of None \<Rightarrow> JUndef | Some x \<Rightarrow> x)"
  by (simp_all add: get_prop_def)

lemma is_type_simps [simp]:
  "is_string (JStr s)" "is_number (JNum x)" "is_boolean (JBool b)"
  "is_object (JObj es)" "is_object (JArr xs)"
  "\<not> is_string JUndef" "\<not> is_string JNull" "\<not> is_string (JBool b)" "\<not> is_string (JNum x)"
  "\<not> is_number JUndef" "\<not> is_boolean JUndef" "\<not> is_object JUndef" "\<not> is_object JNull"
  by (simp_all add: is_string_def is_number_def is_boolean_def is_object_def)

lemma is_stringE: "is_string v \<Longrightarrow> (\<And>s. v = JStr s \<Longrightarrow> P) \<Longrightarrow> P"
  by (cases v) (auto simp: is_string_def)

lemma is_numberE: "is_number v \<Longrightarrow> (\<And>x. v = JNum x \<Longrightarrow> P) \<Longrightarrow> P"
  by (cases v) (auto simp: is_number_def)

text \<open>\<open>String(v)\<close>, which template literals and \<open>toString\<close> use.\<close>

fun js_String :: "jsval \<Rightarrow> jstring" where
  "js_String JUndef = js ''undefined''"
| "js_String JNull = js ''null''"
| "js_String (JBool b) = (if b then js ''true'' else js ''false'')"
| "js_String (JNum x) = num_to_string x"
| "js_String (JStr s) = s"
| "js_String (JArr xs) =
     js_join [44] (map (\<lambda>x. if x = JUndef \<or> x = JNull then [] else js_String x) xs)"
| "js_String (JObj es) = js ''[object Object]''"

text \<open>\<open>(v ?? '').toString()\<close>\<close>

definition nullish_to_string :: "jsval \<Rightarrow> jstring" where
  "nullish_to_string v = (if v = JUndef \<or> v = JNull then [] else js_String v)"

text \<open>The order of own keys: array indices ascending, then the others as created.\<close>

definition is_index_key :: "jstring \<Rightarrow> bool" where
  "is_index_key k \<longleftrightarrow> k \<noteq> [] \<and> list_all is_digit k \<and> (hd k = 48 \<longrightarrow> length k = 1) \<and>
     digits_val k < 4294967295"

definition own_order :: "(jstring \<times> 'a) list \<Rightarrow> (jstring \<times> 'a) list" where
  "own_order es =
     sort_key (\<lambda>e. digits_val (fst e)) (filter (\<lambda>e. is_index_key (fst e)) es) @
     filter (\<lambda>e. \<not> is_index_key (fst e)) es"

definition obj_of :: "(jstring \<times> 'a) list \<Rightarrow> (jstring \<times> 'a) list" where
  "obj_of es = own_order (foldl (\<lambda>m e. AList.update (fst e) (snd e) m) [] es)"

lemmas [js_eval] = nullish_to_string_def is_index_key_def own_order_def obj_of_def obj_entries_def

text \<open>Insertion sort for \<open>Array.prototype.sort\<close> keeps equal elements in order, as the source's
  sort does; the library's \<open>sort_key\<close> is stable in the same way.\<close>

lemma set_own_order [simp]: "set (own_order es) = set es"
  by (auto simp: own_order_def)

lemma distinct_own_order: "distinct (map fst es) \<Longrightarrow> distinct (map fst (own_order es))"
proof -
  assume d: "distinct (map fst es)"
  have "distinct es" using d by (simp add: distinct_map)
  then have "distinct (own_order es)"
    by (auto simp: own_order_def distinct_filter)
  moreover have "inj_on fst (set (own_order es))"
    using d by (simp add: distinct_map)
  ultimately show ?thesis by (simp add: distinct_map)
qed

lemma map_of_own_order: "distinct (map fst es) \<Longrightarrow> map_of (own_order es) = map_of es"
proof
  fix k
  assume d: "distinct (map fst es)"
  show "map_of (own_order es) k = map_of es k"
  proof (cases "map_of es k")
    case None
    then have "map_of (own_order es) k = None" by (simp add: map_of_eq_None_iff)
    with None show ?thesis by simp
  next
    case (Some v)
    then have "(k, v) \<in> set (own_order es)" by (simp add: map_of_SomeD)
    with Some distinct_own_order [OF d] show ?thesis by simp
  qed
qed

lemma distinct_foldl_update:
  "distinct (map fst m) \<Longrightarrow>
   distinct (map fst (foldl (\<lambda>m e. AList.update (fst e) (snd e) m) m es))"
  by (induction es arbitrary: m) (auto simp: distinct_update)

lemma distinct_obj_of: "distinct (map fst (obj_of es))"
  unfolding obj_of_def by (intro distinct_own_order distinct_foldl_update) simp

end
