(* ===== verification/JS_Json.thy ===== *)
theory JS_Json
  imports JS_Value
begin

text \<open>
  \<open>JSON.parse\<close> and \<open>JSON.stringify\<close> on the values of \<open>JS_Value\<close>: the grammar of ECMA-404 read by
  recursive descent over code units, and the printer with its optional indentation.  The reader
  carries fuel; \<open>parse_fuel\<close> and \<open>json_parse_fuel\<close> show that the fuel \<open>json_parse\<close> starts
  with is never the reason for a failure.  The main result is the round trip
  \<open>json_parse_stringify\<close>.
\<close>

section \<open>Reader\<close>

definition json_ws :: "jchar \<Rightarrow> bool" where
  "json_ws c \<longleftrightarrow> c = 9 \<or> c = 10 \<or> c = 13 \<or> c = 32"

definition skip_ws :: "jstring \<Rightarrow> jstring" where
  "skip_ws s = dropWhile json_ws s"

definition hex_val :: "jchar \<Rightarrow> nat option" where
  "hex_val c = (if 48 \<le> c \<and> c \<le> 57 then Some (c - 48)
     else if 97 \<le> c \<and> c \<le> 102 then Some (c - 87)
     else if 65 \<le> c \<and> c \<le> 70 then Some (c - 55) else None)"

definition hex4 :: "jchar \<Rightarrow> jchar \<Rightarrow> jchar \<Rightarrow> jchar \<Rightarrow> jchar option" where
  "hex4 a b c d = (case (hex_val a, hex_val b, hex_val c, hex_val d) of
     (Some w, Some x, Some y, Some z) \<Rightarrow> Some (4096 * w + 256 * x + 16 * y + z) | _ \<Rightarrow> None)"

definition simple_escape :: "jchar \<Rightarrow> jchar option" where
  "simple_escape c = (if c = 34 \<or> c = 92 \<or> c = 47 then Some c
     else if c = 98 then Some 8 else if c = 102 then Some 12 else if c = 110 then Some 10
     else if c = 114 then Some 13 else if c = 116 then Some 9 else None)"

text \<open>The rest of a string literal, after its opening quote.\<close>

fun parse_string :: "jstring \<Rightarrow> (jstring \<times> jstring) option" where
  "parse_string [] = None"
| "parse_string (c # cs) =
     (if c = 34 then Some ([], cs)
      else if c = 92 then
        (case cs of [] \<Rightarrow> None
         | e # es \<Rightarrow>
             (if e = 117 then
                (case es of h1 # h2 # h3 # h4 # r \<Rightarrow>
                   (case hex4 h1 h2 h3 h4 of None \<Rightarrow> None
                    | Some u \<Rightarrow> map_option (\<lambda>(t, r'). (u # t, r')) (parse_string r))
                 | _ \<Rightarrow> None)
              else (case simple_escape e of None \<Rightarrow> None
                    | Some u \<Rightarrow> map_option (\<lambda>(t, r'). (u # t, r')) (parse_string es))))
      else if c < 32 then None
      else map_option (\<lambda>(t, r'). (c # t, r')) (parse_string cs))"

definition span_digits :: "jstring \<Rightarrow> jstring \<times> jstring" where
  "span_digits s = (takeWhile is_digit s, dropWhile is_digit s)"

text \<open>A fraction and an exponent are optional; \<open>None\<close> is a malformed one.\<close>

definition parse_frac :: "jstring \<Rightarrow> (jstring \<times> jstring) option" where
  "parse_frac s = (case s of [] \<Rightarrow> Some ([], s)
     | c # cs \<Rightarrow> (if c = 46 then (let (ds, r) = span_digits cs in if ds = [] then None else Some (ds, r))
                 else Some ([], s)))"

definition parse_exp :: "jstring \<Rightarrow> (int \<times> jstring) option" where
  "parse_exp s = (case s of [] \<Rightarrow> Some (0, s)
     | c # cs \<Rightarrow> (if c = 101 \<or> c = 69 then
          (let (sg, t) = (case cs of [] \<Rightarrow> (1, cs)
                 | d # r \<Rightarrow> (if d = 45 then (-1, r) else if d = 43 then (1, r) else (1, cs)));
               (ds, r) = span_digits t
           in if ds = [] then None else Some (sg * int (digits_val ds), r))
        else Some (0, s)))"

definition parse_number :: "jstring \<Rightarrow> (jsnum \<times> jstring) option" where
  "parse_number s =
     (let (sg, t) = (case s of [] \<Rightarrow> (1, s) | c # cs \<Rightarrow> (if c = 45 then (-1, cs) else (1 :: int, s)));
          (ip, r1) = span_digits t
      in if ip = [] \<or> (hd ip = 48 \<and> length ip \<noteq> 1) then None
         else (case parse_frac r1 of None \<Rightarrow> None
               | Some (fs, r2) \<Rightarrow>
                   (case parse_exp r2 of None \<Rightarrow> None
                    | Some (e, r3) \<Rightarrow>
                        Some (round_double (of_int (sg * int (digits_val (ip @ fs))) *
                                pow10 (e - int (length fs))), r3))))"

fun parse_value :: "nat \<Rightarrow> jstring \<Rightarrow> (jsval \<times> jstring) option"
  and parse_elems :: "nat \<Rightarrow> jstring \<Rightarrow> (jsval list \<times> jstring) option"
  and parse_members :: "nat \<Rightarrow> jstring \<Rightarrow> ((jstring \<times> jsval) list \<times> jstring) option"
where
  "parse_value 0 s = None"
| "parse_value (Suc f) s =
     (case skip_ws s of [] \<Rightarrow> None
      | c # cs \<Rightarrow>
          (if c = 123 then
             (if js_starts_with (skip_ws cs) [125] then Some (JObj [], tl (skip_ws cs))
              else map_option (\<lambda>(es, r). (JObj (obj_of es), r)) (parse_members f cs))
           else if c = 91 then
             (if js_starts_with (skip_ws cs) [93] then Some (JArr [], tl (skip_ws cs))
              else map_option (\<lambda>(xs, r). (JArr xs, r)) (parse_elems f cs))
           else if c = 34 then map_option (\<lambda>(t, r). (JStr t, r)) (parse_string cs)
           else if js_starts_with (c # cs) (js ''true'') then Some (JBool True, drop 4 (c # cs))
           else if js_starts_with (c # cs) (js ''false'') then Some (JBool False, drop 5 (c # cs))
           else if js_starts_with (c # cs) (js ''null'') then Some (JNull, drop 4 (c # cs))
           else map_option (\<lambda>(x, r). (JNum x, r)) (parse_number (c # cs))))"
| "parse_elems 0 s = None"
| "parse_elems (Suc f) s =
     (case parse_value f s of None \<Rightarrow> None
      | Some (v, r) \<Rightarrow>
          (case skip_ws r of [] \<Rightarrow> None
           | c # cs \<Rightarrow>
               (if c = 93 then Some ([v], cs)
                else if c = 44 then map_option (\<lambda>(vs, r'). (v # vs, r')) (parse_elems f cs)
                else None)))"
| "parse_members 0 s = None"
| "parse_members (Suc f) s =
     (case skip_ws s of [] \<Rightarrow> None
      | q # qs \<Rightarrow>
          (if q \<noteq> 34 then None
           else case parse_string qs of None \<Rightarrow> None
           | Some (k, r) \<Rightarrow>
               (case skip_ws r of [] \<Rightarrow> None
                | c # cs \<Rightarrow>
                    (if c \<noteq> 58 then None
                     else case parse_value f cs of None \<Rightarrow> None
                     | Some (v, r2) \<Rightarrow>
                         (case skip_ws r2 of [] \<Rightarrow> None
                          | d # ds \<Rightarrow>
                              (if d = 125 then Some ([(k, v)], ds)
                               else if d = 44 then
                                 map_option (\<lambda>(es, r'). ((k, v) # es, r')) (parse_members f ds)
                               else None))))))"

definition json_fuel :: "jstring \<Rightarrow> nat" where
  "json_fuel s = 2 * length s + 2"

text \<open>\<open>JSON.parse\<close>; \<open>None\<close> is the \<open>SyntaxError\<close>.\<close>

definition json_parse :: "jstring \<Rightarrow> jsval option" where
  "json_parse s = (case parse_value (json_fuel s) s of
     Some (v, r) \<Rightarrow> if skip_ws r = [] then Some v else None | None \<Rightarrow> None)"

lemmas [js_eval] = skip_ws_def json_ws_def hex_val_def hex4_def simple_escape_def span_digits_def
  parse_frac_def parse_exp_def parse_number_def json_parse_def json_fuel_def

text \<open>The reader on a numeral amount of fuel, for evaluation.\<close>

lemmas parse_numeral [js_eval] =
  parse_value.simps(2) [of "pred_numeral k" for k, folded numeral_eq_Suc]
  parse_elems.simps(2) [of "pred_numeral k" for k, folded numeral_eq_Suc]
  parse_members.simps(2) [of "pred_numeral k" for k, folded numeral_eq_Suc]

section \<open>Printer\<close>

definition hex_digit :: "nat \<Rightarrow> jchar" where
  "hex_digit n = (if n < 10 then 48 + n else 87 + n)"

definition unicode_escape :: "jchar \<Rightarrow> jstring" where
  "unicode_escape c = [92, 117, hex_digit (c div 4096), hex_digit (c div 256 mod 16),
     hex_digit (c div 16 mod 16), hex_digit (c mod 16)]"

definition high_surrogate :: "jchar \<Rightarrow> bool" where
  "high_surrogate c \<longleftrightarrow> 55296 \<le> c \<and> c \<le> 56319"

definition low_surrogate :: "jchar \<Rightarrow> bool" where
  "low_surrogate c \<longleftrightarrow> 56320 \<le> c \<and> c \<le> 57343"

definition quote_char :: "jchar \<Rightarrow> jstring" where
  "quote_char c = (if c = 34 \<or> c = 92 then [92, c] else if c = 8 then [92, 98]
     else if c = 12 then [92, 102] else if c = 10 then [92, 110] else if c = 13 then [92, 114]
     else if c = 9 then [92, 116] else if c < 32 then unicode_escape c else [c])"

fun quote_body :: "jstring \<Rightarrow> jstring" where
  "quote_body [] = []"
| "quote_body [c] =
     (if high_surrogate c \<or> low_surrogate c then unicode_escape c else quote_char c)"
| "quote_body (c # d # cs) =
     (if high_surrogate c \<and> low_surrogate d then c # d # quote_body cs
      else (if high_surrogate c \<or> low_surrogate c then unicode_escape c else quote_char c)
           @ quote_body (d # cs))"

definition json_quote :: "jstring \<Rightarrow> jstring" where
  "json_quote s = 34 # quote_body s @ [34]"

definition indent :: "nat \<Rightarrow> nat \<Rightarrow> jstring" where
  "indent g l = replicate (g * l) 32"

definition json_wrap :: "nat \<Rightarrow> nat \<Rightarrow> jchar \<Rightarrow> jchar \<Rightarrow> jstring list \<Rightarrow> jstring" where
  "json_wrap g l a b items =
     (if items = [] then [a, b]
      else if g = 0 then a # js_join [44] items @ [b]
      else a # 10 # indent g (Suc l) @ js_join (44 # 10 # indent g (Suc l)) items
             @ 10 # indent g l @ [b])"

text \<open>\<open>JSON.stringify(v, null, g)\<close> at nesting level \<open>l\<close>; \<open>None\<close> is the result \<open>undefined\<close>.\<close>

fun json_str :: "nat \<Rightarrow> nat \<Rightarrow> jsval \<Rightarrow> jstring option" where
  "json_str g l JUndef = None"
| "json_str g l JNull = Some (js ''null'')"
| "json_str g l (JBool b) = Some (if b then js ''true'' else js ''false'')"
| "json_str g l (JNum x) = Some (if is_finite_num x then num_to_string x else js ''null'')"
| "json_str g l (JStr s) = Some (json_quote s)"
| "json_str g l (JArr xs) = Some (json_wrap g l 91 93
     (map (\<lambda>x. case json_str g (Suc l) x of None \<Rightarrow> js ''null'' | Some t \<Rightarrow> t) xs))"
| "json_str g l (JObj es) = Some (json_wrap g l 123 125
     (concat (map (\<lambda>(k, v). case json_str g (Suc l) v of None \<Rightarrow> []
        | Some t \<Rightarrow> [json_quote k @ (if g = 0 then [58] else [58, 32]) @ t]) es)))"

definition json_stringify :: "nat \<Rightarrow> jsval \<Rightarrow> jstring option" where
  "json_stringify g v = json_str g 0 v"

lemmas [js_eval] = hex_digit_def unicode_escape_def high_surrogate_def low_surrogate_def
  quote_char_def json_quote_def indent_def json_wrap_def json_stringify_def

section \<open>The reader consumes its input, so the fuel is enough\<close>

lemma skip_ws_length: "length (skip_ws s) \<le> length s"
  by (simp add: skip_ws_def length_dropWhile_le)

lemma skip_ws_Cons_length: "skip_ws s = c # cs \<Longrightarrow> length cs < length s"
  using skip_ws_length [of s] by simp

lemma parse_string_length: "parse_string s = Some (t, r) \<Longrightarrow> length r < length s"
proof (induction s arbitrary: t r rule: measure_induct_rule [where f = length])
  case (less s)
  have IH: "parse_string s' = Some (t', r') \<Longrightarrow> length s' < length s \<longrightarrow> length r' < length s" for s' t' r'
    using less.IH by (meson less_trans)
  from less.prems show ?case
    by (cases s) (auto split: if_splits list.splits option.splits dest!: IH)
qed

lemma span_digits_length: "span_digits s = (ds, r) \<Longrightarrow> length ds + length r = length s"
  by (auto simp: span_digits_def simp flip: length_append)

lemma parse_frac_length: "parse_frac s = Some (ds, r) \<Longrightarrow> length r \<le> length s"
  by (auto simp: parse_frac_def Let_def split: list.splits if_splits prod.splits
      dest: span_digits_length)

lemma parse_exp_length: "parse_exp s = Some (e, r) \<Longrightarrow> length r \<le> length s"
  by (auto simp: parse_exp_def Let_def split: list.splits if_splits prod.splits
      dest!: span_digits_length)

lemma parse_number_length: "parse_number s = Some (x, r) \<Longrightarrow> length r < length s"
proof -
  assume p: "parse_number s = Some (x, r)"
  obtain sg t where t: "(case s of [] \<Rightarrow> (1, s) | c # cs \<Rightarrow> (if c = 45 then (-1, cs) else (1 :: int, s))) = (sg, t)"
    by (cases "case s of [] \<Rightarrow> (1, s) | c # cs \<Rightarrow> (if c = 45 then (-1, cs) else (1 :: int, s))")
  then have lt: "length t \<le> length s" by (auto split: list.splits if_splits)
  obtain ip r1 where ip: "span_digits t = (ip, r1)" by fastforce
  from p t ip obtain fs r2 e where "ip \<noteq> []" "parse_frac r1 = Some (fs, r2)" "parse_exp r2 = Some (e, r)"
    by (auto simp: parse_number_def split: if_splits option.splits prod.splits)
  with ip lt show ?thesis
    using span_digits_length [OF ip] parse_frac_length parse_exp_length
    by (metis add_less_cancel_right le_trans length_greater_0_conv less_le_trans linorder_not_less add_0)
qed


lemma parse_length:
  "parse_value f s = Some (v, r) \<Longrightarrow> length r < length s"
  "parse_elems f s = Some (vs, r) \<Longrightarrow> length r < length s"
  "parse_members f s = Some (es, r) \<Longrightarrow> length r < length s"
proof (induction f arbitrary: s v r vs es)
  case (Suc f)
  note L = Suc.IH skip_ws_Cons_length parse_string_length
  {
    case 1
    then obtain c cs where c: "skip_ws s = c # cs" by (auto split: list.splits)
    have cs: "length cs < length s" using c by (rule skip_ws_Cons_length)
    have n: "parse_number (c # cs) = Some (x, r) \<Longrightarrow> length r \<le> length cs" for x
      by (drule parse_number_length) simp
    have t: "js_starts_with (skip_ws cs) [y] \<Longrightarrow> length (tl (skip_ws cs)) < length s" for y
      using cs skip_ws_length [of cs] by (cases "skip_ws cs") auto
    have w: "parse_string cs = Some (t, r) \<Longrightarrow> length r < length s" for t
      using parse_string_length cs by fastforce
    from 1 c cs t n w Suc.IH(2) [of cs] Suc.IH(3) [of cs] show ?case
      by (auto simp del: js_starts_with.simps split: if_splits)
  next
    case 2
    then obtain v' r' where v: "parse_value f s = Some (v', r')" by (auto split: option.splits)
    then obtain c cs where c: "skip_ws r' = c # cs" using 2 by (auto split: list.splits)
    from 2 v c Suc.IH(1) [OF v] skip_ws_Cons_length [OF c] Suc.IH(2) [of cs] show ?case
      by (auto split: if_splits)
  next
    case 3
    then obtain qs where q: "skip_ws s = 34 # qs" by (auto split: list.splits if_splits)
    with 3 obtain k r1 where k: "parse_string qs = Some (k, r1)" by (auto split: option.splits)
    with 3 q obtain cs where c: "skip_ws r1 = 58 # cs" by (auto split: list.splits if_splits)
    with 3 q k obtain v' r2 where v: "parse_value f cs = Some (v', r2)" by (auto split: option.splits)
    with 3 q k c obtain d ds where d: "skip_ws r2 = d # ds" by (auto split: list.splits)
    from skip_ws_Cons_length [OF q] parse_string_length [OF k] skip_ws_Cons_length [OF c]
      Suc.IH(1) [OF v] skip_ws_Cons_length [OF d] have "length ds < length s" by simp
    with 3 q k c v d Suc.IH(3) [of ds] show ?case
      by (auto split: if_splits)
  }
qed simp_all

text \<open>Enough fuel, and any larger amount of it, gives the same answer.\<close>

lemma parse_fuel:
  "2 * length s + 2 \<le> f \<Longrightarrow> 2 * length s + 2 \<le> g \<Longrightarrow> parse_value f s = parse_value g s"
  "2 * length s + 3 \<le> f \<Longrightarrow> 2 * length s + 3 \<le> g \<Longrightarrow> parse_elems f s = parse_elems g s"
  "2 * length s + 3 \<le> f \<Longrightarrow> 2 * length s + 3 \<le> g \<Longrightarrow> parse_members f s = parse_members g s"
proof (induction f arbitrary: g s)
  case (Suc f)
  {
    case 1
    then obtain g' where g: "g = Suc g'" by (cases g) auto
    have "parse_elems f cs = parse_elems g' cs \<and> parse_members f cs = parse_members g' cs"
      if "skip_ws s = c # cs" for c cs
      using Suc.IH(2,3) [of cs g'] skip_ws_Cons_length [OF that] 1 g by simp
    then show ?case
      by (cases "skip_ws s") (simp_all add: g)
  next
    case 2
    then obtain g' where g: "g = Suc g'" by (cases g) auto
    have v: "parse_value f s = parse_value g' s" using Suc.IH(1) [of s g'] 2 g by simp
    have "parse_elems f cs = parse_elems g' cs"
      if "parse_value g' s = Some (v, r)" "skip_ws r = c # cs" for v r c cs
      using Suc.IH(2) [of cs g'] parse_length(1) [OF that(1)] skip_ws_Cons_length [OF that(2)] 2 g
      by simp
    then show ?case
      by (auto simp: g v split: option.splits list.splits)
  next
    case 3
    then obtain g' where g: "g = Suc g'" by (cases g) auto
    have v: "parse_value f cs = parse_value g' cs"
      if "skip_ws s = q # qs" "parse_string qs = Some (k, r)" "skip_ws r = c # cs" for q qs k r c cs
      using Suc.IH(1) [of cs g'] skip_ws_Cons_length [OF that(1)] parse_string_length [OF that(2)]
        skip_ws_Cons_length [OF that(3)] 3 g by simp
    have m: "parse_members f ds = parse_members g' ds"
      if "skip_ws s = q # qs" "parse_string qs = Some (k, r)" "skip_ws r = c # cs"
        "parse_value g' cs = Some (w, r2)" "skip_ws r2 = d # ds" for q qs k r c cs w r2 d ds
      using Suc.IH(3) [of ds g'] skip_ws_Cons_length [OF that(1)] parse_string_length [OF that(2)]
        skip_ws_Cons_length [OF that(3)] parse_length(1) [OF that(4)] skip_ws_Cons_length [OF that(5)] 3 g
      by simp
    show ?case
      by (auto simp: g v m split: option.splits list.splits)
  }
qed simp_all

lemma json_parse_fuel:
  "json_fuel s \<le> f \<Longrightarrow> json_parse s = (case parse_value f s of
     Some (v, r) \<Rightarrow> if skip_ws r = [] then Some v else None | None \<Rightarrow> None)"
  using parse_fuel(1) [of s "json_fuel s" f] by (simp add: json_parse_def json_fuel_def)

section \<open>Round trip\<close>

text \<open>
  The values that JSON represents faithfully: no \<open>undefined\<close>, numbers that are safe integers,
  code units of 16 bits, and records in their own key order.
\<close>

definition unit16 :: "jstring \<Rightarrow> bool" where
  "unit16 s \<longleftrightarrow> list_all (\<lambda>c. c < 65536) s"

fun canonical :: "jsval \<Rightarrow> bool" where
  "canonical JUndef = False"
| "canonical JNull = True"
| "canonical (JBool b) = True"
| "canonical (JNum x) = (case x of Num q \<Rightarrow> of_int \<lfloor>q\<rfloor> = q \<and> safe_int \<lfloor>q\<rfloor> | _ \<Rightarrow> False)"
| "canonical (JStr s) = unit16 s"
| "canonical (JArr xs) = (\<forall>x \<in> set xs. canonical x)"
| "canonical (JObj es) = (obj_of es = es \<and> (\<forall>e \<in> set es. unit16 (fst e) \<and> canonical (snd e)))"

lemma hex_val_digit: "n < 16 \<Longrightarrow> hex_val (hex_digit n) = Some n"
  by (auto simp: hex_val_def hex_digit_def)

lemma hex4_escape: "c < 65536 \<Longrightarrow>
  hex4 (hex_digit (c div 4096)) (hex_digit (c div 256 mod 16)) (hex_digit (c div 16 mod 16))
    (hex_digit (c mod 16)) = Some c"
proof -
  assume c: "c < 65536"
  have d: "c div 16 div 16 = c div 256" "c div 256 div 16 = c div 4096"
    by (simp_all flip: div_mult2_eq)
  have "c div 16 = 16 * (c div 256) + c div 16 mod 16"
    unfolding d(1) [symmetric] by (rule mult_div_mod_eq [symmetric])
  moreover have "c div 256 = 16 * (c div 4096) + c div 256 mod 16"
    unfolding d(2) [symmetric] by (rule mult_div_mod_eq [symmetric])
  moreover have "c = 16 * (c div 16) + c mod 16" by simp
  ultimately have "4096 * (c div 4096) + 256 * (c div 256 mod 16) + 16 * (c div 16 mod 16) + c mod 16 = c"
    by linarith
  with c show ?thesis by (simp add: hex4_def hex_val_digit less_mult_imp_div_less)
qed

lemma parse_unicode_escape:
  "c < 65536 \<Longrightarrow> parse_string (unicode_escape c @ t) = map_option (\<lambda>(u, r). (c # u, r)) (parse_string t)"
  by (simp add: unicode_escape_def hex4_escape)

lemma parse_quote_char:
  "c < 65536 \<Longrightarrow> parse_string (quote_char c @ t) = map_option (\<lambda>(u, r). (c # u, r)) (parse_string t)"
  using parse_unicode_escape [of c t] by (auto simp: quote_char_def simple_escape_def)

lemma parse_quote_body: "unit16 s \<Longrightarrow> parse_string (quote_body s @ 34 # r) = Some (s, r)"
proof (induction s rule: quote_body.induct)
  case (2 c)
  then show ?case
    by (simp add: unit16_def parse_unicode_escape parse_quote_char)
next
  case (3 c d cs)
  then show ?case
    by (auto simp: unit16_def parse_unicode_escape parse_quote_char high_surrogate_def low_surrogate_def)
qed simp


definition ends_number :: "jstring \<Rightarrow> bool" where
  "ends_number r \<longleftrightarrow> r = [] \<or> (\<not> is_digit (hd r) \<and> hd r \<noteq> 46 \<and> hd r \<noteq> 69 \<and> hd r \<noteq> 101)"

lemma ends_number_simps [simp]:
  "ends_number []" "ends_number (44 # r)" "ends_number (93 # r)" "ends_number (125 # r)"
  by (simp_all add: ends_number_def is_digit_def)

lemma ends_number_ws: "list_all json_ws w \<Longrightarrow> ends_number r \<Longrightarrow> ends_number (w @ r)"
  by (cases w) (auto simp: ends_number_def json_ws_def is_digit_def)

lemma show_nat_hd: "hd (show_nat n) = 48 \<Longrightarrow> length (show_nat n) = 1"
proof (induction n rule: show_nat.induct)
  case (1 n)
  show ?case
  proof (cases "n < 10")
    case True
    then show ?thesis by (simp add: show_nat.simps)
  next
    case False
    then have e: "show_nat n = show_nat (n div 10) @ [48 + n mod 10]" by (simp add: show_nat.simps)
    with 1 False have l: "length (show_nat (n div 10)) = 1" "hd (show_nat (n div 10)) = 48" by auto
    then have "show_nat (n div 10) = show_nat 0"
      by (cases "show_nat (n div 10)") (auto simp: show_nat.simps [of 0])
    with False show ?thesis by simp
  qed
qed

lemma parse_number_show_int:
  assumes "safe_int i" "ends_number r"
  shows "parse_number (show_int i @ r) = Some (num_int i, r)"
proof -
  define n where "n = nat \<bar>i\<bar>"
  have d: "takeWhile is_digit (show_nat n @ r) = show_nat n"
    using show_nat_digits [of n] assms(2) by (cases r) (auto simp: ends_number_def takeWhile_append)
  have e: "dropWhile is_digit (show_nat n @ r) = r"
    using show_nat_digits [of n] assms(2) by (cases r) (auto simp: ends_number_def dropWhile_append)
  have fr: "parse_frac r = Some ([], r)" "parse_exp r = Some (0, r)"
    using assms(2) by (auto simp: parse_frac_def parse_exp_def ends_number_def split: list.splits)
  obtain c cs where c: "show_nat n = c # cs" "is_digit c"
    using show_nat_digits [of n] by (cases "show_nat n") auto
  have l: "hd (show_nat n) = 48 \<longrightarrow> length (show_nat n) = Suc 0"
    using show_nat_hd [of n] by simp
  have v: "round_double (of_int i) = num_int i" using assms(1) by (rule round_double_safe_int)
  have k: "(case show_nat n @ r of [] \<Rightarrow> (1, show_nat n @ r)
      | c # cs \<Rightarrow> (if c = 45 then (-1, cs) else (1 :: int, show_nat n @ r))) = (1, show_nat n @ r)"
    using c by (auto simp: is_digit_def)
  show ?thesis
  proof (cases "i < 0")
    case True
    then have "show_int i = 45 # show_nat n" "i = - int n" by (simp_all add: show_int_def n_def)
    with v d e fr l show ?thesis
      by (simp add: parse_number_def span_digits_def pow10_def)
  next
    case False
    then have s: "show_int i = show_nat n" "i = int n" by (simp_all add: show_int_def n_def)
    have "parse_number (show_nat n @ r) =
        Some (round_double (of_int (1 * int (digits_val (show_nat n @ []))) * pow10 0), r)"
      unfolding parse_number_def k span_digits_def using d e fr l by simp
    with v s show ?thesis by (simp add: pow10_def)
  qed
qed

text \<open>A text \<open>t\<close> reads as \<open>v\<close> wherever it stands, after any blanks.\<close>

definition reads :: "jstring \<Rightarrow> jsval \<Rightarrow> bool" where
  "reads t v \<longleftrightarrow> (\<forall>w r f. list_all json_ws w \<longrightarrow> ends_number r \<longrightarrow>
     2 * length (w @ t @ r) + 2 \<le> f \<longrightarrow> parse_value f (w @ t @ r) = Some (v, r))"

lemma readsD: "reads t v \<Longrightarrow> list_all json_ws w \<Longrightarrow> ends_number r \<Longrightarrow>
    2 * length (w @ t @ r) + 2 \<le> f \<Longrightarrow> parse_value f (w @ t @ r) = Some (v, r)"
  by (simp add: reads_def)

lemma skip_ws_append [simp]: "list_all json_ws w \<Longrightarrow> skip_ws (w @ s) = skip_ws s"
  by (induction w) (auto simp: skip_ws_def)

lemma skip_ws_Cons [simp]: "\<not> json_ws c \<Longrightarrow> skip_ws (c # s) = c # s"
  by (simp add: skip_ws_def)

lemma json_ws_simps [simp]:
  "\<not> json_ws 93" "\<not> json_ws 44" "\<not> json_ws 125" "\<not> json_ws 34" "\<not> json_ws 58" "\<not> json_ws 91"
  "\<not> json_ws 123"
  by (simp_all add: json_ws_def)

lemma readsI:
  assumes "t = c # t'" "\<not> json_ws c"
    "\<And>r f. ends_number r \<Longrightarrow> 2 * length (t @ r) + 2 \<le> Suc f \<Longrightarrow> parse_value (Suc f) (t @ r) = Some (v, r)"
  shows "reads t v"
  unfolding reads_def
proof (intro allI impI)
  fix w r f
  assume h: "list_all json_ws w" "ends_number r" "2 * length (w @ t @ r) + 2 \<le> f"
  then obtain f' where f: "f = Suc f'" by (cases f) auto
  have "parse_value f (w @ t @ r) = parse_value f (t @ r)"
    using h(1) assms(1,2) by (simp add: f)
  with h f assms(3) show "parse_value f (w @ t @ r) = Some (v, r)" by simp
qed

lemma parse_value_close: "js_starts_with (skip_ws s) [93] \<Longrightarrow> parse_value f s = None"
proof -
  assume "js_starts_with (skip_ws s) [93]"
  then obtain r where r: "skip_ws s = 93 # r" by (auto simp: js_starts_with_prefix)
  show ?thesis
    by (cases f) (simp_all add: r js_Cons parse_number_def span_digits_def is_digit_def)
qed

lemma parse_elems_join:
  assumes "list_all2 reads ts xs" "xs \<noteq> []" "list_all json_ws p" "list_all json_ws w" "list_all json_ws q"
    and "2 * length (p @ js_join (44 # w) ts @ q @ 93 # r) + 3 \<le> f"
  shows "parse_elems f (p @ js_join (44 # w) ts @ q @ 93 # r) = Some (xs, r)"
  using assms
proof (induction ts xs arbitrary: p f rule: list_all2_induct)
  case (Cons t ts x xs)
  then obtain f' where f: "f = Suc f'" by (cases f) auto
  show ?case
  proof (cases xs)
    case Nil
    with Cons have ts: "ts = []" by simp
    have "parse_value f' (p @ t @ q @ 93 # r) = Some (x, q @ 93 # r)"
      using Cons.prems Cons.hyps(1) f ts by (intro readsD) (auto simp: ends_number_ws)
    with Nil ts Cons.prems show ?thesis by (simp add: f)
  next
    case (Cons x' xs')
    with Cons.hyps obtain t' ts' where ts: "ts = t' # ts'" by (cases ts) auto
    let ?rest = "w @ js_join (44 # w) ts @ q @ 93 # r"
    have i: "p @ js_join (44 # w) (t # ts) @ q @ 93 # r = p @ t @ 44 # ?rest"
      by (simp add: ts)
    have v: "parse_value f' (p @ t @ 44 # ?rest) = Some (x, 44 # ?rest)"
      using Cons.prems Cons.hyps(1) f i by (intro readsD) auto
    have "parse_elems f' ?rest = Some (xs, r)"
      using Cons.prems f i Cons by (intro Cons.IH) auto
    with v show ?thesis by (simp add: f i)
  qed
qed simp

lemma parse_members_join:
  assumes "list_all2 (\<lambda>t e. reads t (snd e)) ts es" "es \<noteq> []" "\<forall>e \<in> set es. unit16 (fst e)"
    "list_all json_ws p" "list_all json_ws w" "list_all json_ws q" "list_all json_ws z"
    and "2 * length (p @ js_join (44 # w) (map2 (\<lambda>t e. json_quote (fst e) @ 58 # z @ t) ts es) @ q @ 125 # r) + 3 \<le> f"
  shows "parse_members f (p @ js_join (44 # w) (map2 (\<lambda>t e. json_quote (fst e) @ 58 # z @ t) ts es)
            @ q @ 125 # r) = Some (es, r)"
  using assms
proof (induction ts es arbitrary: p f rule: list_all2_induct)
  case (Cons t ts e es)
  then obtain f' where f: "f = Suc f'" by (cases f) auto
  let ?item = "\<lambda>t e. json_quote (fst e) @ 58 # z @ t"
  have k: "parse_string (quote_body (fst e) @ 34 # u) = Some (fst e, u)" for u
    using Cons.prems by (simp add: parse_quote_body)
  show ?case
  proof (cases es)
    case Nil
    with Cons have ts: "ts = []" by simp
    have "parse_value f' (z @ t @ q @ 125 # r) = Some (snd e, q @ 125 # r)"
      using Cons.prems Cons.hyps(1) f ts by (intro readsD) (auto simp: ends_number_ws json_quote_def)
    with Nil ts Cons.prems k show ?thesis by (simp add: f json_quote_def)
  next
    case (Cons e' es')
    with Cons.hyps obtain t' ts' where ts: "ts = t' # ts'" by (cases ts) auto
    let ?rest = "w @ js_join (44 # w) (map2 ?item ts es) @ q @ 125 # r"
    have i: "p @ js_join (44 # w) (map2 ?item (t # ts) (e # es)) @ q @ 125 # r =
        p @ 34 # quote_body (fst e) @ 34 # 58 # z @ t @ 44 # ?rest"
      by (simp add: ts Cons json_quote_def)
    have v: "parse_value f' (z @ t @ 44 # ?rest) = Some (snd e, 44 # ?rest)"
      using Cons.prems Cons.hyps(1) f unfolding i by (intro readsD) auto
    have m: "parse_members f' ?rest = Some (es, r)"
      using Cons.prems f Cons unfolding i by (intro Cons.IH) auto
    show ?thesis
      unfolding i using Cons.prems(3) k v m by (simp add: f)
  qed
qed simp


lemma json_ws_indent: "list_all json_ws (indent g l)"
  by (simp add: indent_def json_ws_def list_all_iff)

lemma json_wrap_form:
  assumes "items \<noteq> []"
  obtains p w q where "json_wrap g l a b items = a # p @ js_join (44 # w) items @ q @ [b]"
    "list_all json_ws p" "list_all json_ws w" "list_all json_ws q"
proof (cases "g = 0")
  case True
  with assms show ?thesis by (intro that [of "[]" "[]" "[]"]) (simp_all add: json_wrap_def)
next
  case False
  with assms show ?thesis
    by (intro that [of "10 # indent g (Suc l)" "10 # indent g (Suc l)" "10 # indent g l"])
      (simp_all add: json_wrap_def json_ws_indent, simp_all add: json_ws_def)
qed

lemma reads_array:
  assumes "list_all2 reads ts xs"
  shows "reads (json_wrap g l 91 93 ts) (JArr xs)"
proof (cases "xs = []")
  case True
  with assms have "json_wrap g l 91 93 ts = [91, 93]" by (simp add: json_wrap_def)
  with True show ?thesis by (intro readsI) auto
next
  case False
  with assms have "ts \<noteq> []" by auto
  then obtain p w q where s: "json_wrap g l 91 93 ts = 91 # p @ js_join (44 # w) ts @ q @ [93]"
    and ws: "list_all json_ws p" "list_all json_ws w" "list_all json_ws q"
    by (rule json_wrap_form)
  show ?thesis
  proof (rule readsI [OF s])
    fix r f
    let ?b = "p @ js_join (44 # w) ts @ q @ 93 # r"
    assume f: "2 * length (json_wrap g l 91 93 ts @ r) + 2 \<le> Suc f"
    then have e: "parse_elems f ?b = Some (xs, r)"
      using assms False ws by (intro parse_elems_join) (auto simp: s)
    have "\<not> js_starts_with (skip_ws ?b) [93]"
      using e parse_value_close [of ?b "f - 1"] by (cases f) auto
    with e show "parse_value (Suc f) (json_wrap g l 91 93 ts @ r) = Some (JArr xs, r)"
      by (simp add: s)
  qed simp
qed

lemma reads_record:
  assumes ts: "list_all2 (\<lambda>t e. reads t (snd e)) ts es" and k: "\<forall>e \<in> set es. unit16 (fst e)"
    and o: "obj_of es = es" and z: "list_all json_ws z"
  shows "reads (json_wrap g l 123 125 (map2 (\<lambda>t e. json_quote (fst e) @ 58 # z @ t) ts es)) (JObj es)"
    (is "reads (json_wrap g l 123 125 ?items) _")
proof (cases "es = []")
  case True
  then have "json_wrap g l 123 125 ?items = [123, 125]" by (simp add: json_wrap_def)
  with True show ?thesis by (intro readsI) auto
next
  case False
  with ts have "?items \<noteq> []" by (cases es; cases ts) auto
  then obtain p w q where s: "json_wrap g l 123 125 ?items = 123 # p @ js_join (44 # w) ?items @ q @ [125]"
    and ws: "list_all json_ws p" "list_all json_ws w" "list_all json_ws q"
    by (rule json_wrap_form)
  show ?thesis
  proof (rule readsI [OF s])
    fix r f
    let ?b = "p @ js_join (44 # w) ?items @ q @ 125 # r"
    assume f: "2 * length (json_wrap g l 123 125 ?items @ r) + 2 \<le> Suc f"
    then have e: "parse_members f ?b = Some (es, r)"
      using ts k z False ws by (intro parse_members_join) (auto simp: s)
    have "\<not> js_starts_with (skip_ws ?b) [125]"
      using e by (cases f) (auto simp: js_starts_with_prefix)
    with e o show "parse_value (Suc f) (json_wrap g l 123 125 ?items @ r) = Some (JObj es, r)"
      by (simp add: s)
  qed simp
qed

lemma reads_literal:
  "reads (js ''null'') JNull" "reads (js ''true'') (JBool True)" "reads (js ''false'') (JBool False)"
proof -
  show "reads (js ''null'') JNull"
    by (rule readsI [where c = 110]) (simp_all add: js_eval)
  show "reads (js ''true'') (JBool True)"
    by (rule readsI [where c = 116]) (simp_all add: js_eval)
  show "reads (js ''false'') (JBool False)"
    by (rule readsI [where c = 102]) (simp_all add: js_eval)
qed

lemma reads_string: "unit16 s \<Longrightarrow> reads (json_quote s) (JStr s)"
  by (rule readsI [where c = 34]) (simp_all add: json_quote_def parse_quote_body)

lemma reads_int: "safe_int i \<Longrightarrow> reads (show_int i) (JNum (num_int i))"
proof -
  assume i: "safe_int i"
  obtain c cs where c: "show_int i = c # cs" "c = 45 \<or> is_digit c"
  proof (cases "i < 0")
    case False
    then show ?thesis
      using show_nat_digits [of "nat i"] that by (cases "show_nat (nat i)") (auto simp: show_int_def)
  qed (use that in \<open>simp add: show_int_def\<close>)
  show ?thesis
  proof (rule readsI [OF c(1)])
    show "\<not> json_ws c" using c(2) by (auto simp: json_ws_def is_digit_def)
    fix r f
    assume "ends_number r"
    then have "parse_number (c # cs @ r) = Some (num_int i, r)"
      using parse_number_show_int [OF i, of r] c(1) by simp
    with c(2) show "parse_value (Suc f) (show_int i @ r) = Some (JNum (num_int i), r)"
      by (auto simp: c(1) js_Cons json_ws_def is_digit_def)
  qed
qed

lemma list_all2_refl_set: "(\<And>x. x \<in> set xs \<Longrightarrow> P x x) \<Longrightarrow> list_all2 P xs xs"
  by (simp add: list_all2_conv_all_nth)

lemma reads_json_str: "canonical v \<Longrightarrow> \<exists>t. json_str g l v = Some t \<and> reads t v"
proof (induction v arbitrary: l)
  case (JNum x)
  then obtain i where "x = num_int i" "safe_int i"
    by (auto simp: num_int_def split: jsnum.splits dest: sym)
  moreover have "is_finite_num (num_int i)" by (simp add: is_finite_num_def num_int_def)
  ultimately show ?case by (simp add: reads_int)
next
  case (JArr xs)
  define ts where "ts = map (\<lambda>x. case json_str g (Suc l) x of None \<Rightarrow> js ''null'' | Some t \<Rightarrow> t) xs"
  have "list_all2 reads ts xs"
    unfolding ts_def list_all2_map1
  proof (rule list_all2_refl_set)
    fix x assume "x \<in> set xs"
    with JArr.IH [of x "Suc l"] JArr.prems obtain t where "json_str g (Suc l) x = Some t" "reads t x"
      by auto
    then show "reads (case json_str g (Suc l) x of None \<Rightarrow> js ''null'' | Some t \<Rightarrow> t) x" by simp
  qed
  then show ?case by (simp add: ts_def reads_array)
next
  case (JObj es)
  define z where "z = (if g = 0 then [] else [32 :: jchar])"
  define tx where "tx e = the (json_str g (Suc l) (snd e))" for e :: "jstring \<times> jsval"
  have e: "json_str g (Suc l) (snd e) = Some (tx e) \<and> reads (tx e) (snd e)" if m: "e \<in> set es" for e
  proof -
    have "canonical (snd e)" using JObj.prems m by simp
    then obtain t where "json_str g (Suc l) (snd e) = Some t" "reads t (snd e)"
      using JObj.IH [of e "snd e" "Suc l"] m by (auto simp: snds.simps)
    then show ?thesis by (simp add: tx_def)
  qed
  have items: "concat (map (\<lambda>(k, v). case json_str g (Suc l) v of None \<Rightarrow> []
        | Some t \<Rightarrow> [json_quote k @ (if g = 0 then [58] else [58, 32]) @ t]) es') =
      map2 (\<lambda>t e. json_quote (fst e) @ 58 # z @ t) (map tx es') es'" if "set es' \<subseteq> set es" for es'
    using that
  proof (induction es')
    case (Cons e' es')
    with e [of e'] show ?case by (cases e') (auto simp: z_def)
  qed simp
  have "list_all2 (\<lambda>t e. reads t (snd e)) (map tx es) es"
    using e by (auto simp: list_all2_map1 intro: list_all2_refl_set)
  moreover have "list_all json_ws z" by (simp add: z_def json_ws_def)
  ultimately show ?case
    using JObj.prems by (simp add: items reads_record)
qed (auto simp: reads_literal reads_string)


text \<open>The round trip: what \<open>JSON.stringify\<close> prints, with any indentation, \<open>JSON.parse\<close> reads back.\<close>

theorem json_parse_stringify:
  assumes "canonical v"
  shows "\<exists>t. json_stringify g v = Some t \<and> json_parse t = Some v"
proof -
  obtain t where t: "json_str g 0 v = Some t" "reads t v"
    using reads_json_str [OF assms] by blast
  have "parse_value (json_fuel t) ([] @ t @ []) = Some (v, [])"
    by (rule readsD [OF t(2)]) (simp_all add: json_fuel_def)
  with t(1) show ?thesis
    by (auto simp: json_stringify_def json_parse_def skip_ws_def)
qed

text \<open>A blank text is no JSON text.\<close>

lemma json_parse_blank: "js_trim s = [] \<Longrightarrow> json_parse s = None"
proof -
  assume "js_trim s = []"
  then have ws: "\<forall>c \<in> set s. is_ws c" by (simp add: js_trim_eq_Nil)
  have sub: "set (skip_ws s) \<subseteq> set s"
    by (auto simp: skip_ws_def dest: set_dropWhileD)
  show ?thesis
  proof (cases "skip_ws s")
    case Nil
    then show ?thesis by (simp add: json_parse_def json_fuel_def)
  next
    case (Cons c cs)
    with sub ws have "is_ws c" by auto
    then have "c \<noteq> 34 \<and> c \<noteq> 91 \<and> c \<noteq> 123 \<and> c \<noteq> 45 \<and> \<not> is_digit c \<and> c \<noteq> 116 \<and> c \<noteq> 102 \<and> c \<noteq> 110"
      by (auto dest: digit_not_ws) (simp_all add: is_ws_def)
    with Cons show ?thesis
      by (auto simp: json_parse_def json_fuel_def js_Cons js_starts_with_prefix parse_number_def
          span_digits_def Let_def split: if_splits)
  qed
qed

text \<open>Different canonical values have different texts.\<close>

interpretation json_text: codec "\<lambda>v. the (json_stringify g v)" json_parse canonical for g
proof
  fix v
  assume "canonical v"
  then obtain t where "json_stringify g v = Some t" "json_parse t = Some v" using json_parse_stringify by blast
  then show "json_parse (the (json_stringify g v)) = Some v" by simp
qed

end
