(* ===== verification/Status_Code_Rules.thy ===== *)
theory Status_Code_Rules
  imports JS_Json "HOL-Library.Product_Lexorder" "HOL-Library.List_Lexorder"
begin

text \<open>
  The status-code rules of the administration pages.

  The first part is \<open>web/src/lib/http-status-code-rules.ts\<close>: a rule text such as
  \<open>401, 500-503\<close> is split into tokens, each token is read as a range of codes, and the ranges are
  sorted and merged into a normal form.  The second part is
  \<open>web/src/features/channels/lib/status-code-risk-guard.ts\<close>: the status-code mapping of a channel is
  checked for malformed entries and for redirects of the codes 504 and 524.
\<close>

section \<open>Rule texts\<close>

record status_code_range =
  range_start :: nat
  range_end :: nat

record parsed_http_status_code_rules =
  rules_ok :: bool
  rules_ranges :: "status_code_range list"
  rules_tokens :: "jstring list"
  rules_normalized :: jstring
  rules_invalidTokens :: "jstring list"

definition isNumber :: "jstring \<Rightarrow> bool" where
  "isNumber s \<longleftrightarrow> s \<noteq> [] \<and> list_all is_digit s"

definition isValidCode :: "nat \<Rightarrow> bool" where
  "isValidCode code \<longleftrightarrow> 100 \<le> code \<and> code \<le> 599"

definition parseToken :: "jstring \<Rightarrow> status_code_range option" where
  "parseToken token =
     (let cleaned = filter (\<lambda>c. \<not> is_ws c) (js_trim token)
      in if cleaned = [] then None
         else if js_includes cleaned (js ''-'') then
           (let a = js_split 45 cleaned ! 0; b = js_split 45 cleaned ! 1
            in if \<not> isNumber a \<or> \<not> isNumber b then None
               else let start = digits_val a; end_code = digits_val b
                    in if \<not> isValidCode start \<or> \<not> isValidCode end_code \<or> start > end_code then None
                       else Some \<lparr>range_start = start, range_end = end_code\<rparr>)
         else if \<not> isNumber cleaned then None
         else let code = digits_val cleaned
              in if \<not> isValidCode code then None
                 else Some \<lparr>range_start = code, range_end = code\<rparr>)"

definition merge_step :: "status_code_range list \<Rightarrow> status_code_range \<Rightarrow> status_code_range list" where
  "merge_step merged current =
     (if merged = [] \<or> range_start current > range_end (last merged) + 1
      then merged @ [current]
      else butlast merged @
             [last merged\<lparr>range_end := max (range_end (last merged)) (range_end current)\<rparr>])"

definition mergeRanges :: "status_code_range list \<Rightarrow> status_code_range list" where
  "mergeRanges ranges =
     (if ranges = [] then []
      else foldl merge_step [] (sort_key (\<lambda>r. (range_start r, range_end r)) ranges))"

definition range_token :: "status_code_range \<Rightarrow> jstring" where
  "range_token r =
     (if range_start r = range_end r then show_nat (range_start r)
      else show_nat (range_start r) @ [45] @ show_nat (range_end r))"

text \<open>The tokens of a text, with the full-width comma (U+FF0C) read as a comma.\<close>

definition rule_segments :: "jstring \<Rightarrow> jstring list" where
  "rule_segments raw =
     filter (\<lambda>s. s \<noteq> []) (map js_trim (js_split 44 (map (\<lambda>c. if c = 65292 then 44 else c) raw)))"

fun parse_segments :: "jstring list \<Rightarrow> status_code_range list \<Rightarrow> jstring list \<Rightarrow>
    status_code_range list \<times> jstring list" where
  "parse_segments [] ranges invalidTokens = (ranges, invalidTokens)"
| "parse_segments (segment # rest) ranges invalidTokens =
     (case parseToken segment of
        None \<Rightarrow> parse_segments rest ranges (invalidTokens @ [segment])
      | Some parsed \<Rightarrow> parse_segments rest (ranges @ [parsed]) invalidTokens)"

definition parseHttpStatusCodeRules :: "jsval \<Rightarrow> parsed_http_status_code_rules" where
  "parseHttpStatusCodeRules input =
     (let raw = js_trim (nullish_to_string input)
      in if raw = [] then
           \<lparr>rules_ok = True, rules_ranges = [], rules_tokens = [], rules_normalized = [],
            rules_invalidTokens = []\<rparr>
         else let (ranges, invalidTokens) = parse_segments (rule_segments raw) [] []
              in if invalidTokens \<noteq> [] then
                   \<lparr>rules_ok = False, rules_ranges = [], rules_tokens = [], rules_normalized = raw,
                    rules_invalidTokens = invalidTokens\<rparr>
                 else let merged = mergeRanges ranges; tokens = map range_token merged
                      in \<lparr>rules_ok = True, rules_ranges = merged, rules_tokens = tokens,
                          rules_normalized = js_join [44] tokens, rules_invalidTokens = []\<rparr>)"

section \<open>Redirect guard\<close>

definition NON_REDIRECTABLE_STATUS_CODES :: "nat list" where
  "NON_REDIRECTABLE_STATUS_CODES = [504, 524]"

text \<open>The pattern \<open>^[1-5]\d{2}$\<close>.\<close>

definition three_digit_code :: "jstring \<Rightarrow> bool" where
  "three_digit_code s \<longleftrightarrow> length s = 3 \<and> 49 \<le> s ! 0 \<and> s ! 0 \<le> 53 \<and> list_all is_digit s"

definition parseStatusCodeKey :: "jstring \<Rightarrow> nat option" where
  "parseStatusCodeKey rawKey =
     (let normalized = js_trim rawKey
      in if \<not> three_digit_code normalized then None else Some (digits_val normalized))"

definition parseStatusCodeMappingTarget :: "jsval \<Rightarrow> nat option" where
  "parseStatusCodeMappingTarget rawValue =
     (case rawValue of
        JNum x \<Rightarrow>
          (case x of
             Num q \<Rightarrow> (if is_integer_num x \<and> num_between x 100 599 then Some (nat \<lfloor>q\<rfloor>) else None)
           | _ \<Rightarrow> None)
      | JStr s \<Rightarrow>
          (let normalized = js_trim s
           in if \<not> three_digit_code normalized then None
              else let code = digits_val normalized
                   in if 100 \<le> code \<and> code \<le> 599 then Some code else None)
      | _ \<Rightarrow> None)"

text \<open>The entries of the mapping text: none when it is blank, no JSON, or not a record.\<close>

definition mapping_entries :: "jstring \<Rightarrow> (jstring \<times> jsval) list" where
  "mapping_entries str =
     (if js_trim str = [] then []
      else case json_parse str of None \<Rightarrow> []
           | Some parsed \<Rightarrow> (case obj_entries parsed of None \<Rightarrow> [] | Some es \<Rightarrow> es))"

definition collectInvalidStatusCodeEntries :: "jstring \<Rightarrow> jstring list" where
  "collectInvalidStatusCodeEntries str =
     concat (map (\<lambda>(rawKey, rawValue).
       if parseStatusCodeKey rawKey = None \<or> parseStatusCodeMappingTarget rawValue = None
       then [rawKey @ [32, 8594, 32] @ js_String rawValue] else []) (mapping_entries str))"

text \<open>The loop body of the redirect check: the text of a risky entry.\<close>

definition risky_entry :: "jstring \<Rightarrow> jsval \<Rightarrow> jstring list" where
  "risky_entry rawFrom rawTo =
     (case (parseStatusCodeKey rawFrom, parseStatusCodeMappingTarget rawTo) of
        (Some fromCode, Some toCode) \<Rightarrow>
          (if fromCode \<notin> set NON_REDIRECTABLE_STATUS_CODES then []
           else if fromCode = toCode then []
           else [show_nat fromCode @ js '' -> '' @ show_nat toCode])
      | _ \<Rightarrow> [])"

definition collectDisallowedStatusCodeRedirects :: "jstring \<Rightarrow> jstring list" where
  "collectDisallowedStatusCodeRedirects str =
     sort (js_set (concat (map (\<lambda>(rawFrom, rawTo). risky_entry rawFrom rawTo) (mapping_entries str))))"

definition collectNewDisallowedStatusCodeRedirects :: "jstring \<Rightarrow> jstring \<Rightarrow> jstring list" where
  "collectNewDisallowedStatusCodeRedirects originalStr currentStr =
     (let currentRisky = collectDisallowedStatusCodeRedirects currentStr
      in if currentRisky = [] then []
         else let originalRiskySet = js_set (collectDisallowedStatusCodeRedirects originalStr)
              in filter (\<lambda>mapping. mapping \<notin> set originalRiskySet) currentRisky)"

lemmas [js_eval] = isNumber_def isValidCode_def parseToken_def rule_segments_def three_digit_code_def
  parseStatusCodeKey_def mapping_entries_def

section \<open>Coverage and normal form of ranges\<close>

definition covered :: "status_code_range list \<Rightarrow> nat set" where
  "covered rs = (\<Union>r \<in> set rs. {range_start r .. range_end r})"

definition wf_range :: "status_code_range \<Rightarrow> bool" where
  "wf_range r \<longleftrightarrow> isValidCode (range_start r) \<and> isValidCode (range_end r) \<and> range_start r \<le> range_end r"

text \<open>Normal form: proper ranges in ascending order with a gap between neighbours.\<close>

fun normal_ranges :: "status_code_range list \<Rightarrow> bool" where
  "normal_ranges [] = True"
| "normal_ranges [r] = (range_start r \<le> range_end r)"
| "normal_ranges (r # r' # rs) =
     (range_start r \<le> range_end r \<and> range_end r + 1 < range_start r' \<and> normal_ranges (r' # rs))"

lemma covered_simps [simp]:
  "covered [] = {}" "covered (r # rs) = {range_start r .. range_end r} \<union> covered rs"
  "covered (rs @ rs') = covered rs \<union> covered rs'"
  by (auto simp: covered_def)

lemma normal_ranges_Cons:
  "normal_ranges (r # rs) \<longleftrightarrow> range_start r \<le> range_end r \<and>
     (rs = [] \<or> range_end r + 1 < range_start (hd rs)) \<and> normal_ranges rs"
  by (cases rs) auto

lemma normal_ranges_mem: "normal_ranges rs \<Longrightarrow> r \<in> set rs \<Longrightarrow> range_start r \<le> range_end r"
  by (induction rs) (auto simp: normal_ranges_Cons)

lemma normal_ranges_snoc:
  "normal_ranges (rs @ [r]) \<longleftrightarrow> normal_ranges rs \<and> range_start r \<le> range_end r \<and>
     (rs = [] \<or> range_end (last rs) + 1 < range_start r)"
  by (induction rs rule: normal_ranges.induct) auto

lemma normal_ranges_covered_gt:
  "normal_ranges (r # rs) \<Longrightarrow> c \<in> covered rs \<Longrightarrow> range_end r + 1 < c"
proof (induction rs arbitrary: r)
  case (Cons r' rs)
  have h: "range_end r + 1 < range_start r'" "range_start r' \<le> range_end r'" "normal_ranges (r' # rs)"
    using Cons.prems(1) by (simp_all add: normal_ranges_Cons)
  with Cons.IH [OF h(3)] Cons.prems(2) show ?case by auto
qed simp

text \<open>The normal form is determined by the codes it covers.\<close>

lemma normal_ranges_first:
  assumes "normal_ranges (r # rs)"
  shows "range_start r \<in> covered (r # rs)" "\<forall>c \<in> covered (r # rs). range_start r \<le> c"
    "{range_start r .. range_end r} \<subseteq> covered (r # rs)" "Suc (range_end r) \<notin> covered (r # rs)"
  using assms normal_ranges_covered_gt [OF assms] by (fastforce simp: normal_ranges_Cons)+

lemma normal_ranges_unique:
  "normal_ranges rs \<Longrightarrow> normal_ranges rs' \<Longrightarrow> covered rs = covered rs' \<Longrightarrow> rs = rs'"
proof (induction rs arbitrary: rs')
  case Nil
  then show ?case by (cases rs') (auto simp: normal_ranges_Cons)
next
  case (Cons r rs)
  then obtain q qs where q: "rs' = q # qs" by (cases rs') (auto simp: normal_ranges_Cons)
  note f = normal_ranges_first [OF Cons.prems(1)] and g = normal_ranges_first [OF Cons.prems(2) [unfolded q]]
  have s: "range_start r = range_start q"
    using f(1,2) g(1,2) Cons.prems(3) q by (metis le_antisym)
  have "\<not> range_end r < range_end q"
  proof
    assume "range_end r < range_end q"
    then have "Suc (range_end r) \<in> {range_start q .. range_end q}"
      using s Cons.prems(1) by (simp add: normal_ranges_Cons)
    with f(4) g(3) Cons.prems(3) q show False by blast
  qed
  moreover have "\<not> range_end q < range_end r"
  proof
    assume "range_end q < range_end r"
    then have "Suc (range_end q) \<in> {range_start r .. range_end r}"
      using s Cons.prems(2) q by (simp add: normal_ranges_Cons)
    with f(3) g(4) Cons.prems(3) q show False by blast
  qed
  ultimately have rq: "r = q" using s by simp
  have "covered rs = covered (r # rs) - {range_start r .. range_end r}"
    using normal_ranges_covered_gt [OF Cons.prems(1)] by fastforce
  also have "\<dots> = covered qs"
    using normal_ranges_covered_gt [OF Cons.prems(2) [unfolded q]] Cons.prems(3) q rq by fastforce
  finally have "rs = qs"
    using Cons.IH [of qs] Cons.prems(1,2) q by (simp add: normal_ranges_Cons)
  with rq q show ?case by simp
qed

section \<open>Merging computes the normal form\<close>

text \<open>The loop invariant, with the ranges still to come starting no earlier than the last merged.\<close>

definition merge_inv :: "status_code_range list \<Rightarrow> status_code_range list \<Rightarrow> bool" where
  "merge_inv merged todo \<longleftrightarrow> normal_ranges merged \<and>
     (\<forall>r \<in> set todo. range_start r \<le> range_end r \<and> (merged \<noteq> [] \<longrightarrow> range_start (last merged) \<le> range_start r))"

lemma merge_step_covered:
  assumes "range_start r \<le> range_end r" "merged \<noteq> [] \<longrightarrow> range_start (last merged) \<le> range_start r"
    "normal_ranges merged"
  shows "covered (merge_step merged r) = covered merged \<union> {range_start r .. range_end r}"
proof (cases "merged = []")
  case False
  then obtain ms m where m: "merged = ms @ [m]" by (metis append_butlast_last_id)
  with assms show ?thesis
    by (auto simp: merge_step_def normal_ranges_snoc)
qed (simp add: merge_step_def)

lemma merge_step_inv:
  assumes "merge_inv merged (r # todo)" "sorted (map range_start (r # todo))"
  shows "merge_inv (merge_step merged r) todo"
proof (cases "merged = []")
  case False
  then obtain ms m where m: "merged = ms @ [m]" by (metis append_butlast_last_id)
  have t: "\<forall>x \<in> set todo. range_start r \<le> range_start x \<and> range_start x \<le> range_end x"
    using assms by (simp add: merge_inv_def)
  have h: "normal_ranges (ms @ [m])" "range_start m \<le> range_start r" "range_start r \<le> range_end r"
    using assms(1) m by (simp_all add: merge_inv_def)
  show ?thesis
  proof (cases "range_end m + 1 < range_start r")
    case True
    with h t normal_ranges_snoc [of "ms @ [m]" r] show ?thesis
      by (simp add: m merge_inv_def merge_step_def)
  next
    case False
    with h t show ?thesis by (auto simp: m merge_inv_def merge_step_def normal_ranges_snoc)
  qed
qed (use assms in \<open>auto simp: merge_inv_def merge_step_def\<close>)

lemma foldl_merge_step:
  assumes "merge_inv merged todo" "sorted (map range_start todo)"
  shows "normal_ranges (foldl merge_step merged todo) \<and>
    covered (foldl merge_step merged todo) = covered merged \<union> covered todo"
  using assms
proof (induction todo arbitrary: merged)
  case (Cons r todo)
  have "covered (merge_step merged r) = covered merged \<union> {range_start r .. range_end r}"
    using Cons.prems(1) by (intro merge_step_covered) (auto simp: merge_inv_def)
  with Cons.IH [OF merge_step_inv [OF Cons.prems]] Cons.prems(2) show ?case by auto
qed (simp add: merge_inv_def)

lemma sorted_fst_sort: "sorted (map range_start (sort_key (\<lambda>r. (range_start r, range_end r)) rs))"
proof -
  have "sorted (map (\<lambda>r. (range_start r, range_end r)) (sort_key (\<lambda>r. (range_start r, range_end r)) rs))"
    by simp
  then show ?thesis
    by (auto simp: sorted_iff_nth_mono less_eq_prod_def) (meson le_less)
qed

lemma mergeRanges_normal:
  assumes "\<forall>r \<in> set rs. range_start r \<le> range_end r"
  shows "normal_ranges (mergeRanges rs) \<and> covered (mergeRanges rs) = covered rs"
proof -
  let ?s = "sort_key (\<lambda>r. (range_start r, range_end r)) rs"
  have "merge_inv [] ?s" using assms by (simp add: merge_inv_def)
  from foldl_merge_step [OF this sorted_fst_sort] have
    "normal_ranges (foldl merge_step [] ?s) \<and> covered (foldl merge_step [] ?s) = covered ?s" by simp
  moreover have "covered ?s = covered rs" by (simp add: covered_def)
  ultimately show ?thesis by (auto simp: mergeRanges_def)
qed

lemma mergeRanges_normal_id:
  assumes "normal_ranges rs"
  shows "mergeRanges rs = rs"
proof (rule normal_ranges_unique [OF _ assms])
  have w: "\<forall>r \<in> set rs. range_start r \<le> range_end r"
    using assms by (induction rs) (auto simp: normal_ranges_Cons)
  from mergeRanges_normal [OF w]
  show "normal_ranges (mergeRanges rs)" "covered (mergeRanges rs) = covered rs" by simp_all
qed


section \<open>Tokens\<close>

lemma parseToken_wf: "parseToken t = Some r \<Longrightarrow> wf_range r"
  by (auto simp: parseToken_def wf_range_def Let_def split: if_splits)

lemma range_token_chars: "c \<in> set (range_token r) \<Longrightarrow> is_digit c \<or> c = 45"
  using show_nat_digits by (fastforce simp: range_token_def split: if_splits)

lemma range_token_no_ws: "\<forall>c \<in> set (range_token r). \<not> is_ws c"
  using range_token_chars digit_not_ws by (fastforce simp: is_ws_def)

lemma range_token_not_Nil [simp]: "range_token r \<noteq> []"
  by (simp add: range_token_def)

lemma isNumber_show_nat [simp]: "isNumber (show_nat n)"
  using show_nat_digits by (simp add: isNumber_def list_all_iff)

lemma dash_not_in_show_nat: "45 \<notin> set (show_nat n)"
  using show_nat_digits [of n] by (auto simp: is_digit_def)

lemma js_includes_dash: "js_includes s (js ''-'') \<longleftrightarrow> 45 \<in> set s"
  by (auto simp: js_includes_iff js_Cons in_set_conv_decomp)

lemma parseToken_range_token: "wf_range r \<Longrightarrow> parseToken (range_token r) = Some r"
proof -
  assume r: "wf_range r"
  have cl: "filter (\<lambda>c. \<not> is_ws c) (js_trim (range_token r)) = range_token r"
    using range_token_no_ws [of r] by (simp add: js_trim_no_ws)
  show ?thesis
  proof (cases "range_start r = range_end r")
    case True
    then show ?thesis
      using r cl dash_not_in_show_nat
      by (simp add: parseToken_def js_includes_dash Let_def wf_range_def range_token_def)
  next
    case False
    then have t: "range_token r = show_nat (range_start r) @ 45 # show_nat (range_end r)"
      by (simp add: range_token_def)
    have "js_split 45 (range_token r) = [show_nat (range_start r), show_nat (range_end r)]"
      by (simp add: t js_split_append_sep js_split_no_sep dash_not_in_show_nat)
    then show ?thesis
      using r cl by (simp add: parseToken_def js_includes_dash Let_def wf_range_def t)
  qed
qed

lemma parse_segments_eq:
  "parse_segments segs rs bad =
     (rs @ List.map_filter parseToken segs, bad @ filter (\<lambda>s. parseToken s = None) segs)"
  by (induction segs arbitrary: rs bad) (auto simp: map_filter_simps split: option.splits)

lemma set_map_filter: "set (List.map_filter f xs) = {y. \<exists>x \<in> set xs. f x = Some y}"
  by (induction xs) (auto simp: map_filter_simps split: option.splits)

lemma covered_map_filter:
  "c \<in> covered (List.map_filter parseToken segs) \<longleftrightarrow>
     (\<exists>s \<in> set segs. \<exists>r. parseToken s = Some r \<and> range_start r \<le> c \<and> c \<le> range_end r)"
  by (auto simp: covered_def set_map_filter)

lemma normal_ranges_merged:
  "normal_ranges (mergeRanges (List.map_filter parseToken segs)) \<and>
   covered (mergeRanges (List.map_filter parseToken segs)) = covered (List.map_filter parseToken segs)"
  by (rule mergeRanges_normal) (auto simp: set_map_filter wf_range_def dest: parseToken_wf)

lemma rule_segments_Nil [simp]: "rule_segments [] = []"
  by (simp add: rule_segments_def)

lemma mergeRanges_Nil [simp]: "mergeRanges [] = []"
  by (simp add: mergeRanges_def)

text \<open>Without the early return for blank texts, which gives the same record.\<close>

lemma parseHttpStatusCodeRules_eq:
  "parseHttpStatusCodeRules v =
     (let raw = js_trim (nullish_to_string v); segs = rule_segments raw;
          bad = filter (\<lambda>s. parseToken s = None) segs;
          merged = mergeRanges (List.map_filter parseToken segs)
      in if bad \<noteq> [] then
           \<lparr>rules_ok = False, rules_ranges = [], rules_tokens = [], rules_normalized = raw,
            rules_invalidTokens = bad\<rparr>
         else \<lparr>rules_ok = True, rules_ranges = merged, rules_tokens = map range_token merged,
               rules_normalized = js_join [44] (map range_token merged), rules_invalidTokens = []\<rparr>)"
  by (simp add: parseHttpStatusCodeRules_def parse_segments_eq Let_def map_filter_simps)

lemma merged_valid:
  assumes "r \<in> set (mergeRanges (List.map_filter parseToken segs))"
  shows "wf_range r"
proof -
  let ?m = "mergeRanges (List.map_filter parseToken segs)"
  have n: "normal_ranges ?m" "covered ?m = covered (List.map_filter parseToken segs)"
    using normal_ranges_merged by simp_all
  have le: "range_start r \<le> range_end r"
    using n(1) assms by (rule normal_ranges_mem)
  have "range_start r \<in> covered ?m" "range_end r \<in> covered ?m"
    using assms le by (auto simp: covered_def)
  moreover have "isValidCode c" if "c \<in> covered ?m" for c
    using that unfolding n(2) covered_map_filter
    by (auto simp: wf_range_def isValidCode_def dest!: parseToken_wf)
  ultimately show ?thesis using le by (simp add: wf_range_def)
qed

lemma rule_segments_tokens:
  assumes "rs \<noteq> []"
  shows "rule_segments (js_join [44] (map range_token rs)) = map range_token rs"
proof -
  let ?t = "js_join [44] (map range_token rs)"
  have c: "\<forall>p \<in> set (map range_token rs). 44 \<notin> set p \<and> 65292 \<notin> set p"
    using range_token_chars by (fastforce simp: is_digit_def)
  have "65292 \<notin> set ?t"
    using c set_js_join [of "[44]" "map range_token rs"] by auto
  then have "map (\<lambda>c. if c = 65292 then 44 else c) ?t = ?t" by (intro map_idI) auto
  moreover have "js_split 44 ?t = map range_token rs"
    using assms c by (intro js_split_join) auto
  moreover have "map js_trim (map range_token rs) = map range_token rs"
    using range_token_no_ws by (intro map_idI) (auto simp: js_trim_no_ws)
  ultimately show ?thesis by (simp add: rule_segments_def filter_id_conv)
qed

lemma map_filter_range_tokens:
  "\<forall>r \<in> set rs. wf_range r \<Longrightarrow> List.map_filter parseToken (map range_token rs) = rs"
  by (induction rs) (auto simp: map_filter_simps parseToken_range_token)

lemma js_join_no_ws: "\<forall>p \<in> set ps. \<forall>c \<in> set p. \<not> is_ws c \<Longrightarrow> \<forall>c \<in> set (js_join [44] ps). \<not> is_ws c"
  using set_js_join [of "[44]" ps] not_ws_punct by fastforce

lemma normalized_reparse:
  assumes "normal_ranges rs" "\<forall>r \<in> set rs. wf_range r"
  shows "parseHttpStatusCodeRules (JStr (js_join [44] (map range_token rs))) =
    \<lparr>rules_ok = True, rules_ranges = rs, rules_tokens = map range_token rs,
     rules_normalized = js_join [44] (map range_token rs), rules_invalidTokens = []\<rparr>"
proof -
  let ?t = "js_join [44] (map range_token rs)"
  have t: "js_trim (nullish_to_string (JStr ?t)) = ?t"
    using range_token_no_ws js_join_no_ws [of "map range_token rs"]
    by (auto simp: nullish_to_string_def intro!: js_trim_no_ws)
  have s: "rule_segments ?t = map range_token rs"
    by (cases "rs = []") (simp_all add: rule_segments_tokens)
  have "filter (\<lambda>s. parseToken s = None) (map range_token rs) = []"
    using assms(2) by (auto simp: filter_empty_conv parseToken_range_token)
  with assms show ?thesis
    by (simp add: parseHttpStatusCodeRules_eq t s Let_def map_filter_range_tokens mergeRanges_normal_id)
qed

section \<open>Properties of the rule texts\<close>

lemma rules_ok_ranges:
  assumes "rules_ok (parseHttpStatusCodeRules v)"
  shows "normal_ranges (rules_ranges (parseHttpStatusCodeRules v))"
    "\<forall>r \<in> set (rules_ranges (parseHttpStatusCodeRules v)). wf_range r"
    "rules_normalized (parseHttpStatusCodeRules v) =
       js_join [44] (map range_token (rules_ranges (parseHttpStatusCodeRules v)))"
    "parseHttpStatusCodeRules v =
       \<lparr>rules_ok = True, rules_ranges = rules_ranges (parseHttpStatusCodeRules v),
        rules_tokens = map range_token (rules_ranges (parseHttpStatusCodeRules v)),
        rules_normalized = js_join [44] (map range_token (rules_ranges (parseHttpStatusCodeRules v))),
        rules_invalidTokens = []\<rparr>"
proof -
  define m where "m = mergeRanges (List.map_filter parseToken (rule_segments (js_trim (nullish_to_string v))))"
  have e: "parseHttpStatusCodeRules v = \<lparr>rules_ok = True, rules_ranges = m,
      rules_tokens = map range_token m, rules_normalized = js_join [44] (map range_token m),
      rules_invalidTokens = []\<rparr>"
    using assms by (simp add: parseHttpStatusCodeRules_eq Let_def m_def split: if_splits)
  show "normal_ranges (rules_ranges (parseHttpStatusCodeRules v))"
    using normal_ranges_merged by (simp add: e m_def)
  show "\<forall>r \<in> set (rules_ranges (parseHttpStatusCodeRules v)). wf_range r"
    using merged_valid by (simp add: e m_def)
  show "rules_normalized (parseHttpStatusCodeRules v) =
      js_join [44] (map range_token (rules_ranges (parseHttpStatusCodeRules v)))"
    by (simp add: e)
  show "parseHttpStatusCodeRules v =
      \<lparr>rules_ok = True, rules_ranges = rules_ranges (parseHttpStatusCodeRules v),
       rules_tokens = map range_token (rules_ranges (parseHttpStatusCodeRules v)),
       rules_normalized = js_join [44] (map range_token (rules_ranges (parseHttpStatusCodeRules v))),
       rules_invalidTokens = []\<rparr>"
    by (simp add: e)
qed

lemma rules_ok_iff:
  "rules_ok (parseHttpStatusCodeRules v) \<longleftrightarrow>
     filter (\<lambda>s. parseToken s = None) (rule_segments (js_trim (nullish_to_string v))) = []"
  by (simp add: parseHttpStatusCodeRules_eq Let_def)

lemma parse_rules_cong:
  "js_trim (nullish_to_string a) = js_trim (nullish_to_string b) \<Longrightarrow>
   parseHttpStatusCodeRules a = parseHttpStatusCodeRules b"
  by (simp add: parseHttpStatusCodeRules_def)

text \<open>
  The codes that a text names, read from its characters alone: between two commas, ASCII or full-width, stands a
  number or two numbers with a dash, and blanks do not count.
\<close>

definition number :: "jstring \<Rightarrow> bool" where
  "number s \<longleftrightarrow> s \<noteq> [] \<and> (\<forall>ch \<in> set s. is_digit ch)"

definition names_code :: "jstring \<Rightarrow> nat \<Rightarrow> bool" where
  "names_code s c \<longleftrightarrow> number s \<and> digits_val s = c \<and> 100 \<le> c \<and> c \<le> 599 \<or>
     (\<exists>a b rest. s = a @ 45 # b @ rest \<and> number a \<and> number b \<and> (rest = [] \<or> hd rest = 45) \<and>
        100 \<le> digits_val a \<and> digits_val a \<le> c \<and> c \<le> digits_val b \<and> digits_val b \<le> 599)"

definition rule_codes :: "jsval \<Rightarrow> nat set" where
  "rule_codes v = {c. \<exists>piece \<in> set (js_split 44 (map (\<lambda>ch. if ch = 65292 then 44 else ch) (js_trim (nullish_to_string v)))).
     names_code (filter (\<lambda>ch. \<not> is_ws ch) piece) c}"

lemma number_isNumber: "number s \<longleftrightarrow> isNumber s"
  by (simp add: number_def isNumber_def list_all_iff)

lemma dash_no_number: "number s \<Longrightarrow> 45 \<notin> set s"
  by (auto simp: number_def is_digit_def)

lemma filter_trim: "filter (\<lambda>ch. \<not> is_ws ch) (js_trim s) = filter (\<lambda>ch. \<not> is_ws ch) s"
proof -
  have d: "filter (\<lambda>ch. \<not> is_ws ch) (dropWhile is_ws t) = filter (\<lambda>ch. \<not> is_ws ch) t" for t by (induction t) simp_all
  show ?thesis by (simp add: trim_defs d rev_filter [symmetric])
qed

lemma js_split_parts:
  assumes "u = a @ 45 # t" "45 \<notin> set a"
  shows "js_split 45 u ! 0 = a" "js_split 45 u ! 1 = takeWhile (\<lambda>ch. ch \<noteq> 45) t"
proof -
  have h: "hd (js_split 45 t) = takeWhile (\<lambda>ch. ch \<noteq> 45) t" by (induction t) (auto split: list.split)
  then show "js_split 45 u ! 0 = a" "js_split 45 u ! 1 = takeWhile (\<lambda>ch. ch \<noteq> 45) t"
    using assms js_split_not_Nil [of 45 t] by (simp_all add: js_split_append_sep hd_conv_nth)
qed

lemma dashed_names_code:
  assumes "u = a @ 45 # t" "45 \<notin> set a" "b = takeWhile (\<lambda>ch. ch \<noteq> 45) t"
  shows "names_code u c \<longleftrightarrow> number a \<and> number b \<and> 100 \<le> digits_val a \<and> digits_val a \<le> c \<and> c \<le> digits_val b \<and> digits_val b \<le> 599"
proof
  assume "names_code u c"
  moreover have "\<not> number u" using dash_no_number [of u] assms(1) by auto
  ultimately obtain a' b' rest where p: "u = a' @ 45 # b' @ rest" "number a'" "number b'" "rest = [] \<or> hd rest = 45"
    "100 \<le> digits_val a'" "digits_val a' \<le> c" "c \<le> digits_val b'" "digits_val b' \<le> 599"
    by (auto simp: names_code_def)
  have n: "takeWhile (\<lambda>ch. ch \<noteq> 45) (x @ 45 # y) = x" if "45 \<notin> set x" for x y :: jstring
    using that by (subst takeWhile_append2) auto
  have "a' = a" using n [OF assms(2), of t] n [OF dash_no_number [OF p(2)], of "b' @ rest"] p(1) assms(1) by simp
  moreover from this have "t = b' @ rest" using p(1) assms(1) by simp
  then have "b = b'" using p(4) dash_no_number [OF p(3)] unfolding assms(3) by (cases rest) (auto simp: takeWhile_eq_all_conv n)
  ultimately show "number a \<and> number b \<and> 100 \<le> digits_val a \<and> digits_val a \<le> c \<and> c \<le> digits_val b \<and> digits_val b \<le> 599"
    using p by simp
next
  assume r: "number a \<and> number b \<and> 100 \<le> digits_val a \<and> digits_val a \<le> c \<and> c \<le> digits_val b \<and> digits_val b \<le> 599"
  let ?rest = "dropWhile (\<lambda>ch. ch \<noteq> 45) t"
  have "u = a @ 45 # b @ ?rest" using assms by simp
  moreover have "?rest = [] \<or> hd ?rest = 45" using hd_dropWhile [of "\<lambda>ch. ch \<noteq> 45" t] by blast
  ultimately show "names_code u c" unfolding names_code_def using r by blast
qed

lemma parseToken_names:
  "(\<exists>r. parseToken s = Some r \<and> range_start r \<le> c \<and> c \<le> range_end r) \<longleftrightarrow> names_code (filter (\<lambda>ch. \<not> is_ws ch) s) c"
proof -
  define u where "u = filter (\<lambda>ch. \<not> is_ws ch) s"
  show ?thesis
  proof (cases "45 \<in> set u")
    case True
    then obtain a t where u: "u = a @ 45 # t" "45 \<notin> set a" by (meson split_list_first)
    define b where "b = takeWhile (\<lambda>ch. ch \<noteq> 45) t"
    have "parseToken s = (if \<not> number a \<or> \<not> number b then None
        else if \<not> isValidCode (digits_val a) \<or> \<not> isValidCode (digits_val b) \<or> digits_val a > digits_val b then None
        else Some \<lparr>range_start = digits_val a, range_end = digits_val b\<rparr>)"
      using True js_split_parts [OF u] by (simp add: parseToken_def filter_trim js_includes_dash number_isNumber Let_def b_def flip: u_def) (use u(1) in auto)
    then show ?thesis unfolding u_def [symmetric] dashed_names_code [OF u b_def] by (auto simp: isValidCode_def)
  next
    case False
    then have "names_code u c \<longleftrightarrow> number u \<and> digits_val u = c \<and> 100 \<le> c \<and> c \<le> 599" by (auto simp: names_code_def)
    moreover have "parseToken s = (if number u \<and> isValidCode (digits_val u) then Some \<lparr>range_start = digits_val u, range_end = digits_val u\<rparr> else None)"
      using False by (auto simp: parseToken_def filter_trim js_includes_dash number_isNumber isNumber_def Let_def simp flip: u_def)
    ultimately show ?thesis unfolding u_def [symmetric] by (auto simp: isValidCode_def)
  qed
qed

lemma names_code_Nil [simp]: "\<not> names_code [] c"
  by (simp add: names_code_def number_def)

lemma rule_codes_segments:
  "c \<in> rule_codes v \<longleftrightarrow> (\<exists>s \<in> set (rule_segments (js_trim (nullish_to_string v))). names_code (filter (\<lambda>ch. \<not> is_ws ch) s) c)"
proof -
  let ?ps = "js_split 44 (map (\<lambda>ch. if ch = 65292 then 44 else ch) (js_trim (nullish_to_string v)))"
  have blank: "js_trim p \<noteq> []" if "names_code (filter (\<lambda>ch. \<not> is_ws ch) p) c" for p
    using that filter_trim [of p] by auto
  have "c \<in> rule_codes v \<longleftrightarrow> (\<exists>p \<in> set ?ps. names_code (filter (\<lambda>ch. \<not> is_ws ch) p) c)" by (simp add: rule_codes_def)
  also have "\<dots> \<longleftrightarrow> (\<exists>p \<in> set ?ps. js_trim p \<noteq> [] \<and> names_code (filter (\<lambda>ch. \<not> is_ws ch) (js_trim p)) c)"
    unfolding filter_trim using blank by blast
  also have "\<dots> \<longleftrightarrow> (\<exists>s \<in> set (rule_segments (js_trim (nullish_to_string v))). names_code (filter (\<lambda>ch. \<not> is_ws ch) s) c)"
    unfolding rule_segments_def by (simp only: set_filter set_map mem_Collect_eq) blast
  finally show ?thesis .
qed

lemma covered_rule_codes:
  assumes "rules_ok (parseHttpStatusCodeRules v)"
  shows "covered (rules_ranges (parseHttpStatusCodeRules v)) = rule_codes v"
proof -
  let ?segs = "rule_segments (js_trim (nullish_to_string v))"
  have "rules_ranges (parseHttpStatusCodeRules v) = mergeRanges (List.map_filter parseToken ?segs)"
    using assms by (auto simp: parseHttpStatusCodeRules_eq Let_def split: if_splits)
  then have "covered (rules_ranges (parseHttpStatusCodeRules v)) = covered (List.map_filter parseToken ?segs)"
    using normal_ranges_merged [of ?segs] by simp
  moreover have "c \<in> covered (List.map_filter parseToken ?segs) \<longleftrightarrow> c \<in> rule_codes v" for c
    unfolding covered_map_filter rule_codes_segments parseToken_names ..
  ultimately show ?thesis by blast
qed

text \<open>
  C30. An accepted text is stored as the normal form of the codes it names: its ranges are in ascending order with
  gaps between them and cover exactly those codes, and two accepted inputs get the same normalized text exactly when
  they name the same codes.
\<close>

theorem parseHttpStatusCodeRules_canonical:
  assumes "rules_ok (parseHttpStatusCodeRules a)" "rules_ok (parseHttpStatusCodeRules b)"
  shows "normal_ranges (rules_ranges (parseHttpStatusCodeRules a)) \<and>
    covered (rules_ranges (parseHttpStatusCodeRules a)) = rule_codes a \<and>
    (rules_normalized (parseHttpStatusCodeRules a) = rules_normalized (parseHttpStatusCodeRules b) \<longleftrightarrow> rule_codes a = rule_codes b)"
proof (intro conjI)
  show "normal_ranges (rules_ranges (parseHttpStatusCodeRules a))" by (rule rules_ok_ranges(1) [OF assms(1)])
  show "covered (rules_ranges (parseHttpStatusCodeRules a)) = rule_codes a" by (rule covered_rule_codes [OF assms(1)])
  let ?p = "\<lambda>v. rules_ranges (parseHttpStatusCodeRules (JStr (rules_normalized (parseHttpStatusCodeRules v))))"
  have p: "?p v = rules_ranges (parseHttpStatusCodeRules v)" if "rules_ok (parseHttpStatusCodeRules v)" for v
    unfolding rules_ok_ranges(3) [OF that] normalized_reparse [OF rules_ok_ranges(1,2) [OF that]] by simp
  show "rules_normalized (parseHttpStatusCodeRules a) = rules_normalized (parseHttpStatusCodeRules b) \<longleftrightarrow> rule_codes a = rule_codes b"
  proof
    assume "rules_normalized (parseHttpStatusCodeRules a) = rules_normalized (parseHttpStatusCodeRules b)"
    then show "rule_codes a = rule_codes b" using p [OF assms(1)] p [OF assms(2)] assms [THEN covered_rule_codes] by simp
  next
    assume "rule_codes a = rule_codes b"
    then have "rules_ranges (parseHttpStatusCodeRules a) = rules_ranges (parseHttpStatusCodeRules b)"
      using rules_ok_ranges(1) assms assms [THEN covered_rule_codes] by (intro normal_ranges_unique) simp_all
    then show "rules_normalized (parseHttpStatusCodeRules a) = rules_normalized (parseHttpStatusCodeRules b)"
      using rules_ok_ranges(3) assms by simp
  qed
qed

text \<open>
  Normalizing is idempotent: reading the normalized text of any input again gives the very
  same record, whether the input was accepted or not.
\<close>

theorem parseHttpStatusCodeRules_idempotent:
  "parseHttpStatusCodeRules (JStr (rules_normalized (parseHttpStatusCodeRules v))) =
   parseHttpStatusCodeRules v"
proof (cases "rules_ok (parseHttpStatusCodeRules v)")
  case True
  from normalized_reparse [OF rules_ok_ranges(1,2) [OF True]]
  show ?thesis unfolding rules_ok_ranges(3) [OF True] rules_ok_ranges(4) [OF True, symmetric] .
next
  case False
  then have "rules_normalized (parseHttpStatusCodeRules v) = js_trim (nullish_to_string v)"
    by (simp add: parseHttpStatusCodeRules_eq Let_def split: if_splits)
  then show ?thesis by (intro parse_rules_cong) (simp add: nullish_to_string_def)
qed

text \<open>
  The invalid tokens are exactly the tokens that cannot be read, in their order, and an input
  is accepted exactly when there is none.
\<close>

theorem parseHttpStatusCodeRules_invalid:
  "rules_invalidTokens (parseHttpStatusCodeRules v) =
     filter (\<lambda>s. parseToken s = None) (rule_segments (js_trim (nullish_to_string v)))
   \<and> (rules_ok (parseHttpStatusCodeRules v) \<longleftrightarrow> rules_invalidTokens (parseHttpStatusCodeRules v) = [])"
  by (simp add: parseHttpStatusCodeRules_eq Let_def)

theorem parseHttpStatusCodeRules_canonical_witness:
  "normal_ranges (rules_ranges (parseHttpStatusCodeRules (JStr (js ''401,400-400'')))) \<and>
   covered (rules_ranges (parseHttpStatusCodeRules (JStr (js ''401,400-400'')))) = rule_codes (JStr (js ''401,400-400'')) \<and>
   (rules_normalized (parseHttpStatusCodeRules (JStr (js ''401,400-400''))) = rules_normalized (parseHttpStatusCodeRules (JStr (js '' 400 - 401 '')))
     \<longleftrightarrow> rule_codes (JStr (js ''401,400-400'')) = rule_codes (JStr (js '' 400 - 401 '')))"
proof -
  have a: "rules_ok (parseHttpStatusCodeRules (JStr (js ''401,400-400'')))"
    by (simp add: rules_ok_iff js_eval)
  have b: "rules_ok (parseHttpStatusCodeRules (JStr (js '' 400 - 401 '')))"
    by (simp add: rules_ok_iff js_eval)
  show ?thesis by (rule parseHttpStatusCodeRules_canonical [OF a b])
qed

text \<open>A token with more than one dash is accepted: everything after the second part is ignored.\<close>

theorem parseToken_ignores_extra_parts:
  "parseToken (js ''400-499-zzz'') = Some \<lparr>range_start = 400, range_end = 499\<rparr>"
  by (simp add: js_eval)

section \<open>Properties of the redirect guard\<close>

lemma three_digit_code_bounds: "three_digit_code s \<Longrightarrow> 100 \<le> digits_val s \<and> digits_val s \<le> 599"
proof -
  assume t: "three_digit_code s"
  then have "length s = 3" by (simp add: three_digit_code_def)
  then obtain a b c where s: "s = [a, b, c]"
    by (auto simp: length_Suc_conv numeral_3_eq_3)
  with t show ?thesis
    by (auto simp: three_digit_code_def is_digit_def digits_val_def)
qed

lemma parseStatusCodeKey_bounds: "parseStatusCodeKey k = Some f \<Longrightarrow> 100 \<le> f \<and> f \<le> 599"
  by (auto simp: parseStatusCodeKey_def Let_def split: if_splits dest: three_digit_code_bounds)

lemma parseStatusCodeMappingTarget_int [simp]:
  "parseStatusCodeMappingTarget (JNum (num_int i)) = (if 100 \<le> i \<and> i \<le> 599 then Some (nat i) else None)"
  by (simp add: parseStatusCodeMappingTarget_def num_int_def is_integer_num_def num_between_def)

lemma parseStatusCodeMappingTarget_bounds:
  assumes "parseStatusCodeMappingTarget v = Some t"
  shows "100 \<le> t \<and> t \<le> 599"
proof (cases v)
  case (JNum x)
  with assms have "is_integer_num x"
    by (simp add: parseStatusCodeMappingTarget_def split: jsnum.splits if_splits)
  then obtain i where "x = num_int i" by (rule is_integer_numE)
  with assms JNum show ?thesis by (auto split: if_splits)
next
  case (JStr s)
  with assms show ?thesis
    by (simp add: parseStatusCodeMappingTarget_def Let_def split: if_splits)
qed (use assms in \<open>simp_all add: parseStatusCodeMappingTarget_def\<close>)

lemma arrow_text_inject:
  "show_nat f @ js '' -> '' @ show_nat t = show_nat f' @ js '' -> '' @ show_nat t' \<longleftrightarrow> f = f' \<and> t = t'"
proof
  assume e: "show_nat f @ js '' -> '' @ show_nat t = show_nat f' @ js '' -> '' @ show_nat t'"
  have s: "takeWhile is_digit (show_nat n @ js '' -> '' @ r) = show_nat n" for n r
    using show_nat_digits [of n] by (subst takeWhile_append2) (auto simp: js_Cons is_digit_def)
  have "show_nat f = show_nat f'"
    using arg_cong [OF e, of "takeWhile is_digit"] by (simp only: s)
  with e show "f = f' \<and> t = t'" by simp
qed simp

lemma risky_entry_mem:
  "m \<in> set (risky_entry k v) \<longleftrightarrow> (\<exists>f t. parseStatusCodeKey k = Some f \<and>
     parseStatusCodeMappingTarget v = Some t \<and> (f = 504 \<or> f = 524) \<and> f \<noteq> t \<and>
     m = show_nat f @ js '' -> '' @ show_nat t)"
  by (cases "parseStatusCodeKey k"; cases "parseStatusCodeMappingTarget v")
    (auto simp: risky_entry_def NON_REDIRECTABLE_STATUS_CODES_def)

text \<open>The texts and values that stand for a code from 100 to 599.\<close>

lemma show_nat_step: "1 \<le> q \<Longrightarrow> d < 10 \<Longrightarrow> show_nat (10 * q + d) = show_nat q @ [48 + d]"
  by (subst show_nat.simps) simp

lemma show_nat_three:
  assumes "1 \<le> x" "x < 10" "y < 10" "z < 10"
  shows "show_nat (100 * x + 10 * y + z) = [48 + x, 48 + y, 48 + z]"
proof -
  have "100 * x + 10 * y + z = 10 * (10 * x + y) + z" by simp
  moreover have "show_nat x = [48 + x]" using assms by (subst show_nat.simps) simp
  ultimately show ?thesis using assms show_nat_step [of "10 * x + y" z] show_nat_step [of x y] by simp
qed

lemma three_digits_sum: "n = 100 * (n div 100) + 10 * (n div 10 mod 10) + n mod (10 :: nat)"
proof -
  have "n = 10 * (n div 10) + n mod 10" "n div 10 = 10 * (n div 10 div 10) + n div 10 mod 10" by simp_all
  moreover have "n div 10 div 10 = n div 100" by (simp add: div_mult2_eq [symmetric])
  ultimately show ?thesis by linarith
qed

lemma show_three_digits:
  assumes "three_digit_code s"
  shows "show_nat (digits_val s) = s"
proof -
  have "length s = 3" using assms by (simp add: three_digit_code_def)
  then obtain a b c where s: "s = [a, b, c]" by (auto simp: length_Suc_conv numeral_3_eq_3)
  then have "48 \<le> a" "48 \<le> b" "48 \<le> c" using assms by (simp_all add: three_digit_code_def is_digit_def)
  then have "a = 48 + (a - 48)" "b = 48 + (b - 48)" "c = 48 + (c - 48)" by simp_all
  then obtain x y z where d: "a = 48 + x" "b = 48 + y" "c = 48 + z" by (meson that)
  then have b: "1 \<le> x" "x < 10" "y < 10" "z < 10" using assms by (simp_all add: s three_digit_code_def is_digit_def)
  have "digits_val s = 100 * x + 10 * y + z" by (simp add: s d digits_val_def)
  then show ?thesis using show_nat_three [OF b] by (simp add: s d)
qed

lemma three_digit_show:
  assumes "100 \<le> n" "n \<le> 599"
  shows "three_digit_code (show_nat n)"
proof -
  have b: "1 \<le> n div 100" "n div 100 < 10" "n div 10 mod 10 < 10" "n mod 10 < 10" "n div 100 \<le> 5" using assms by linarith+
  have "show_nat n = [48 + n div 100, 48 + n div 10 mod 10, 48 + n mod 10]"
    using show_nat_three [OF b(1-4)] by (simp only: three_digits_sum [of n, symmetric])
  moreover have "three_digit_code [48 + x, 48 + y, 48 + z]" if "1 \<le> x" "x \<le> 5" "y < 10" "z < 10" for x y z
    using that by (simp add: three_digit_code_def is_digit_def)
  ultimately show ?thesis using b by simp
qed

lemma three_digit_iff: "three_digit_code s \<and> digits_val s = n \<longleftrightarrow> s = show_nat n \<and> 100 \<le> n \<and> n \<le> 599"
  using show_three_digits [of s] three_digit_code_bounds [of s] three_digit_show [of n] by auto

lemma parseStatusCodeKey_iff: "parseStatusCodeKey k = Some f \<longleftrightarrow> js_trim k = show_nat f \<and> 100 \<le> f \<and> f \<le> 599"
  using three_digit_iff [of "js_trim k" f] by (auto simp: parseStatusCodeKey_def Let_def)

definition stands_for :: "jsval \<Rightarrow> nat \<Rightarrow> bool" where
  "stands_for v t \<longleftrightarrow> 100 \<le> t \<and> t \<le> 599 \<and> (v = JNum (num_int (int t)) \<or> (\<exists>s. v = JStr s \<and> js_trim s = show_nat t))"

lemma parseStatusCodeMappingTarget_iff: "parseStatusCodeMappingTarget v = Some t \<longleftrightarrow> stands_for v t"
proof (cases v)
  case (JNum x)
  show ?thesis
  proof (cases "is_integer_num x")
    case True
    then obtain i where i: "x = num_int i" by (rule is_integer_numE)
    show ?thesis unfolding JNum i parseStatusCodeMappingTarget_int by (auto simp: stands_for_def)
  next
    case False
    then have "x \<noteq> num_int (int t)" by (auto simp: num_int_def is_integer_num_def)
    then show ?thesis using JNum False by (auto simp: stands_for_def parseStatusCodeMappingTarget_def split: jsnum.splits)
  qed
next
  case (JStr s)
  then show ?thesis using three_digit_iff [of "js_trim s" t] three_digit_code_bounds [of "js_trim s"]
    by (auto simp: stands_for_def parseStatusCodeMappingTarget_def Let_def)
qed (simp_all add: stands_for_def parseStatusCodeMappingTarget_def)

text \<open>
  C31. The redirect check reports exactly the entries that map 504 or 524 to another code from 100 to 599, each as a
  text \<open>f -> t\<close>, and nothing else.  The result is sorted and free of duplicates.
\<close>

theorem collectDisallowedStatusCodeRedirects_exact:
  "(m \<in> set (collectDisallowedStatusCodeRedirects s) \<longleftrightarrow>
     (\<exists>(k, v) \<in> set (mapping_entries s). \<exists>f t. js_trim k = show_nat f \<and> (f = 504 \<or> f = 524) \<and> stands_for v t \<and> t \<noteq> f \<and>
        m = show_nat f @ js '' -> '' @ show_nat t))
   \<and> sorted (collectDisallowedStatusCodeRedirects s) \<and> distinct (collectDisallowedStatusCodeRedirects s)"
proof -
  have "m \<in> set (collectDisallowedStatusCodeRedirects s) \<longleftrightarrow> (\<exists>(k, v) \<in> set (mapping_entries s). m \<in> set (risky_entry k v))"
    by (auto simp: collectDisallowedStatusCodeRedirects_def)
  moreover have "m \<in> set (risky_entry k v) \<longleftrightarrow> (\<exists>f t. js_trim k = show_nat f \<and> (f = 504 \<or> f = 524) \<and> stands_for v t \<and> t \<noteq> f \<and>
      m = show_nat f @ js '' -> '' @ show_nat t)" for k v
  proof
    assume "m \<in> set (risky_entry k v)"
    then show "\<exists>f t. js_trim k = show_nat f \<and> (f = 504 \<or> f = 524) \<and> stands_for v t \<and> t \<noteq> f \<and> m = show_nat f @ js '' -> '' @ show_nat t"
      unfolding risky_entry_mem parseStatusCodeKey_iff parseStatusCodeMappingTarget_iff by metis
  next
    assume "\<exists>f t. js_trim k = show_nat f \<and> (f = 504 \<or> f = 524) \<and> stands_for v t \<and> t \<noteq> f \<and> m = show_nat f @ js '' -> '' @ show_nat t"
    then obtain f t where ft: "js_trim k = show_nat f" "f = 504 \<or> f = 524" "stands_for v t" "t \<noteq> f" "m = show_nat f @ js '' -> '' @ show_nat t"
      by blast
    have "100 \<le> f" "f \<le> 599" using ft(2) by auto
    then show "m \<in> set (risky_entry k v)"
      unfolding risky_entry_mem parseStatusCodeKey_iff parseStatusCodeMappingTarget_iff using ft by metis
  qed
  moreover have "sorted (collectDisallowedStatusCodeRedirects s)" "distinct (collectDisallowedStatusCodeRedirects s)"
    by (simp_all add: collectDisallowedStatusCodeRedirects_def)
  ultimately show ?thesis by (simp only: simp_thms)
qed

theorem collectDisallowedStatusCodeRedirects_exact_witness:
  "js ''504 -> 200'' \<in> set (collectDisallowedStatusCodeRedirects (js ''{\"504\":\"200\"}''))"
proof -
  have m: "(js ''504'', JStr (js ''200'')) \<in> set (mapping_entries (js ''{\"504\":\"200\"}''))"
    by (simp add: js_eval)
  have "js_trim (js ''504'') = show_nat 504" "stands_for (JStr (js ''200'')) 200" "js ''504 -> 200'' = show_nat 504 @ js '' -> '' @ show_nat 200"
    by (simp_all add: stands_for_def js_eval)
  then show ?thesis
    unfolding collectDisallowedStatusCodeRedirects_exact [THEN conjunct1] using m
    by (intro bexI [OF _ m] case_prodI exI [of _ 504] exI [of _ 200]) simp
qed

text \<open>
  Saving is blocked only for redirects that the edit introduces: the list of new redirects is
  empty exactly when every redirect of the edited mapping was in the original one already.
\<close>

theorem collectNewDisallowedStatusCodeRedirects_empty:
  "collectNewDisallowedStatusCodeRedirects original current = [] \<longleftrightarrow>
     set (collectDisallowedStatusCodeRedirects current) \<subseteq> set (collectDisallowedStatusCodeRedirects original)"
  by (auto simp: collectNewDisallowedStatusCodeRedirects_def Let_def filter_empty_conv)

text \<open>
  The validity check accepts a mapping exactly when both sides of each of its entries are
  status codes from 100 to 599.
\<close>

theorem collectInvalidStatusCodeEntries_empty:
  "collectInvalidStatusCodeEntries s = [] \<longleftrightarrow>
     (\<forall>(k, v) \<in> set (mapping_entries s). \<exists>f t. parseStatusCodeKey k = Some f \<and>
        parseStatusCodeMappingTarget v = Some t \<and> f \<in> {100..599} \<and> t \<in> {100..599})"
proof -
  have "collectInvalidStatusCodeEntries s = [] \<longleftrightarrow>
      (\<forall>(k, v) \<in> set (mapping_entries s). parseStatusCodeKey k \<noteq> None \<and> parseStatusCodeMappingTarget v \<noteq> None)"
    by (auto simp: collectInvalidStatusCodeEntries_def split: prod.splits if_splits)
  also have "\<dots> \<longleftrightarrow> (\<forall>(k, v) \<in> set (mapping_entries s). \<exists>f t. parseStatusCodeKey k = Some f \<and>
        parseStatusCodeMappingTarget v = Some t \<and> f \<in> {100..599} \<and> t \<in> {100..599})"
    by (intro ball_cong refl)
      (auto dest: parseStatusCodeKey_bounds parseStatusCodeMappingTarget_bounds)
  finally show ?thesis .
qed

theorem collectInvalidStatusCodeEntries_empty_witness:
  "collectInvalidStatusCodeEntries (js ''{\"504\":\"200\"}'') = [] \<and>
   (js ''504'', JStr (js ''200'')) \<in> set (mapping_entries (js ''{\"504\":\"200\"}'')) \<and>
   (\<exists>f t. parseStatusCodeKey (js ''504'') = Some f \<and>
      parseStatusCodeMappingTarget (JStr (js ''200'')) = Some t \<and> f \<in> {100..599} \<and> t \<in> {100..599})"
proof -
  have a: "collectInvalidStatusCodeEntries (js ''{\"504\":\"200\"}'') = []"
    by (simp add: collectInvalidStatusCodeEntries_def parseStatusCodeMappingTarget_def js_eval)
  have m: "(js ''504'', JStr (js ''200'')) \<in> set (mapping_entries (js ''{\"504\":\"200\"}''))"
    by (simp add: js_eval)
  from collectInvalidStatusCodeEntries_empty [of "js ''{\"504\":\"200\"}''"] a m show ?thesis by blast
qed

end
