(* ===== verification/Model_Mapping.thy ===== *)
theory Model_Mapping
  imports JS_Json
begin

text \<open>
  The model list of a channel and its model mapping
  (\<open>web/src/features/channels/lib/model-mapping-validation.ts\<close>): reading and printing the comma
  separated list, the sources and the targets of the mapping, the checks made before a channel is
  saved, and the sets the selection dialog shows.
\<close>

section \<open>The model list\<close>

definition parseModelsString :: "jstring \<Rightarrow> jstring list" where
  "parseModelsString modelsStr =
     (if modelsStr \<noteq> [] then filter (\<lambda>m. m \<noteq> []) (map js_trim (js_split 44 modelsStr)) else [])"

definition formatModelsArray :: "jstring list \<Rightarrow> jstring" where
  "formatModelsArray models = js_join [44] (js_set models)"

text \<open>The argument is a string at every call; the test of its type is the identity there.\<close>

definition normalizeModelName :: "jstring \<Rightarrow> jstring" where
  "normalizeModelName model = js_trim model"

section \<open>The mapping\<close>

definition extractMappingSourceModels :: "jstring \<Rightarrow> jstring list" where
  "extractMappingSourceModels modelMapping =
     (let trimmed = js_trim modelMapping
      in if trimmed = [] then []
         else case json_parse trimmed of
           None \<Rightarrow> []
         | Some parsed \<Rightarrow>
             (case obj_entries parsed of
                None \<Rightarrow> []
              | Some es \<Rightarrow> js_set (filter (\<lambda>k. k \<noteq> []) (map (\<lambda>e. js_trim (fst e)) es))))"

definition string_value :: "jsval \<Rightarrow> jstring option" where
  "string_value value = (case value of JStr s \<Rightarrow> Some (js_trim s) | _ \<Rightarrow> None)"

definition extractRedirectModels :: "jstring \<Rightarrow> jstring list" where
  "extractRedirectModels modelMapping =
     (let trimmed = js_trim modelMapping
      in if trimmed = [] then []
         else case json_parse trimmed of
           None \<Rightarrow> []
         | Some parsed \<Rightarrow>
             (case obj_entries parsed of
                None \<Rightarrow> []
              | Some es \<Rightarrow>
                  js_set (filter (\<lambda>v. v \<noteq> []) (List.map_filter (\<lambda>e. string_value (snd e)) es))))"

fun same_models :: "jstring list \<Rightarrow> jstring list \<Rightarrow> bool" where
  "same_models (c # cs) (i # is) = (if c \<noteq> i then False else same_models cs is)"
| "same_models _ _ = True"

definition hasModelConfigChanged ::
  "jstring list \<Rightarrow> jstring \<Rightarrow> jstring list \<Rightarrow> jstring \<Rightarrow> bool" where
  "hasModelConfigChanged currentModels currentModelMapping initialModels initialModelMapping =
     (if length initialModels = 0 \<and> initialModelMapping = [] then True
      else if length currentModels \<noteq> length initialModels then True
      else if \<not> same_models currentModels initialModels then True
      else js_trim currentModelMapping \<noteq> js_trim initialModelMapping)"

definition findMissingModelsInMapping :: "jstring \<Rightarrow> jstring list \<Rightarrow> jstring list" where
  "findMissingModelsInMapping modelMapping currentModels =
     (if modelMapping = [] \<or> js_trim modelMapping = [] then []
      else case json_parse modelMapping of
        None \<Rightarrow> []
      | Some parsedMapping \<Rightarrow>
          (case obj_entries parsedMapping of
             None \<Rightarrow> []
           | Some es \<Rightarrow>
               (let modelSet = js_set (map normalizeModelName currentModels)
                in js_set (filter (\<lambda>key. key \<noteq> [] \<and> key \<notin> set modelSet)
                     (map (\<lambda>e. normalizeModelName (fst e)) es)))))"

record mapping_check =
  mapping_valid :: bool
  mapping_error :: "jstring option"

definition validateModelMappingJson :: "jstring \<Rightarrow> mapping_check" where
  "validateModelMappingJson modelMapping =
     (if modelMapping = [] \<or> js_trim modelMapping = []
      then \<lparr>mapping_valid = True, mapping_error = None\<rparr>
      else case json_parse modelMapping of
        None \<Rightarrow> \<lparr>mapping_valid = False,
                 mapping_error = Some (js ''Model mapping must be valid JSON format'')\<rparr>
      | Some parsed \<Rightarrow>
          (case obj_entries parsed of
             None \<Rightarrow> \<lparr>mapping_valid = False,
                      mapping_error = Some (js ''Model mapping must be a valid JSON object'')\<rparr>
           | Some es \<Rightarrow>
               if list_ex (\<lambda>e. \<not> is_string (snd e)) es
               then \<lparr>mapping_valid = False,
                     mapping_error = Some (js ''Model mapping values must be strings'')\<rparr>
               else \<lparr>mapping_valid = True, mapping_error = None\<rparr>))"

definition findExposedTargetModels :: "jstring \<Rightarrow> jstring list \<Rightarrow> jstring list" where
  "findExposedTargetModels modelMapping currentModels =
     (let redirectModels = extractRedirectModels modelMapping
      in if length redirectModels = 0 then []
         else let normalizedModels = map normalizeModelName currentModels;
                  modelSet = js_set normalizedModels
              in filter (\<lambda>model. normalizeModelName model \<in> set modelSet) redirectModels)"

record model_sets =
  normalizedCurrentModels :: "jstring list"
  normalizedRedirectModels :: "jstring list"
  classificationSet :: "jstring list"
  redirectOnlySet :: "jstring list"

definition categorizeModelsWithRedirect :: "jstring list \<Rightarrow> jstring list \<Rightarrow> model_sets" where
  "categorizeModelsWithRedirect currentModels redirectModels =
     (let cur = js_set (filter (\<lambda>m. m \<noteq> []) (map normalizeModelName currentModels));
          red = js_set (filter (\<lambda>m. m \<noteq> []) (map normalizeModelName redirectModels))
      in \<lparr>normalizedCurrentModels = cur, normalizedRedirectModels = red,
          classificationSet = js_set (cur @ red),
          redirectOnlySet = js_set (filter (\<lambda>m. m \<notin> set cur) red)\<rparr>)"

lemmas [js_eval] = parseModelsString_def formatModelsArray_def normalizeModelName_def
  extractMappingSourceModels_def string_value_def extractRedirectModels_def
  findMissingModelsInMapping_def validateModelMappingJson_def findExposedTargetModels_def
  map_filter_simps

section \<open>Properties of the model list\<close>

lemma parseModelsString_mem:
  "m \<in> set (parseModelsString s) \<longleftrightarrow> m \<noteq> [] \<and> (\<exists>p \<in> set (js_split 44 s). m = js_trim p)"
  by (auto simp: parseModelsString_def)

lemma parseModelsString_pieces:
  "m \<in> set (parseModelsString s) \<Longrightarrow> m \<noteq> [] \<and> trimmed m \<and> 44 \<notin> set m"
  by (auto simp: parseModelsString_mem dest: js_split_pieces set_js_trim [THEN subsetD])

lemma js_set_filter_subset: "set (js_set (filter P xs)) \<subseteq> set xs"
  by auto

lemma parseModelsString_join:
  assumes "\<And>m. m \<in> set ms \<Longrightarrow> m \<noteq> [] \<and> trimmed m \<and> 44 \<notin> set m"
  shows "parseModelsString (js_join [44] ms) = ms"
proof (cases "ms = []")
  case False
  have sp: "js_split 44 (js_join [44] ms) = ms"
    using False assms by (intro js_split_join) auto
  have mp: "map js_trim ms = ms"
    using assms by (intro map_idI trimmed_id) blast
  have fl: "filter (\<lambda>m. m \<noteq> []) ms = ms"
    using assms by (intro filter_True) blast
  have "js_join [44] ms \<noteq> []"
    using sp False assms by (cases "js_join [44] ms = []") auto
  then show ?thesis by (simp add: parseModelsString_def sp mp fl)
qed (simp add: parseModelsString_def)

text \<open>
  The list a channel stores is a normal form: writing the models read from a text and reading
  them again gives exactly those models, each of them once, in the order of their first occurrence.
\<close>

theorem parseModelsString_formatModelsArray:
  "parseModelsString (formatModelsArray (parseModelsString s)) = js_set (parseModelsString s)"
  unfolding formatModelsArray_def
  by (rule parseModelsString_join) (use parseModelsString_pieces in auto)

section \<open>Properties of the mapping checks\<close>

text \<open>The entries of a mapping text that is a JSON object, as every check reads them.\<close>

definition parsed_mapping :: "jstring \<Rightarrow> (jstring \<times> jsval) list" where
  "parsed_mapping s = (case json_parse s of None \<Rightarrow> []
     | Some v \<Rightarrow> (case obj_entries v of None \<Rightarrow> [] | Some es \<Rightarrow> es))"

lemma findMissing_eq:
  "findMissingModelsInMapping s ms =
     js_set (filter (\<lambda>k. k \<noteq> [] \<and> k \<notin> js_trim ` set ms) (map (\<lambda>e. js_trim (fst e)) (parsed_mapping s)))"
proof -
  have *: "set (js_set (map normalizeModelName ms)) = js_trim ` set ms"
    by (simp add: normalizeModelName_def)
  show ?thesis
    unfolding findMissingModelsInMapping_def parsed_mapping_def Let_def *
    by (auto simp: normalizeModelName_def json_parse_blank split: option.splits)
qed

lemma findMissing_set:
  "set (findMissingModelsInMapping s ms) =
     {m \<in> (js_trim \<circ> fst) ` set (parsed_mapping s). m \<noteq> [] \<and> m \<notin> js_trim ` set ms}"
  by (auto simp: findMissing_eq)

text \<open>
  The missing models are exactly the non-empty source names of the mapping that the list does
  not have; adding them to the list leaves nothing missing, so the repair the dialog offers is
  complete.
\<close>

theorem findMissingModelsInMapping_complete:
  "set (findMissingModelsInMapping s ms) =
     {m \<in> (js_trim \<circ> fst) ` set (parsed_mapping s). m \<noteq> [] \<and> m \<notin> js_trim ` set ms} \<and>
   distinct (findMissingModelsInMapping s ms) \<and>
   findMissingModelsInMapping s (ms @ findMissingModelsInMapping s ms) = []"
proof (intro conjI)
  show "distinct (findMissingModelsInMapping s ms)" by (simp add: findMissing_eq)
  have "js_trim m = m" if "m \<in> set (findMissingModelsInMapping s ms)" for m
    using that by (auto simp: findMissing_set)
  then have "set (findMissingModelsInMapping s ms)
      \<subseteq> js_trim ` set (ms @ findMissingModelsInMapping s ms)"
    by (metis (no_types) UnCI image_eqI set_append subsetI)
  then have "set (findMissingModelsInMapping s (ms @ findMissingModelsInMapping s ms)) = {}"
    unfolding findMissing_set by auto
  then show "findMissingModelsInMapping s (ms @ findMissingModelsInMapping s ms) = []" by simp
qed (rule findMissing_set)

lemma validate_valid_iff:
  "mapping_valid (validateModelMappingJson s) \<longleftrightarrow> js_trim s = [] \<or>
     (\<exists>es. json_parse s = Some (JObj es) \<and> (\<forall>e \<in> set es. is_string (snd e)))"
proof (cases "js_trim s = []")
  case False
  then have "s \<noteq> []" by auto
  with False show ?thesis
    by (cases "json_parse s")
      (auto simp: validateModelMappingJson_def obj_entries_def list_ex_iff split: jsval.splits)
qed (simp add: validateModelMappingJson_def)

text \<open>
  C32. The mapping check accepts exactly the blank texts and the JSON objects all of whose values
  are strings, and it gives an error message exactly when it rejects.
\<close>

theorem validateModelMappingJson_correct:
  "(mapping_valid (validateModelMappingJson s) \<longleftrightarrow> js_trim s = [] \<or>
     (\<exists>es. json_parse s = Some (JObj es) \<and> list_all (is_string \<circ> snd) es)) \<and>
   (mapping_valid (validateModelMappingJson s) \<longleftrightarrow> mapping_error (validateModelMappingJson s) = None)"
proof (rule conjI)
  show "mapping_valid (validateModelMappingJson s) \<longleftrightarrow> mapping_error (validateModelMappingJson s) = None"
    by (simp add: validateModelMappingJson_def split: option.splits)
qed (simp add: validate_valid_iff list_all_iff)

lemma extractRedirect_trimmed:
  "m \<in> set (extractRedirectModels s) \<Longrightarrow> m \<noteq> [] \<and> js_trim m = m"
  by (auto simp: extractRedirectModels_def Let_def map_filter_def string_value_def
      split: option.splits if_splits jsval.splits)

lemma exposed_eq:
  "findExposedTargetModels s ms = filter (\<lambda>m. m \<in> js_trim ` set ms) (extractRedirectModels s)"
  using extractRedirect_trimmed [of _ s]
  by (auto simp: findExposedTargetModels_def normalizeModelName_def Let_def intro!: filter_cong)

text \<open>
  The exposed targets are the redirect targets that the list also has.  Removing them from the
  list, under whatever blanks they are written with, leaves no target exposed.
\<close>

theorem findExposedTargetModels_removal:
  "set (findExposedTargetModels s ms) = set (extractRedirectModels s) \<inter> js_trim ` set ms \<and>
   findExposedTargetModels s
     (filter (\<lambda>m. normalizeModelName m \<notin> set (findExposedTargetModels s ms)) ms) = []"
  by (auto simp: exposed_eq normalizeModelName_def filter_empty_conv)

text \<open>
  The sets shown by the dialog fit together: the classification is the disjoint union of the
  current models and of the models that occur as redirect targets only.
\<close>

theorem categorizeModelsWithRedirect_partition:
  "let c = categorizeModelsWithRedirect cur red in
     set (classificationSet c) = set (normalizedCurrentModels c) \<union> set (redirectOnlySet c) \<and>
     set (normalizedCurrentModels c) \<inter> set (redirectOnlySet c) = {} \<and>
     set (redirectOnlySet c) \<subseteq> set (normalizedRedirectModels c) \<and>
     distinct (classificationSet c) \<and> [] \<notin> set (classificationSet c)"
  by (auto simp: categorizeModelsWithRedirect_def Let_def)

lemma same_models_iff: "length xs = length ys \<Longrightarrow> same_models xs ys \<longleftrightarrow> xs = ys"
  by (induction xs ys rule: same_models.induct) auto

text \<open>
  An edit counts as unchanged exactly when the channel existed, its list is the same list and
  its mapping text is the same up to surrounding blanks.
\<close>

theorem hasModelConfigChanged_iff:
  "\<not> hasModelConfigChanged ms mp ms' mp' \<longleftrightarrow>
     (ms', mp') \<noteq> ([], []) \<and> ms = ms' \<and> js_trim mp = js_trim mp'"
  by (auto simp: hasModelConfigChanged_def same_models_iff)

end
