(* ===== verification/Auth_Store.thy ===== *)
theory Auth_Store
  imports JS_Json
begin

text \<open>
  The authentication store (\<open>web/src/stores/auth-store.ts\<close>) and the type guards that decide which
  server answers may enter it (the first part of \<open>web/src/lib/auth-session.ts\<close>).

  A user is kept as the server sent it, a record of which only the guarded fields are relied upon;
  a session and a bundle are records with the source's fields.
\<close>

section \<open>Data of the store\<close>

type_synonym auth_user = jsval

record login_session =
  sid :: jstring
  current :: bool
  login_method :: jstring
  ip :: jstring
  user_agent :: jstring
  created_at :: jsnum
  last_active_at :: jsnum
  expires_at :: jsnum

record auth_bundle =
  access_token :: jstring
  token_type :: jstring
  access_expires_at :: jsnum
  bundle_user :: auth_user
  bundle_session :: login_session

datatype AuthBootstrapState = Idle | Checking | Complete

record auth_state =
  user :: "auth_user option"
  accessToken :: "jstring option"
  accessExpiresAt :: "jsnum option"
  session :: "login_session option"
  pending2FAFlowToken :: "jstring option"
  bootstrapState :: AuthBootstrapState

definition initial_auth :: auth_state where
  "initial_auth = \<lparr>user = None, accessToken = None, accessExpiresAt = None, session = None,
     pending2FAFlowToken = None, bootstrapState = Idle\<rparr>"

definition setBundle :: "auth_bundle \<Rightarrow> auth_state \<Rightarrow> auth_state" where
  "setBundle bundle a = a\<lparr>user := Some (bundle_user bundle),
     accessToken := Some (access_token bundle),
     accessExpiresAt := Some (access_expires_at bundle),
     session := Some (bundle_session bundle),
     pending2FAFlowToken := None,
     bootstrapState := Complete\<rparr>"

definition setUser :: "auth_user option \<Rightarrow> auth_state \<Rightarrow> auth_state" where
  "setUser u a = a\<lparr>user := u\<rparr>"

definition setPending2FAFlowToken :: "jstring option \<Rightarrow> auth_state \<Rightarrow> auth_state" where
  "setPending2FAFlowToken t a = a\<lparr>pending2FAFlowToken := t\<rparr>"

definition setBootstrapState :: "AuthBootstrapState \<Rightarrow> auth_state \<Rightarrow> auth_state" where
  "setBootstrapState b a = a\<lparr>bootstrapState := b\<rparr>"

definition reset_auth :: "AuthBootstrapState \<Rightarrow> auth_state \<Rightarrow> auth_state" where
  "reset_auth b a = a\<lparr>user := None, accessToken := None, accessExpiresAt := None, session := None,
     pending2FAFlowToken := None, bootstrapState := b\<rparr>"

text \<open>\<open>auth.session?.sid\<close>\<close>

definition session_sid :: "auth_state \<Rightarrow> jstring option" where
  "session_sid a = map_option sid (session a)"

section \<open>Type guards\<close>

definition isRecord :: "jsval \<Rightarrow> bool" where
  "isRecord value \<longleftrightarrow> truthy value \<and> is_object value"

definition isAuthUser :: "jsval \<Rightarrow> bool" where
  "isAuthUser value =
     (if \<not> isRecord value then False
      else (case get_prop value (js ''id'') of JNum n \<Rightarrow> is_integer_num n \<and> num_gt0 n | _ \<Rightarrow> False) \<and>
           is_string (get_prop value (js ''username'')) \<and>
           is_number (get_prop value (js ''role'')))"

definition nonempty_string :: "jsval \<Rightarrow> bool" where
  "nonempty_string v = (case v of JStr s \<Rightarrow> 0 < length s | _ \<Rightarrow> False)"

definition isLoginSession :: "jsval \<Rightarrow> bool" where
  "isLoginSession value =
     (if \<not> isRecord value then False
      else nonempty_string (get_prop value (js ''sid'')) \<and>
           is_boolean (get_prop value (js ''current'')) \<and>
           is_string (get_prop value (js ''login_method'')) \<and>
           is_string (get_prop value (js ''ip'')) \<and>
           is_string (get_prop value (js ''user_agent'')) \<and>
           is_number (get_prop value (js ''created_at'')) \<and>
           is_number (get_prop value (js ''last_active_at'')) \<and>
           is_number (get_prop value (js ''expires_at'')))"

definition positive_finite :: "jsval \<Rightarrow> bool" where
  "positive_finite v = (case v of JNum n \<Rightarrow> is_finite_num n \<and> num_gt0 n | _ \<Rightarrow> False)"

definition hasValidTokenFields :: "jsval \<Rightarrow> bool" where
  "hasValidTokenFields value \<longleftrightarrow>
     nonempty_string (get_prop value (js ''access_token'')) \<and>
     nonempty_string (get_prop value (js ''token_type'')) \<and>
     positive_finite (get_prop value (js ''access_expires_at''))"

definition isAuthBundle :: "jsval \<Rightarrow> bool" where
  "isAuthBundle value =
     (if \<not> isRecord value then False
      else hasValidTokenFields value \<and> isAuthUser (get_prop value (js ''user'')) \<and>
           isLoginSession (get_prop value (js ''session'')))"

definition isAuthTokenRotation :: "jsval \<Rightarrow> bool" where
  "isAuthTokenRotation value \<longleftrightarrow>
     isRecord value \<and> hasValidTokenFields value \<and>
     get_prop value (js ''token_type'') = JStr (js ''Bearer'') \<and>
     isLoginSession (get_prop value (js ''session'')) \<and>
     truthy (get_prop (get_prop value (js ''session'')) (js ''current''))"

text \<open>A guarded value seen at its type.  The fields have the types the guards tested.\<close>

definition str_field :: "jsval \<Rightarrow> string \<Rightarrow> jstring" where
  "str_field v k = (case get_prop v (js k) of JStr s \<Rightarrow> s | _ \<Rightarrow> [])"

definition num_field :: "jsval \<Rightarrow> string \<Rightarrow> jsnum" where
  "num_field v k = (case get_prop v (js k) of JNum n \<Rightarrow> n | _ \<Rightarrow> NaN)"

definition as_session :: "jsval \<Rightarrow> login_session" where
  "as_session v = \<lparr>sid = str_field v ''sid'', current = truthy (get_prop v (js ''current'')),
     login_method = str_field v ''login_method'', ip = str_field v ''ip'',
     user_agent = str_field v ''user_agent'', created_at = num_field v ''created_at'',
     last_active_at = num_field v ''last_active_at'', expires_at = num_field v ''expires_at''\<rparr>"

definition as_bundle :: "jsval \<Rightarrow> auth_bundle" where
  "as_bundle v = \<lparr>access_token = str_field v ''access_token'', token_type = str_field v ''token_type'',
     access_expires_at = num_field v ''access_expires_at'', bundle_user = get_prop v (js ''user''),
     bundle_session = as_session (get_prop v (js ''session''))\<rparr>"

definition parseBundle :: "jsval \<Rightarrow> auth_bundle option" where
  "parseBundle value = (if isAuthBundle value then Some (as_bundle value) else None)"

section \<open>The store invariant\<close>

text \<open>
  A bundle is well formed when its token and its session identifier are not empty and its expiry
  is a positive number.  The store is consistent when the token, its expiry and the session are
  present together, are well formed, and come with a user.
\<close>

definition wf_bundle :: "auth_bundle \<Rightarrow> bool" where
  "wf_bundle b \<longleftrightarrow> access_token b \<noteq> [] \<and> sid (bundle_session b) \<noteq> [] \<and>
     is_finite_num (access_expires_at b) \<and> num_gt0 (access_expires_at b)"

definition auth_ok :: "auth_state \<Rightarrow> bool" where
  "auth_ok a \<longleftrightarrow>
     (case session a of
        None \<Rightarrow> accessToken a = None \<and> accessExpiresAt a = None
      | Some s \<Rightarrow> user a \<noteq> None \<and> sid s \<noteq> [] \<and>
          (\<exists>t. accessToken a = Some t \<and> t \<noteq> []) \<and>
          (\<exists>n. accessExpiresAt a = Some n \<and> is_finite_num n \<and> num_gt0 n))"

named_theorems auth_intros \<open>the store stays consistent\<close>

lemma nonempty_stringD: "nonempty_string (get_prop v (js k)) \<Longrightarrow> str_field v k \<noteq> []"
  by (auto simp: nonempty_string_def str_field_def split: jsval.splits)

lemma positive_finiteD:
  "positive_finite (get_prop v (js k)) \<Longrightarrow> is_finite_num (num_field v k) \<and> num_gt0 (num_field v k)"
  by (auto simp: positive_finite_def num_field_def split: jsval.splits)

lemma sid_as_session: "isLoginSession v \<Longrightarrow> sid (as_session v) \<noteq> []"
  by (auto simp: isLoginSession_def as_session_def dest: nonempty_stringD split: if_splits)

lemma hasValidTokenFieldsD:
  "hasValidTokenFields v \<Longrightarrow> str_field v ''access_token'' \<noteq> [] \<and>
     is_finite_num (num_field v ''access_expires_at'') \<and> num_gt0 (num_field v ''access_expires_at'')"
  by (auto simp: hasValidTokenFields_def dest: nonempty_stringD positive_finiteD)

lemma wf_as_bundle: "isAuthBundle v \<Longrightarrow> wf_bundle (as_bundle v)"
  by (auto simp: isAuthBundle_def wf_bundle_def as_bundle_def split: if_splits
      dest: hasValidTokenFieldsD sid_as_session)

lemma parseBundle_wf: "parseBundle v = Some b \<Longrightarrow> wf_bundle b"
  by (auto simp: parseBundle_def wf_as_bundle split: if_splits)

lemma auth_ok_initial [simp]: "auth_ok initial_auth"
  by (simp add: auth_ok_def initial_auth_def)

lemma auth_ok_setBundle [auth_intros]: "wf_bundle b \<Longrightarrow> auth_ok (setBundle b a)"
  by (simp add: auth_ok_def setBundle_def wf_bundle_def)

lemma auth_ok_reset [auth_intros]: "auth_ok (reset_auth b a)"
  by (simp add: auth_ok_def reset_auth_def)

lemma auth_ok_setters [auth_intros]:
  "auth_ok a \<Longrightarrow> auth_ok (setUser (Some u) a)"
  "auth_ok a \<Longrightarrow> auth_ok (setPending2FAFlowToken t a)"
  "auth_ok a \<Longrightarrow> auth_ok (setBootstrapState b a)"
  by (auto simp: auth_ok_def setUser_def setPending2FAFlowToken_def setBootstrapState_def
      split: option.splits)

lemma session_sid_simps [simp]:
  "session_sid (setBundle b a) = Some (sid (bundle_session b))"
  "session_sid (reset_auth bs a) = None"
  "session_sid (setUser u a) = session_sid a"
  "session_sid (setPending2FAFlowToken t a) = session_sid a"
  "session_sid (setBootstrapState bs a) = session_sid a"
  "session_sid initial_auth = None"
  by (simp_all add: session_sid_def setBundle_def reset_auth_def setUser_def
      setPending2FAFlowToken_def setBootstrapState_def initial_auth_def)

lemma session_sid_nonempty: "auth_ok a \<Longrightarrow> session_sid a = Some s \<Longrightarrow> s \<noteq> []"
  by (auto simp: auth_ok_def session_sid_def)

end
