(* ===== verification/Auth_Sync.thy ===== *)
theory Auth_Sync
  imports Auth_Store
begin

text \<open>
  Cross-tab synchronization of the login session (\<open>web/src/lib/auth-session-sync.ts\<close>): the
  event, its two transports (a broadcast channel, or a key of the local storage that is written
  and removed at once) and the filter of the receiving tab.

  The clock, the random identifiers and the abilities of the browser are arguments.
\<close>

datatype sync_kind = KAuthenticated | KSignedOut

record AuthSessionSyncEvent =
  ev_kind :: sync_kind
  ev_sid :: jstring
  ev_source :: jstring
  ev_nonce :: jstring
  ev_timestamp :: jsnum

definition AUTH_SYNC_STORAGE_KEY :: jstring where
  "AUTH_SYNC_STORAGE_KEY = js ''new-api:auth-session:event''"

fun kind_name :: "sync_kind \<Rightarrow> jstring" where
  "kind_name KAuthenticated = js ''authenticated''"
| "kind_name KSignedOut = js ''signed_out''"

text \<open>The event as the object literal builds it.\<close>

definition event_value :: "AuthSessionSyncEvent \<Rightarrow> jsval" where
  "event_value e = JObj [(js ''kind'', JStr (kind_name (ev_kind e))), (js ''sid'', JStr (ev_sid e)),
     (js ''source'', JStr (ev_source e)), (js ''nonce'', JStr (ev_nonce e)),
     (js ''timestamp'', JNum (ev_timestamp e))]"

definition isAuthSessionSyncEvent :: "jsval \<Rightarrow> bool" where
  "isAuthSessionSyncEvent value =
     (if \<not> truthy value \<or> \<not> is_object value then False
      else (get_prop value (js ''kind'') = JStr (js ''authenticated'') \<or>
            get_prop value (js ''kind'') = JStr (js ''signed_out'')) \<and>
           nonempty_string (get_prop value (js ''sid'')) \<and>
           is_string (get_prop value (js ''source'')) \<and>
           is_string (get_prop value (js ''nonce'')) \<and>
           is_number (get_prop value (js ''timestamp'')))"

text \<open>A value that passed the guard, seen at its type.\<close>

definition as_event :: "jsval \<Rightarrow> AuthSessionSyncEvent" where
  "as_event v = \<lparr>ev_kind = (if get_prop v (js ''kind'') = JStr (js ''authenticated'')
                            then KAuthenticated else KSignedOut),
     ev_sid = str_field v ''sid'', ev_source = str_field v ''source'',
     ev_nonce = str_field v ''nonce'', ev_timestamp = num_field v ''timestamp''\<rparr>"

record browser =
  has_window :: bool
  has_broadcast :: bool
  storage_available :: bool

text \<open>What a publication leaves behind: a posted message, or a write and a removal.\<close>

datatype transmission = Posted jsval | StorageSet jstring jstring | StorageRemoved jstring

definition publishAuthSessionEvent ::
  "browser \<Rightarrow> jstring \<Rightarrow> jstring \<Rightarrow> jsnum \<Rightarrow> sync_kind \<Rightarrow> jstring \<Rightarrow> transmission list" where
  "publishAuthSessionEvent env source nonce now kind s =
     (if \<not> has_window env \<or> s = [] then []
      else let event = \<lparr>ev_kind = kind, ev_sid = s, ev_source = source, ev_nonce = nonce,
                        ev_timestamp = now\<rparr>
           in if has_broadcast env then [Posted (event_value event)]
              else if \<not> storage_available env then []
              else (case json_stringify 0 (event_value event) of
                      None \<Rightarrow> []
                    | Some text \<Rightarrow> [StorageSet AUTH_SYNC_STORAGE_KEY text,
                                    StorageRemoved AUTH_SYNC_STORAGE_KEY]))"

text \<open>\<open>Math.abs(Date.now() - timestamp) < 60000\<close>\<close>

definition recent :: "rat \<Rightarrow> jsnum \<Rightarrow> bool" where
  "recent now ts = (case ts of Num q \<Rightarrow> \<bar>now - q\<bar> < 60000 | _ \<Rightarrow> False)"

definition deliver :: "jstring \<Rightarrow> rat \<Rightarrow> jsval \<Rightarrow> AuthSessionSyncEvent option" where
  "deliver authSyncSource now value =
     (if isAuthSessionSyncEvent value \<and>
         ev_source (as_event value) \<noteq> authSyncSource \<and>
         recent now (ev_timestamp (as_event value))
      then Some (as_event value) else None)"

text \<open>
  The subscribed handlers: a message of the channel is delivered as it is; a storage event counts
  only for the synchronization key and only when it sets a non-empty value, which is parsed first.
\<close>

definition handleMessage :: "jstring \<Rightarrow> rat \<Rightarrow> jsval \<Rightarrow> AuthSessionSyncEvent option" where
  "handleMessage authSyncSource now data = deliver authSyncSource now data"

definition handleStorage ::
  "jstring \<Rightarrow> rat \<Rightarrow> jstring \<Rightarrow> jstring option \<Rightarrow> AuthSessionSyncEvent option" where
  "handleStorage authSyncSource now key newValue =
     (if key \<noteq> AUTH_SYNC_STORAGE_KEY then None
      else case newValue of
        None \<Rightarrow> None
      | Some t \<Rightarrow> (if t = [] then None
                  else case json_parse t of None \<Rightarrow> None | Some v \<Rightarrow> deliver authSyncSource now v))"

text \<open>What another tab makes of a transmission.\<close>

definition receive :: "jstring \<Rightarrow> rat \<Rightarrow> transmission \<Rightarrow> AuthSessionSyncEvent option" where
  "receive authSyncSource now m = (case m of
     Posted v \<Rightarrow> handleMessage authSyncSource now v
   | StorageSet k t \<Rightarrow> handleStorage authSyncSource now k (Some t)
   | StorageRemoved k \<Rightarrow> handleStorage authSyncSource now k None)"

lemma as_event_value [simp]: "as_event (event_value e) = e"
  by (cases e; cases "ev_kind e")
    (simp_all add: as_event_def event_value_def str_field_def num_field_def)

lemma event_value_guard: "ev_sid e \<noteq> [] \<Longrightarrow> isAuthSessionSyncEvent (event_value e)"
  by (cases "ev_kind e") (simp_all add: isAuthSessionSyncEvent_def event_value_def nonempty_string_def)

lemma deliver_event_value:
  "deliver own now (event_value e) =
     (if ev_sid e \<noteq> [] \<and> ev_source e \<noteq> own \<and> recent now (ev_timestamp e) then Some e else None)"
proof (cases "ev_sid e = []")
  case True
  then have "\<not> isAuthSessionSyncEvent (event_value e)"
    by (simp add: isAuthSessionSyncEvent_def event_value_def nonempty_string_def)
  with True show ?thesis by (simp add: deliver_def)
qed (simp add: deliver_def event_value_guard)

lemma deliver_Some:
  "deliver own now v = Some e \<Longrightarrow> ev_sid e \<noteq> [] \<and> ev_source e \<noteq> own \<and> recent now (ev_timestamp e)"
  by (auto simp: deliver_def isAuthSessionSyncEvent_def as_event_def split: if_splits
      dest: nonempty_stringD)

lemma obj_of_event: "obj_of [(js ''kind'', a), (js ''sid'', b), (js ''source'', c), (js ''nonce'', d),
    (js ''timestamp'', e)] =
  [(js ''kind'', a), (js ''sid'', b), (js ''source'', c), (js ''nonce'', d), (js ''timestamp'', e)]"
  by (simp add: obj_of_def own_order_def is_index_key_def js_Cons is_digit_def)

lemma unit16_kind_name [simp]: "unit16 (kind_name k)"
  by (cases k) (simp_all add: unit16_def js_Cons)

text \<open>The events a tab can build: identifiers are text, the clock is a safe integer.\<close>

definition plain_event :: "AuthSessionSyncEvent \<Rightarrow> bool" where
  "plain_event e \<longleftrightarrow> unit16 (ev_sid e) \<and> unit16 (ev_source e) \<and> unit16 (ev_nonce e) \<and>
     (\<exists>i. ev_timestamp e = num_int i \<and> safe_int i)"

lemma canonical_event: "plain_event e \<Longrightarrow> canonical (event_value e)"
  by (auto simp: plain_event_def event_value_def num_int_def obj_of_event)
    (auto simp: unit16_def js_Cons)

lemma receive_published:
  assumes "has_window env" "s \<noteq> []" "unit16 s" "unit16 source" "unit16 nonce" "safe_int t"
  shows "List.map_filter (receive own now) (publishAuthSessionEvent env source nonce (num_int t) kind s) =
     (if (has_broadcast env \<or> storage_available env) \<and> own \<noteq> source \<and> \<bar>now - of_int t\<bar> < 60000
      then [\<lparr>ev_kind = kind, ev_sid = s, ev_source = source, ev_nonce = nonce,
             ev_timestamp = num_int t\<rparr>] else [])"
proof -
  let ?e = "\<lparr>ev_kind = kind, ev_sid = s, ev_source = source, ev_nonce = nonce, ev_timestamp = num_int t\<rparr>"
  have d: "deliver own now (event_value ?e) =
      (if own \<noteq> source \<and> \<bar>now - of_int t\<bar> < 60000 then Some ?e else None)"
    using assms by (auto simp: deliver_event_value recent_def num_int_def)
  have "plain_event ?e" using assms by (auto simp: plain_event_def)
  then obtain enc where t: "json_stringify 0 (event_value ?e) = Some enc" "json_parse enc = Some (event_value ?e)"
    using json_parse_stringify canonical_event by blast
  then have "enc \<noteq> []" by (auto simp: json_parse_def json_fuel_def skip_ws_def)
  have p: "publishAuthSessionEvent env source nonce (num_int t) kind s =
      (if has_broadcast env then [Posted (event_value ?e)]
       else if storage_available env
         then [StorageSet AUTH_SYNC_STORAGE_KEY enc, StorageRemoved AUTH_SYNC_STORAGE_KEY] else [])"
    using assms(1,2) t(1) by (simp add: publishAuthSessionEvent_def Let_def)
  have r: "receive own now (Posted (event_value ?e)) = deliver own now (event_value ?e)"
    "receive own now (StorageSet AUTH_SYNC_STORAGE_KEY enc) = deliver own now (event_value ?e)"
    "receive own now (StorageRemoved AUTH_SYNC_STORAGE_KEY) = None"
    using t(2) \<open>enc \<noteq> []\<close> by (simp_all add: receive_def handleMessage_def handleStorage_def)
  show ?thesis
    unfolding p using r d by (cases "own = source") (simp_all add: map_filter_simps)
qed

text \<open>
  Both transports carry a session event faithfully: whatever a tab publishes for a session is
  seen by every other tab, within a minute, as exactly the event that was published, and the
  publishing tab never sees its own events.  Without storage and without a channel nothing is sent.
\<close>

theorem publish_receive:
  assumes "has_window env" "s \<noteq> []" "unit16 s" "unit16 source" "unit16 nonce" "safe_int t"
  shows "List.map_filter (receive own now) (publishAuthSessionEvent env source nonce (num_int t) kind s) =
     (if (has_broadcast env \<or> storage_available env) \<and> own \<noteq> source \<and> \<bar>now - of_int t\<bar> < 60000
      then [\<lparr>ev_kind = kind, ev_sid = s, ev_source = source, ev_nonce = nonce,
             ev_timestamp = num_int t\<rparr>] else [])"
  using assms by (rule receive_published)

theorem publish_receive_witness:
  "List.map_filter (receive (js ''tab-b'') 5000)
     (publishAuthSessionEvent \<lparr>has_window = True, has_broadcast = False, storage_available = True\<rparr>
        (js ''tab-a'') (js ''n'') (num_int 1000) KSignedOut (js ''s1'')) =
   [\<lparr>ev_kind = KSignedOut, ev_sid = js ''s1'', ev_source = js ''tab-a'', ev_nonce = js ''n'',
     ev_timestamp = num_int 1000\<rparr>]"
  using publish_receive [of "\<lparr>has_window = True, has_broadcast = False, storage_available = True\<rparr>"
      "js ''s1''" "js ''tab-a''" "js ''n''" 1000 "js ''tab-b''" 5000 KSignedOut]
  by (simp add: unit16_def js_Cons safe_int_def)

end
