(* ===== verification/Guards.thy ===== *)
theory Guards
  imports Main
begin

text \<open>
  Interfaces shared by the asynchronous components.  Every one of them follows the same scheme: a
  counter is advanced whenever newer work takes over, a callback keeps the value the counter had
  when it was created, and a callback whose value is no longer the counter's does nothing.

  \<^item> \<open>transition_system\<close>: a step relation with an invariant.
  \<^item> \<open>epoch_guard\<close>: the counter never decreases and late callbacks are guarded by it; then work
    that has been superseded once has no effect ever after.
\<close>

inductive reach :: "('s \<Rightarrow> 's \<Rightarrow> bool) \<Rightarrow> 's \<Rightarrow> 's \<Rightarrow> bool" for step :: "'s \<Rightarrow> 's \<Rightarrow> bool" and s0 :: 's where
  reach_refl [intro]: "reach step s0 s0"
| reach_step [intro]: "reach step s0 s \<Longrightarrow> step s t \<Longrightarrow> reach step s0 t"

lemma reach_trans: "reach step a b \<Longrightarrow> reach step b c \<Longrightarrow> reach step a c"
proof (rotate_tac, induction rule: reach.induct)
  case (reach_step s t)
  then show ?case by blast
qed simp

lemma reach_one: "step a b \<Longrightarrow> reach step a b"
  by blast

locale transition_system =
  fixes step :: "'s \<Rightarrow> 's \<Rightarrow> bool" and good :: "'s \<Rightarrow> bool"
  assumes step_good: "good s \<Longrightarrow> step s t \<Longrightarrow> good t"
begin

lemma reach_good: "reach step s t \<Longrightarrow> good s \<Longrightarrow> good t"
  by (induction rule: reach.induct) (auto intro: step_good)

end

locale epoch_guard = transition_system step good
  for step :: "'s \<Rightarrow> 's \<Rightarrow> bool" and good :: "'s \<Rightarrow> bool" +
  fixes epoch :: "'s \<Rightarrow> nat"
    and callback :: "nat \<Rightarrow> 'e \<Rightarrow> 's \<Rightarrow> 's"
    and view :: "'s \<Rightarrow> 'v"
  assumes epoch_mono: "good s \<Longrightarrow> step s t \<Longrightarrow> epoch s \<le> epoch t"
    and stale_ignored: "g \<noteq> epoch s \<Longrightarrow> view (callback g e s) = view s"
begin

lemma reach_epoch_mono: "reach step s t \<Longrightarrow> good s \<Longrightarrow> epoch s \<le> epoch t"
proof (induction rule: reach.induct)
  case (reach_step s' t')
  then have "good s'" by (blast intro: reach_good)
  with reach_step show ?case using epoch_mono by (meson order_trans)
qed simp

text \<open>A callback that is overtaken once stays without effect, whatever happens afterwards.\<close>

lemma superseded_forever:
  "good s \<Longrightarrow> g < epoch s \<Longrightarrow> reach step s t \<Longrightarrow> view (callback g e t) = view t"
proof -
  assume "good s" "g < epoch s" "reach step s t"
  then have "g < epoch t" using reach_epoch_mono by (metis order_less_le_trans)
  then show ?thesis by (intro stale_ignored) simp
qed

end

end
