(* ===== verification/Auth_Session.thy ===== *)
theory Auth_Session
  imports Auth_Sync Guards
begin

text \<open>
  The login session of a tab (\<open>web/src/lib/auth-session.ts\<close>): applying and clearing a session,
  the refresh runner with its retries, the single flight of refreshes behind the browser lock, and
  the listener for the other tabs (\<open>web/src/routes/__root.tsx\<close>).

  Code between two suspension points (\<open>await\<close>) runs without interruption, so an asynchronous
  function is a state machine whose states are its suspension points: \<open>run_begin\<close> is the code up
  to the request, \<open>run_response\<close> the code after it, \<open>run_delay\<close> the code after a delay.  Between
  two of them anything else may happen to the tab; \<open>tab_step\<close> interleaves all of it.
\<close>

section \<open>The session of the tab\<close>

text \<open>
  The store, the epoch counter, and the calls of \<open>publishAuthSessionEvent\<close> with a session.
\<close>

record client =
  auth :: auth_state
  authEpoch :: nat
  outbox :: "(sync_kind \<times> jstring) list"

definition publish :: "sync_kind \<Rightarrow> jstring \<Rightarrow> client \<Rightarrow> client" where
  "publish kind s c = (if s = [] then c else c\<lparr>outbox := outbox c @ [(kind, s)]\<rparr>)"

definition applyAuthBundle :: "auth_bundle \<Rightarrow> bool \<Rightarrow> client \<Rightarrow> client" where
  "applyAuthBundle bundle synchronizeTabs c =
     (let previousSID = session_sid (auth c);
          c1 = c\<lparr>authEpoch := authEpoch c + 1\<rparr>;
          c2 = c1\<lparr>auth := setBundle bundle (auth c1)\<rparr>
      in if synchronizeTabs \<and> previousSID \<noteq> Some (sid (bundle_session bundle))
         then publish KAuthenticated (sid (bundle_session bundle)) c2 else c2)"

datatype AuthRotationError =
    InvalidRotationResponse
  | NoActiveSession
  | RotationSessionMismatch

definition applyAuthRotation :: "jsval \<Rightarrow> client \<Rightarrow> AuthRotationError + client" where
  "applyAuthRotation value c =
     (if \<not> isAuthTokenRotation value then Inl InvalidRotationResponse
      else case (user (auth c), session (auth c)) of
        (Some u, Some s) \<Rightarrow>
          (let rs = as_session (get_prop value (js ''session''))
           in if \<not> truthy u then Inl NoActiveSession
              else if sid rs \<noteq> sid s then Inl RotationSessionMismatch
              else Inr (applyAuthBundle
                \<lparr>access_token = str_field value ''access_token'', token_type = str_field value ''token_type'',
                 access_expires_at = num_field value ''access_expires_at'', bundle_user = u,
                 bundle_session = rs\<rparr> False c))
      | _ \<Rightarrow> Inl NoActiveSession)"

definition clearAuthentication :: "bool \<Rightarrow> AuthBootstrapState \<Rightarrow> client \<Rightarrow> client" where
  "clearAuthentication synchronizeTabs bootstrap c =
     (let s = session_sid (auth c);
          c1 = c\<lparr>authEpoch := authEpoch c + 1\<rparr>;
          c2 = c1\<lparr>auth := reset_auth bootstrap (auth c1)\<rparr>
      in case s of Some i \<Rightarrow> (if synchronizeTabs \<and> i \<noteq> [] then publish KSignedOut i c2 else c2)
         | None \<Rightarrow> c2)"

text \<open>The query cache is a library's; its \<open>clear\<close> is an argument.\<close>

definition clearAuthenticatedClientState ::
  "('q \<Rightarrow> 'q) \<Rightarrow> bool \<Rightarrow> 'q \<times> client \<Rightarrow> 'q \<times> client" where
  "clearAuthenticatedClientState clear_queries synchronizeTabs qc =
     (clear_queries (fst qc), clearAuthentication synchronizeTabs Complete (snd qc))"

section \<open>The refresh runner\<close>

datatype refresh_error = Superseded | ErrorValue jsval

datatype RefreshOutcome =
    Authenticated auth_bundle
  | Anonymous
  | TransientError refresh_error
  | OutOfSync "jstring option"

record AuthRefreshHTTPResponse =
  status :: nat
  resp_data :: jsval
  resp_error :: jsval

text \<open>The runtime the runner is created with; \<open>request\<close> and \<open>wait\<close> are its suspension points.\<close>

record 's AuthRefreshRuntime =
  getExpectedSID :: "'s \<Rightarrow> jstring option"
  rt_parseBundle :: "jsval \<Rightarrow> auth_bundle option"
  acceptBundle :: "auth_bundle \<Rightarrow> 's \<Rightarrow> 's"
  rt_clear :: "bool \<Rightarrow> AuthBootstrapState option \<Rightarrow> 's \<Rightarrow> 's"
  markTransient :: "'s \<Rightarrow> 's"
  isCurrent :: "('s \<Rightarrow> bool) option"

definition refreshRaceDelays :: "nat list" where
  "refreshRaceDelays = [80, 200, 500]"

datatype run_pc =
    AwaitResponse nat bool "jstring option"
  | AwaitDelay nat nat bool
  | Finished RefreshOutcome

definition not_current :: "'s AuthRefreshRuntime \<Rightarrow> 's \<Rightarrow> bool" where
  "not_current rt s = (case isCurrent rt of None \<Rightarrow> False | Some cur \<Rightarrow> \<not> cur s)"

definition run_begin :: "'s AuthRefreshRuntime \<Rightarrow> nat \<Rightarrow> bool \<Rightarrow> 's \<Rightarrow> run_pc \<times> 's" where
  "run_begin rt raceAttempt allowMismatchRetry s =
     (if not_current rt s then (Finished (TransientError Superseded), s)
      else (AwaitResponse raceAttempt allowMismatchRetry (getExpectedSID rt s), s))"

text \<open>\<open>isRecord(data) ? data : undefined\<close> and its string property \<open>code\<close>.\<close>

definition response_record :: "AuthRefreshHTTPResponse \<Rightarrow> jsval" where
  "response_record r = (if isRecord (resp_data r) then resp_data r else JUndef)"

definition response_code :: "AuthRefreshHTTPResponse \<Rightarrow> jstring option" where
  "response_code r = (case get_prop (response_record r) (js ''code'') of JStr s \<Rightarrow> Some s | _ \<Rightarrow> None)"

definition response_bundle :: "'s AuthRefreshRuntime \<Rightarrow> AuthRefreshHTTPResponse \<Rightarrow> auth_bundle option" where
  "response_bundle rt r =
     (if get_prop (response_record r) (js ''success'') = JBool True
      then rt_parseBundle rt (get_prop (response_record r) (js ''data'')) else None)"

definition run_response ::
  "'s AuthRefreshRuntime \<Rightarrow> nat \<Rightarrow> bool \<Rightarrow> AuthRefreshHTTPResponse \<Rightarrow> 's \<Rightarrow> run_pc \<times> 's" where
  "run_response rt raceAttempt allowMismatchRetry r s =
     (if not_current rt s then (Finished (TransientError Superseded), s)
      else case response_bundle rt r of
        Some bundle \<Rightarrow> (Finished (Authenticated bundle), acceptBundle rt bundle s)
      | None \<Rightarrow>
          if status r = 409 \<and> response_code r = Some (js ''AUTH_REFRESH_RACE'') then
            (if raceAttempt < length refreshRaceDelays
             then (AwaitDelay (refreshRaceDelays ! raceAttempt) raceAttempt allowMismatchRetry, s)
             else (Finished (OutOfSync (response_code r)), rt_clear rt False None s))
          else if status r = 409 \<and> response_code r = Some (js ''AUTH_SESSION_MISMATCH'') then
            (if allowMismatchRetry
             then run_begin rt 0 False (rt_clear rt False (Some Idle) s)
             else (Finished (OutOfSync (response_code r)), rt_clear rt False None s))
          else if status r = 401 then (Finished Anonymous, rt_clear rt True None s)
          else if status r = 0 \<or> 500 \<le> status r \<or> status r = 429 then
            (Finished (TransientError (ErrorValue
               (if resp_error r = JUndef \<or> resp_error r = JNull then resp_data r else resp_error r))),
             markTransient rt s)
          else (Finished (OutOfSync (Some (case response_code r of Some c \<Rightarrow> c
                  | None \<Rightarrow> js ''AUTH_INVALID_REFRESH_RESPONSE''))), rt_clear rt False None s))"

definition run_delay :: "'s AuthRefreshRuntime \<Rightarrow> nat \<Rightarrow> bool \<Rightarrow> 's \<Rightarrow> run_pc \<times> 's" where
  "run_delay rt raceAttempt allowMismatchRetry s = run_begin rt (raceAttempt + 1) allowMismatchRetry s"

text \<open>\<open>createRefreshRunner(runtime)()\<close>, up to its first suspension.\<close>

definition createRefreshRunner :: "'s AuthRefreshRuntime \<Rightarrow> 's \<Rightarrow> run_pc \<times> 's" where
  "createRefreshRunner rt s = run_begin rt 0 True s"

text \<open>
  A whole run: the answers of the server, each with what happened to the state while the run was
  waiting for it and while it was delaying before the next request.
\<close>

fun drive :: "'s AuthRefreshRuntime \<Rightarrow> (('s \<Rightarrow> 's) \<times> AuthRefreshHTTPResponse \<times> ('s \<Rightarrow> 's)) list
    \<Rightarrow> run_pc \<times> 's \<Rightarrow> run_pc \<times> 's" where
  "drive rt [] c = c"
| "drive rt ((f, r, g) # rs) (pc, s) =
     (case pc of
        AwaitResponse a al e \<Rightarrow>
          (case run_response rt a al r (f s) of
             (AwaitDelay d a' al', s') \<Rightarrow> drive rt rs (run_delay rt a' al' (g s'))
           | c \<Rightarrow> drive rt rs c)
      | _ \<Rightarrow> (pc, s))"

section \<open>Refreshing the session of the tab\<close>

text \<open>
  \<open>requestRefresh\<close> never fails: the answer of the HTTP library, or the error it raised, is turned
  into a response record.  \<open>HttpFailure\<close> is an error of the library, with the response it may carry.
\<close>

datatype http_result =
    HttpOk nat jsval
  | HttpFailure jsval "(nat \<times> jsval) option"
  | OtherFailure jsval

definition requestRefresh :: "http_result \<Rightarrow> AuthRefreshHTTPResponse" where
  "requestRefresh res = (case res of
     HttpOk st d \<Rightarrow> \<lparr>status = st, resp_data = d, resp_error = JUndef\<rparr>
   | OtherFailure err \<Rightarrow> \<lparr>status = 0, resp_data = JUndef, resp_error = err\<rparr>
   | HttpFailure err resp \<Rightarrow>
       \<lparr>status = (case resp of Some (st, _) \<Rightarrow> st | None \<Rightarrow> 0),
        resp_data = (case resp of Some (_, d) \<Rightarrow> d | None \<Rightarrow> JUndef), resp_error = err\<rparr>)"

definition refresh_headers :: "jstring option \<Rightarrow> (jstring \<times> jstring) list" where
  "refresh_headers expectedSID = (case expectedSID of
     Some s \<Rightarrow> (if s = [] then [] else [(js ''X-Auth-Session'', s)]) | None \<Rightarrow> [])"

definition map_auth :: "(auth_state \<Rightarrow> auth_state) \<Rightarrow> client \<Rightarrow> client" where
  "map_auth f c = c\<lparr>auth := f (auth c)\<rparr>"

definition runRefresh :: "nat \<Rightarrow> client AuthRefreshRuntime" where
  "runRefresh refreshEpoch =
     \<lparr>getExpectedSID = (\<lambda>c. session_sid (auth c)),
      rt_parseBundle = parseBundle,
      acceptBundle = (\<lambda>bundle. applyAuthBundle bundle False),
      rt_clear = (\<lambda>synchronizeTabs bootstrap c.
        if \<not> synchronizeTabs \<and> bootstrap = Some Idle then map_auth (reset_auth Idle) c
        else clearAuthentication synchronizeTabs (case bootstrap of Some b \<Rightarrow> b | None \<Rightarrow> Complete) c),
      markTransient = map_auth (setBootstrapState Idle),
      isCurrent = Some (\<lambda>c. authEpoch c = refreshEpoch)\<rparr>"

text \<open>
  A refresh in progress: waiting for the browser lock, inside the runner, failed to get the lock,
  or settled (its promise is resolved, or rejected when there is no outcome).
\<close>

datatype flight_pc =
    AwaitLock
  | InRun run_pc
  | LockRejected
  | Settled "RefreshOutcome option"

record flight =
  flight_epoch :: nat
  flight_pc :: flight_pc
  sent :: nat

record tab =
  client :: client
  refreshPromise :: "nat option"
  flights :: "flight list"
  hasLocks :: bool

definition initial_tab :: "bool \<Rightarrow> tab" where
  "initial_tab locks = \<lparr>client = \<lparr>auth = initial_auth, authEpoch = 0, outbox = []\<rparr>,
     refreshPromise = None, flights = [], hasLocks = locks\<rparr>"

definition requests_of :: "run_pc \<Rightarrow> nat" where
  "requests_of pc = (case pc of AwaitResponse _ _ _ \<Rightarrow> 1 | _ \<Rightarrow> 0)"

text \<open>Put flight \<open>i\<close> at the point its code reached.\<close>

definition continue_at :: "nat \<Rightarrow> run_pc \<times> client \<Rightarrow> tab \<Rightarrow> tab" where
  "continue_at i r t = t\<lparr>client := snd r,
     flights := (flights t)[i := (flights t ! i)\<lparr>flight_pc := InRun (fst r),
       sent := sent (flights t ! i) + requests_of (fst r)\<rparr>]\<rparr>"

definition performRefreshWithBrowserLock :: "nat \<Rightarrow> tab \<Rightarrow> tab" where
  "performRefreshWithBrowserLock refreshEpoch t =
     (let i = length (flights t);
          t1 = t\<lparr>flights := flights t @ [\<lparr>flight_epoch = refreshEpoch, flight_pc = AwaitLock, sent = 0\<rparr>]\<rparr>
      in if \<not> hasLocks t then continue_at i (createRefreshRunner (runRefresh refreshEpoch) (client t1)) t1
         else t1)"

text \<open>The caller gets the index of the flight whose promise it awaits.\<close>

definition refreshAuthentication :: "tab \<Rightarrow> nat \<times> tab" where
  "refreshAuthentication t =
     (case refreshPromise t of
        Some i \<Rightarrow> (i, t)
      | None \<Rightarrow> (length (flights t),
                 (performRefreshWithBrowserLock (authEpoch (client t)) t)\<lparr>refreshPromise := Some (length (flights t))\<rparr>))"

definition lock_granted :: "nat \<Rightarrow> tab \<Rightarrow> tab" where
  "lock_granted i t = (case flight_pc (flights t ! i) of
     AwaitLock \<Rightarrow> continue_at i (createRefreshRunner (runRefresh (flight_epoch (flights t ! i))) (client t)) t
   | _ \<Rightarrow> t)"

definition lock_rejected :: "nat \<Rightarrow> tab \<Rightarrow> tab" where
  "lock_rejected i t = (case flight_pc (flights t ! i) of
     AwaitLock \<Rightarrow> t\<lparr>flights := (flights t)[i := (flights t ! i)\<lparr>flight_pc := LockRejected\<rparr>]\<rparr>
   | _ \<Rightarrow> t)"

definition response_arrives :: "nat \<Rightarrow> http_result \<Rightarrow> tab \<Rightarrow> tab" where
  "response_arrives i res t = (case flight_pc (flights t ! i) of
     InRun (AwaitResponse a al _) \<Rightarrow>
       continue_at i (run_response (runRefresh (flight_epoch (flights t ! i))) a al (requestRefresh res) (client t)) t
   | _ \<Rightarrow> t)"

definition delay_over :: "nat \<Rightarrow> tab \<Rightarrow> tab" where
  "delay_over i t = (case flight_pc (flights t ! i) of
     InRun (AwaitDelay _ a al) \<Rightarrow>
       continue_at i (run_delay (runRefresh (flight_epoch (flights t ! i))) a al (client t)) t
   | _ \<Rightarrow> t)"

text \<open>The \<open>finally\<close> handler: the promise is forgotten, whether it was resolved or rejected.\<close>

definition settle :: "nat \<Rightarrow> tab \<Rightarrow> tab" where
  "settle i t =
     (let done_with = (\<lambda>out. t\<lparr>refreshPromise := None,
            flights := (flights t)[i := (flights t ! i)\<lparr>flight_pc := Settled out\<rparr>]\<rparr>)
      in case flight_pc (flights t ! i) of
           InRun (Finished out) \<Rightarrow> done_with (Some out)
         | LockRejected \<Rightarrow> done_with None
         | _ \<Rightarrow> t)"

section \<open>Bootstrapping and headers\<close>

text \<open>\<open>now\<close> is \<open>Date.now()\<close> in milliseconds.\<close>

definition later_than :: "jsnum \<Rightarrow> int \<Rightarrow> bool" where
  "later_than x b = (case x of Num q \<Rightarrow> of_int b < q | PosInf \<Rightarrow> True | _ \<Rightarrow> False)"

definition token_until :: "auth_state \<Rightarrow> int \<Rightarrow> bool" where
  "token_until a b \<longleftrightarrow>
     (case accessToken a of Some t \<Rightarrow> t \<noteq> [] | None \<Rightarrow> False) \<and>
     (case accessExpiresAt a of Some n \<Rightarrow> truthy (JNum n) \<and> later_than n b | None \<Rightarrow> False)"

definition currentValidAuthBundle :: "int \<Rightarrow> auth_state \<Rightarrow> auth_bundle option" where
  "currentValidAuthBundle now a =
     (case (user a, accessToken a, accessExpiresAt a, session a) of
        (Some u, Some tok, Some n, Some s) \<Rightarrow>
          if truthy u \<and> tok \<noteq> [] \<and> truthy (JNum n) \<and> \<not> (case n of Num q \<Rightarrow> q \<le> of_int (now div 1000)
               | NegInf \<Rightarrow> True | _ \<Rightarrow> False)
          then Some \<lparr>access_token = tok, token_type = js ''Bearer'', access_expires_at = n,
                     bundle_user = u, bundle_session = s\<rparr>
          else None
      | _ \<Rightarrow> None)"

text \<open>The answer of \<open>bootstrapAuthentication\<close>: an outcome, or the flight it awaits.\<close>

datatype bootstrap_result = Immediately RefreshOutcome | AwaitFlight nat

definition bootstrapAuthentication :: "int \<Rightarrow> tab \<Rightarrow> bootstrap_result \<times> tab" where
  "bootstrapAuthentication now t =
     (let a = auth (client t) in
      case currentValidAuthBundle now a of
        Some bundle \<Rightarrow> (Immediately (Authenticated bundle),
                        t\<lparr>client := map_auth (setBootstrapState Complete) (client t)\<rparr>)
      | None \<Rightarrow>
          (let hasStaleSession = ((case user a of Some u \<Rightarrow> truthy u | None \<Rightarrow> False) \<and> session a \<noteq> None)
           in if bootstrapState a = Complete \<and> \<not> hasStaleSession then (Immediately Anonymous, t)
              else let t1 = t\<lparr>client := map_auth (setBootstrapState Checking) (client t)\<rparr>;
                       (i, t2) = refreshAuthentication t1
                   in (AwaitFlight i, t2)))"

definition getCommonHeaders :: "auth_state \<Rightarrow> (jstring \<times> jstring) list" where
  "getCommonHeaders a =
     (js ''Content-Type'', js ''application/json'') #
     (case accessToken a of
        Some t \<Rightarrow> (if t \<noteq> [] then [(js ''Authorization'', js ''Bearer '' @ t)] else [])
      | None \<Rightarrow> [])"

datatype headers_error = RequestFailed refresh_error | SessionExpired

definition getFreshAuthHeaders ::
  "int \<Rightarrow> tab \<Rightarrow> ((jstring \<times> jstring) list + nat) \<times> tab" where
  "getFreshAuthHeaders now t =
     (let a = auth (client t); refreshBefore = now div 1000 + 60
      in if token_until a refreshBefore then (Inl (getCommonHeaders a), t)
         else let (i, t1) = refreshAuthentication t in (Inr i, t1))"

text \<open>Its second part, once the awaited refresh has an outcome.\<close>

definition getFreshAuthHeaders_resume ::
  "int \<Rightarrow> RefreshOutcome \<Rightarrow> auth_state \<Rightarrow> headers_error + (jstring \<times> jstring) list" where
  "getFreshAuthHeaders_resume now outcome a =
     (case outcome of
        Authenticated _ \<Rightarrow> Inr (getCommonHeaders a)
      | _ \<Rightarrow>
          if token_until a (now div 1000) then Inr (getCommonHeaders a)
          else case outcome of TransientError e \<Rightarrow> Inl (RequestFailed e) | _ \<Rightarrow> Inl SessionExpired)"

section \<open>Events of the other tabs\<close>

datatype page_action = Reload | GoToSignIn

definition on_sync_event :: "AuthSessionSyncEvent \<Rightarrow> client \<Rightarrow> client \<times> page_action list" where
  "on_sync_event event c =
     (let currentSID = session_sid (auth c) in
      case ev_kind event of
        KAuthenticated \<Rightarrow>
          if Some (ev_sid event) = currentSID then (c, [])
          else ((case currentSID of Some s \<Rightarrow> if s \<noteq> [] then clearAuthentication False Complete c else c
                 | None \<Rightarrow> c), [Reload])
      | KSignedOut \<Rightarrow>
          (case currentSID of
             Some s \<Rightarrow> if s \<noteq> [] \<and> ev_sid event = s
                       then (clearAuthentication False Complete c, [GoToSignIn]) else (c, [])
           | None \<Rightarrow> (c, [])))"

section \<open>Everything that can happen to a tab\<close>

inductive tab_step :: "tab \<Rightarrow> tab \<Rightarrow> bool" where
  sign_in: "isAuthBundle v \<Longrightarrow>
    tab_step t (t\<lparr>client := applyAuthBundle (as_bundle v) True (client t)\<rparr>)"
| rotate_token: "applyAuthRotation v (client t) = Inr c \<Longrightarrow> tab_step t (t\<lparr>client := c\<rparr>)"
| sign_out: "tab_step t (t\<lparr>client := clearAuthentication sync bs (client t)\<rparr>)"
| update_user: "tab_step t (t\<lparr>client := map_auth (setUser (Some u)) (client t)\<rparr>)"
| update_2fa: "tab_step t (t\<lparr>client := map_auth (setPending2FAFlowToken f) (client t)\<rparr>)"
| other_tab: "tab_step t (t\<lparr>client := fst (on_sync_event e (client t))\<rparr>)"
| bootstrap: "tab_step t (snd (bootstrapAuthentication now t))"
| refresh: "tab_step t (snd (refreshAuthentication t))"
| fresh_headers: "tab_step t (snd (getFreshAuthHeaders now t))"
| lock_grant: "i < length (flights t) \<Longrightarrow> tab_step t (lock_granted i t)"
| lock_reject: "i < length (flights t) \<Longrightarrow> tab_step t (lock_rejected i t)"
| answer: "i < length (flights t) \<Longrightarrow> tab_step t (response_arrives i res t)"
| timer: "i < length (flights t) \<Longrightarrow> tab_step t (delay_over i t)"
| finally_handler: "i < length (flights t) \<Longrightarrow> tab_step t (settle i t)"

definition unsettled :: "flight \<Rightarrow> bool" where
  "unsettled f = (case flight_pc f of Settled _ \<Rightarrow> False | _ \<Rightarrow> True)"

text \<open>The requests a run may still make.\<close>

fun budget :: "run_pc \<Rightarrow> nat" where
  "budget (AwaitResponse a al _) = (3 - a) + (if al then 4 else 0)"
| "budget (AwaitDelay _ a al) = (3 - a) + (if al then 4 else 0)"
| "budget (Finished _) = 0"

definition delay_ok :: "run_pc \<Rightarrow> bool" where
  "delay_ok pc = (case pc of AwaitDelay _ a _ \<Rightarrow> a < 3 | _ \<Rightarrow> True)"

definition flight_ok :: "nat \<Rightarrow> flight \<Rightarrow> bool" where
  "flight_ok epoch f \<longleftrightarrow> flight_epoch f \<le> epoch \<and>
     (case flight_pc f of AwaitLock \<Rightarrow> sent f = 0
      | InRun pc \<Rightarrow> sent f + budget pc \<le> 8 \<and> delay_ok pc
      | _ \<Rightarrow> sent f \<le> 8)"

text \<open>
  The invariant: the store is consistent, every flight is within its budget of requests, and the
  flight behind \<open>refreshPromise\<close> is the only one that is not settled.
\<close>

definition tab_ok :: "tab \<Rightarrow> bool" where
  "tab_ok t \<longleftrightarrow> auth_ok (auth (client t)) \<and>
     (\<forall>f \<in> set (flights t). flight_ok (authEpoch (client t)) f) \<and>
     (\<forall>i < length (flights t). unsettled (flights t ! i) \<longleftrightarrow> refreshPromise t = Some i) \<and>
     (\<forall>i. refreshPromise t = Some i \<longrightarrow> i < length (flights t))"

section \<open>What the operations do to the store\<close>

lemma publish_simps [simp]:
  "auth (publish k s c) = auth c" "authEpoch (publish k s c) = authEpoch c"
  by (simp_all add: publish_def)

lemma map_auth_simps [simp]:
  "auth (map_auth f c) = f (auth c)" "authEpoch (map_auth f c) = authEpoch c"
  "outbox (map_auth f c) = outbox c"
  by (simp_all add: map_auth_def)

lemma applyAuthBundle_simps [simp]:
  "auth (applyAuthBundle b sync c) = setBundle b (auth c)"
  "authEpoch (applyAuthBundle b sync c) = authEpoch c + 1"
  by (simp_all add: applyAuthBundle_def Let_def)

lemma clearAuthentication_simps [simp]:
  "auth (clearAuthentication sync bs c) = reset_auth bs (auth c)"
  "authEpoch (clearAuthentication sync bs c) = authEpoch c + 1"
  by (simp_all add: clearAuthentication_def Let_def split: option.splits)

lemma outbox_clearAuthentication:
  "auth_ok (auth c) \<Longrightarrow> outbox (clearAuthentication sync bs c) = outbox c @
     (case session_sid (auth c) of Some s \<Rightarrow> (if sync then [(KSignedOut, s)] else []) | None \<Rightarrow> [])"
  by (auto simp: clearAuthentication_def Let_def publish_def split: option.splits
      dest: session_sid_nonempty)

lemma outbox_applyAuthBundle:
  "wf_bundle b \<Longrightarrow> outbox (applyAuthBundle b sync c) = outbox c @
     (if sync \<and> session_sid (auth c) \<noteq> Some (sid (bundle_session b))
      then [(KAuthenticated, sid (bundle_session b))] else [])"
  by (simp add: applyAuthBundle_def Let_def publish_def wf_bundle_def)

lemma applyAuthRotation_Inr:
  assumes "applyAuthRotation v c = Inr c'"
  obtains b where "c' = applyAuthBundle b False c" "wf_bundle b"
    "session_sid (auth c) = Some (sid (bundle_session b))" "user (auth c) = Some (bundle_user b)"
proof -
  from assms have rot: "isAuthTokenRotation v" by (auto simp: applyAuthRotation_def split: if_splits)
  from assms rot obtain u s where us: "user (auth c) = Some u" "session (auth c) = Some s"
    by (auto simp: applyAuthRotation_def split: option.splits)
  let ?rs = "as_session (get_prop v (js ''session''))"
  let ?b = "\<lparr>access_token = str_field v ''access_token'', token_type = str_field v ''token_type'',
    access_expires_at = num_field v ''access_expires_at'', bundle_user = u, bundle_session = ?rs\<rparr>"
  have e: "sid ?rs = sid s" "c' = applyAuthBundle ?b False c"
    using assms rot us by (auto simp: applyAuthRotation_def Let_def split: if_splits)
  have "wf_bundle ?b"
    using rot by (auto simp: isAuthTokenRotation_def wf_bundle_def dest: hasValidTokenFieldsD sid_as_session)
  with e us show ?thesis by (intro that [of ?b]) (simp_all add: session_sid_def)
qed

section \<open>The runner\<close>

text \<open>
  The contract of a runtime: what it does to the state keeps an invariant, the answer it accepts
  has been parsed, and forgetting the session for a retry leaves the run current.
\<close>

locale refresh_runtime =
  fixes rt :: "'s AuthRefreshRuntime" and I :: "'s \<Rightarrow> bool"
  assumes accept_keeps: "I s \<Longrightarrow> rt_parseBundle rt v = Some b \<Longrightarrow> I (acceptBundle rt b s)"
    and clear_keeps: "I s \<Longrightarrow> I (rt_clear rt sync bs s)"
    and transient_keeps: "I s \<Longrightarrow> I (markTransient rt s)"
    and retry_current: "\<not> not_current rt s \<Longrightarrow> \<not> not_current rt (rt_clear rt False (Some Idle) s)"
begin

lemma begin_keeps: "I s \<Longrightarrow> I (snd (run_begin rt a al s))"
  by (simp add: run_begin_def)

lemma response_keeps: "I s \<Longrightarrow> I (snd (run_response rt a al r s))"
  by (auto simp: run_response_def response_bundle_def begin_keeps accept_keeps clear_keeps transient_keeps
      split: option.splits if_splits)

lemma delay_keeps: "I s \<Longrightarrow> I (snd (run_delay rt a al s))"
  by (simp add: run_delay_def begin_keeps)

text \<open>A mismatch in a current run is retried with a new request, never reported as superseded.\<close>

lemma mismatch_retries:
  assumes "\<not> not_current rt s" "response_bundle rt r = None" "status r = 409"
    "response_code r = Some (js ''AUTH_SESSION_MISMATCH'')"
  shows "fst (run_response rt a True r s) =
    AwaitResponse 0 False (getExpectedSID rt (rt_clear rt False (Some Idle) s))"
  using assms retry_current [OF assms(1)] by (simp add: run_response_def run_begin_def)

end

lemma run_begin_budget: "requests_of (fst (run_begin rt a al s)) + budget (fst (run_begin rt a al s))
    \<le> (4 - a) + (if al then 4 else 0)" if "a \<le> 3"
  using that by (auto simp: run_begin_def requests_of_def)

lemma run_response_budget:
  "requests_of (fst (run_response rt a al r s)) + budget (fst (run_response rt a al r s))
     \<le> budget (AwaitResponse a al e)"
  using run_begin_budget [of 0 rt False "rt_clear rt False (Some Idle) s"]
  by (auto simp: run_response_def requests_of_def split: option.splits)

lemma run_delay_budget:
  "a < 3 \<Longrightarrow> requests_of (fst (run_delay rt a al s)) + budget (fst (run_delay rt a al s))
     \<le> budget (AwaitDelay d a al)"
  using run_begin_budget [of "a + 1" rt al s] by (simp add: run_delay_def)

lemma run_response_delay:
  "run_response rt a al r s = (AwaitDelay d a' al', s') \<Longrightarrow> a < 3 \<and> a' = a \<and> al' = al \<and> s' = s \<and>
     d = refreshRaceDelays ! a"
  by (auto simp: run_response_def run_begin_def refreshRaceDelays_def split: option.splits if_splits)

lemma delay_ok_run:
  "delay_ok (fst (run_begin rt a al s))" "delay_ok (fst (run_response rt a al r s))"
  "delay_ok (fst (run_delay rt a al s))"
proof -
  show b: "delay_ok (fst (run_begin rt a al s))" for a al s
    by (simp add: run_begin_def delay_ok_def)
  then show "delay_ok (fst (run_delay rt a al s))" by (simp add: run_delay_def)
  show "delay_ok (fst (run_response rt a al r s))"
  proof (cases "fst (run_response rt a al r s)")
    case (AwaitDelay d a' al')
    then show ?thesis
      using run_response_delay [of rt a al r s d a' al' "snd (run_response rt a al r s)"]
      by (simp add: delay_ok_def prod_eq_iff)
  qed (simp_all add: delay_ok_def)
qed

text \<open>Each answer uses up one request of the budget, so eight answers finish any run.\<close>

lemma drive_Finished [simp]: "drive rt rs (Finished out, s) = (Finished out, s)"
  by (cases rs) auto

lemma drive_finishes:
  "case pc of AwaitResponse a al e \<Rightarrow> a \<le> 3 \<and> budget pc < length rs | AwaitDelay _ _ _ \<Rightarrow> False
     | Finished _ \<Rightarrow> True \<Longrightarrow> \<exists>out s'. drive rt rs (pc, s) = (Finished out, s')"
proof (induction rs arbitrary: pc s)
  case Nil
  then show ?case by (cases pc) auto
next
  case (Cons x rs)
  obtain f r g where x: "x = (f, r, g)" by (cases x)
  show ?case
  proof (cases pc)
    case (AwaitResponse a al e)
    with Cons.prems have a: "a \<le> 3" and l: "(3 - a) + (if al then 4 else 0) < Suc (length rs)"
      by (auto split: if_splits)
    obtain pc' s' where res: "run_response rt a al r (f s) = (pc', s')"
      by (cases "run_response rt a al r (f s)")
    show ?thesis
    proof (cases pc')
      case (AwaitDelay d a' al')
      have d: "a < 3" "a' = a" "al' = al"
        using run_response_delay [OF res [unfolded AwaitDelay]] by simp_all
      obtain pc2 s2 where b: "run_delay rt a al (g s') = (pc2, s2)"
        by (cases "run_delay rt a al (g s')")
      have "case pc2 of AwaitResponse a al e \<Rightarrow> a \<le> 3 \<and> budget pc2 < length rs | AwaitDelay _ _ _ \<Rightarrow> False
          | Finished _ \<Rightarrow> True"
        using b d l by (auto simp: run_delay_def run_begin_def split: if_splits)
      from Cons.IH [OF this] x AwaitResponse res AwaitDelay d b show ?thesis by simp
    next
      case (AwaitResponse a2 al2 e2)
      have "a2 = 0 \<and> al2 = False \<and> al"
        using res AwaitResponse
        by (auto simp: run_response_def run_begin_def split: option.splits if_splits)
      then have "case pc' of AwaitResponse a al e \<Rightarrow> a \<le> 3 \<and> budget pc' < length rs
          | AwaitDelay _ _ _ \<Rightarrow> False | Finished _ \<Rightarrow> True"
        using AwaitResponse a l by simp
      from Cons.IH [OF this] x \<open>pc = AwaitResponse a al e\<close> res AwaitResponse show ?thesis by simp
    next
      case (Finished out)
      with x \<open>pc = AwaitResponse a al e\<close> res show ?thesis by simp
    qed
  qed (use Cons.prems x in simp_all)
qed

section \<open>The runtime of the tab\<close>

lemma not_current_runRefresh [simp]: "not_current (runRefresh e) c \<longleftrightarrow> authEpoch c \<noteq> e"
  by (simp add: not_current_def runRefresh_def)

lemma runRefresh_simps [simp]:
  "getExpectedSID (runRefresh e) = (\<lambda>c. session_sid (auth c))"
  "rt_parseBundle (runRefresh e) = parseBundle"
  "acceptBundle (runRefresh e) b = applyAuthBundle b False"
  "markTransient (runRefresh e) = map_auth (setBootstrapState Idle)"
  "rt_clear (runRefresh e) False (Some Idle) = map_auth (reset_auth Idle)"
  "rt_clear (runRefresh e) sync None = clearAuthentication sync Complete"
  by (simp_all add: runRefresh_def fun_eq_iff)

interpretation rr: refresh_runtime "runRefresh e" "\<lambda>c. auth_ok (auth c) \<and> n \<le> authEpoch c" for e n
proof unfold_locales
  show "auth_ok (auth (rt_clear (runRefresh e) sync bs s)) \<and> n \<le> authEpoch (rt_clear (runRefresh e) sync bs s)"
    if "auth_ok (auth s) \<and> n \<le> authEpoch s" for s sync bs
    using that by (auto simp: runRefresh_def auth_ok_reset)
qed (auto intro: auth_intros dest: parseBundle_wf)

lemma stale_run [simp]:
  "authEpoch c \<noteq> e \<Longrightarrow> run_begin (runRefresh e) a al c = (Finished (TransientError Superseded), c)"
  "authEpoch c \<noteq> e \<Longrightarrow> run_response (runRefresh e) a al r c = (Finished (TransientError Superseded), c)"
  "authEpoch c \<noteq> e \<Longrightarrow> run_delay (runRefresh e) a al c = (Finished (TransientError Superseded), c)"
  by (simp_all add: run_begin_def run_response_def run_delay_def)

section \<open>The invariant of the tab\<close>

lemma flight_ok_mono: "flight_ok e f \<Longrightarrow> e \<le> e' \<Longrightarrow> flight_ok e' f"
  by (auto simp: flight_ok_def)

lemma tab_ok_initial: "tab_ok (initial_tab l)"
  by (simp add: tab_ok_def initial_tab_def)

lemma tab_ok_client:
  "tab_ok t \<Longrightarrow> auth_ok (auth c) \<Longrightarrow> authEpoch (client t) \<le> authEpoch c \<Longrightarrow> tab_ok (t\<lparr>client := c\<rparr>)"
  by (auto simp: tab_ok_def intro: flight_ok_mono)

lemma tab_ok_update:
  assumes t: "tab_ok t" and i: "i < length (flights t)" and u: "unsettled (flights t ! i)"
    and f: "flight_ok (authEpoch c) f" and c: "auth_ok (auth c)" "authEpoch (client t) \<le> authEpoch c"
    and p: "refreshPromise t' = (if unsettled f then Some i else None)"
    and t': "client t' = c" "flights t' = (flights t)[i := f]"
  shows "tab_ok t'"
proof -
  have pi: "refreshPromise t = Some i" using t i u by (simp add: tab_ok_def)
  have "flight_ok (authEpoch c) g" if "g \<in> set (flights t')" for g
    using that t f c(2) set_update_subset_insert [of "flights t" i f] flight_ok_mono
    unfolding t' tab_ok_def by (metis in_mono insertE)
  moreover have "unsettled (flights t' ! j) \<longleftrightarrow> refreshPromise t' = Some j" if "j < length (flights t')" for j
  proof (cases "j = i")
    case True
    with i p t' show ?thesis by simp
  next
    case False
    have "j < length (flights t)" using that t' by simp
    with t have "unsettled (flights t ! j) \<longleftrightarrow> refreshPromise t = Some j" by (simp add: tab_ok_def)
    with False pi p t' show ?thesis by simp
  qed
  ultimately show ?thesis
    using c i p by (auto simp: tab_ok_def t' split: if_splits)
qed

lemma tab_ok_continue:
  assumes t: "tab_ok t" and i: "i < length (flights t)" and u: "unsettled (flights t ! i)"
    and c: "auth_ok (auth (snd r))" "authEpoch (client t) \<le> authEpoch (snd r)"
    and b: "sent (flights t ! i) + requests_of (fst r) + budget (fst r) \<le> 8" "delay_ok (fst r)"
  shows "tab_ok (continue_at i r t)"
proof -
  have "flights t ! i \<in> set (flights t)" using i by simp
  with t have "flight_epoch (flights t ! i) \<le> authEpoch (client t)"
    unfolding tab_ok_def flight_ok_def by blast
  then have "flight_ok (authEpoch (snd r)) ((flights t ! i)\<lparr>flight_pc := InRun (fst r),
      sent := sent (flights t ! i) + requests_of (fst r)\<rparr>)"
    using b c(2) by (simp add: flight_ok_def)
  moreover have "refreshPromise t = Some i" using t i u by (simp add: tab_ok_def)
  ultimately show ?thesis
    by (intro tab_ok_update [OF t i u _ c]) (simp_all add: continue_at_def unsettled_def)
qed

lemma flight_ok_nth: "tab_ok t \<Longrightarrow> i < length (flights t) \<Longrightarrow> flight_ok (authEpoch (client t)) (flights t ! i)"
  by (simp add: tab_ok_def)

lemma tab_auth_ok: "tab_ok t \<Longrightarrow> auth_ok (auth (client t))"
  by (simp add: tab_ok_def)

text \<open>Resuming a run that is suspended at \<open>pc\<close>, within the budget it has there.\<close>

lemma tab_ok_resume:
  assumes t: "tab_ok t" and i: "i < length (flights t)" and pc: "flight_pc (flights t ! i) = InRun pc"
    and k: "auth_ok (auth (snd r)) \<and> authEpoch (client t) \<le> authEpoch (snd r)"
    and b: "requests_of (fst r) + budget (fst r) \<le> budget pc" "delay_ok (fst r)"
  shows "tab_ok (continue_at i r t)"
proof (rule tab_ok_continue [OF t i])
  show "unsettled (flights t ! i)" by (simp add: unsettled_def pc)
  have "sent (flights t ! i) + budget pc \<le> 8"
    using flight_ok_nth [OF t i] by (simp add: flight_ok_def pc)
  with b(1) show "sent (flights t ! i) + requests_of (fst r) + budget (fst r) \<le> 8" by linarith
qed (use k b in auto)

lemma tab_ok_response: "tab_ok t \<Longrightarrow> i < length (flights t) \<Longrightarrow> tab_ok (response_arrives i res t)"
proof (cases "\<exists>a al e. flight_pc (flights t ! i) = InRun (AwaitResponse a al e)")
  case True
  then obtain a al e where pc: "flight_pc (flights t ! i) = InRun (AwaitResponse a al e)" by blast
  assume t: "tab_ok t" and i: "i < length (flights t)"
  have "tab_ok (continue_at i (run_response (runRefresh (flight_epoch (flights t ! i))) a al
      (requestRefresh res) (client t)) t)"
    by (intro tab_ok_resume [OF t i pc] rr.response_keeps run_response_budget delay_ok_run)
      (simp add: tab_auth_ok t)
  then show ?thesis by (simp add: response_arrives_def pc)
qed (auto simp: response_arrives_def split: flight_pc.splits run_pc.splits)

lemma tab_ok_delay: "tab_ok t \<Longrightarrow> i < length (flights t) \<Longrightarrow> tab_ok (delay_over i t)"
proof (cases "\<exists>d a al. flight_pc (flights t ! i) = InRun (AwaitDelay d a al)")
  case True
  then obtain d a al where pc: "flight_pc (flights t ! i) = InRun (AwaitDelay d a al)" by blast
  assume t: "tab_ok t" and i: "i < length (flights t)"
  have "a < 3" using flight_ok_nth [OF t i] by (simp add: flight_ok_def pc delay_ok_def)
  then have "tab_ok (continue_at i (run_delay (runRefresh (flight_epoch (flights t ! i))) a al (client t)) t)"
    by (intro tab_ok_resume [OF t i pc] rr.delay_keeps run_delay_budget delay_ok_run)
      (simp_all add: tab_auth_ok t)
  then show ?thesis by (simp add: delay_over_def pc)
qed (auto simp: delay_over_def split: flight_pc.splits run_pc.splits)

lemma tab_ok_start:
  assumes t: "tab_ok t" and i: "i < length (flights t)" and pc: "flight_pc (flights t ! i) = AwaitLock"
  shows "tab_ok (continue_at i (createRefreshRunner (runRefresh e) (client t)) t)"
proof (rule tab_ok_continue [OF t i])
  let ?r = "createRefreshRunner (runRefresh e) (client t)"
  have s: "sent (flights t ! i) = 0" using flight_ok_nth [OF t i] by (simp add: flight_ok_def pc)
  show "unsettled (flights t ! i)" by (simp add: unsettled_def pc)
  show "auth_ok (auth (snd ?r))" "authEpoch (client t) \<le> authEpoch (snd ?r)"
    using tab_auth_ok [OF t] by (simp_all add: createRefreshRunner_def run_begin_def)
  show "sent (flights t ! i) + requests_of (fst ?r) + budget (fst ?r) \<le> 8"
    using s run_begin_budget [of 0 "runRefresh e" True "client t"] by (simp add: createRefreshRunner_def)
  show "delay_ok (fst ?r)" by (simp add: createRefreshRunner_def delay_ok_run)
qed

lemma tab_ok_lock_granted: "tab_ok t \<Longrightarrow> i < length (flights t) \<Longrightarrow> tab_ok (lock_granted i t)"
  by (auto simp: lock_granted_def tab_ok_start split: flight_pc.splits)

lemma tab_ok_lock_rejected: "tab_ok t \<Longrightarrow> i < length (flights t) \<Longrightarrow> tab_ok (lock_rejected i t)"
proof (cases "flight_pc (flights t ! i) = AwaitLock")
  case True
  assume t: "tab_ok t" and i: "i < length (flights t)"
  let ?f = "(flights t ! i)\<lparr>flight_pc := LockRejected\<rparr>"
  have u: "unsettled (flights t ! i)" by (simp add: unsettled_def True)
  then have "refreshPromise t = Some i" using t i by (simp add: tab_ok_def)
  moreover have "flight_ok (authEpoch (client t)) ?f"
    using flight_ok_nth [OF t i] by (simp add: flight_ok_def True)
  ultimately show ?thesis
    by (intro tab_ok_update [OF t i u _ tab_auth_ok [OF t] order_refl])
      (simp_all add: lock_rejected_def True unsettled_def)
qed (auto simp: lock_rejected_def split: flight_pc.splits)

lemma tab_ok_settle: "tab_ok t \<Longrightarrow> i < length (flights t) \<Longrightarrow> tab_ok (settle i t)"
proof (cases "(\<exists>out. flight_pc (flights t ! i) = InRun (Finished out)) \<or> flight_pc (flights t ! i) = LockRejected")
  case True
  assume t: "tab_ok t" and i: "i < length (flights t)"
  from True have u: "unsettled (flights t ! i)" by (auto simp: unsettled_def)
  from True obtain out where st: "settle i t = t\<lparr>refreshPromise := None,
      flights := (flights t)[i := (flights t ! i)\<lparr>flight_pc := Settled out\<rparr>]\<rparr>"
    by (auto simp: settle_def Let_def)
  have "flight_ok (authEpoch (client t)) ((flights t ! i)\<lparr>flight_pc := Settled out\<rparr>)"
    using flight_ok_nth [OF t i] True by (auto simp: flight_ok_def)
  then show ?thesis
    unfolding st by (intro tab_ok_update [OF t i u _ tab_auth_ok [OF t] order_refl]) (simp_all add: unsettled_def)
qed (auto simp: settle_def Let_def split: flight_pc.splits run_pc.splits)

lemma tab_ok_refresh: "tab_ok t \<Longrightarrow> tab_ok (snd (refreshAuthentication t))"
proof (cases "refreshPromise t")
  case None
  assume t: "tab_ok t"
  let ?n = "length (flights t)" and ?e = "authEpoch (client t)"
  let ?t1 = "t\<lparr>flights := flights t @ [\<lparr>flight_epoch = ?e, flight_pc = AwaitLock, sent = 0\<rparr>],
    refreshPromise := Some ?n\<rparr>"
  have t1: "tab_ok ?t1"
    using t None by (auto simp: tab_ok_def flight_ok_def unsettled_def nth_append less_Suc_eq)
  have "tab_ok (continue_at ?n (createRefreshRunner (runRefresh ?e) (client ?t1)) ?t1)"
    by (rule tab_ok_start [OF t1]) simp_all
  with t1 None show ?thesis
    by (cases t; cases "hasLocks t") (simp_all add: refreshAuthentication_def performRefreshWithBrowserLock_def continue_at_def Let_def)
qed (simp add: refreshAuthentication_def)

lemma map_auth_ok: "auth_ok (auth c) \<Longrightarrow> (\<And>a. auth_ok a \<Longrightarrow> auth_ok (f a)) \<Longrightarrow> auth_ok (auth (map_auth f c))"
  by simp

lemma on_sync_event_simps:
  "auth_ok (auth c) \<Longrightarrow> auth_ok (auth (fst (on_sync_event e c)))"
  "authEpoch c \<le> authEpoch (fst (on_sync_event e c))"
  by (auto simp: on_sync_event_def Let_def intro: auth_intros split: sync_kind.splits option.splits)

lemma tab_ok_bootstrap: "tab_ok t \<Longrightarrow> tab_ok (snd (bootstrapAuthentication now t))"
proof -
  assume t: "tab_ok t"
  have s: "tab_ok (t\<lparr>client := map_auth (setBootstrapState b) (client t)\<rparr>)" for b
    by (rule tab_ok_client [OF t]) (simp_all add: auth_intros tab_auth_ok t)
  show ?thesis
    using t s tab_ok_refresh [OF s]
    by (simp add: bootstrapAuthentication_def Let_def split: option.splits prod.splits) (metis snd_conv)
qed

lemma tab_ok_fresh: "tab_ok t \<Longrightarrow> tab_ok (snd (getFreshAuthHeaders now t))"
  using tab_ok_refresh [of t] by (auto simp: getFreshAuthHeaders_def Let_def split: prod.splits)

lemma epoch_refresh: "authEpoch (client (snd (refreshAuthentication t))) = authEpoch (client t)"
  by (simp add: refreshAuthentication_def performRefreshWithBrowserLock_def continue_at_def
      createRefreshRunner_def run_begin_def Let_def split: option.splits)

lemma epoch_bootstrap: "authEpoch (client (snd (bootstrapAuthentication now t))) = authEpoch (client t)"
  using epoch_refresh [of "t\<lparr>client := map_auth (setBootstrapState Checking) (client t)\<rparr>"]
  by (auto simp: bootstrapAuthentication_def Let_def split: option.splits prod.splits)

lemma epoch_fresh: "authEpoch (client (snd (getFreshAuthHeaders now t))) = authEpoch (client t)"
  using epoch_refresh [of t] by (auto simp: getFreshAuthHeaders_def Let_def split: prod.splits)

lemma epoch_flight_events:
  assumes "tab_ok t"
  shows "authEpoch (client t) \<le> authEpoch (client (response_arrives i res t))"
    and "authEpoch (client t) \<le> authEpoch (client (delay_over i t))"
    and "authEpoch (client t) \<le> authEpoch (client (lock_granted i t))"
    and "authEpoch (client (lock_rejected i t)) = authEpoch (client t)"
    and "authEpoch (client (settle i t)) = authEpoch (client t)"
  using assms rr.response_keeps [of "client t" "authEpoch (client t)"]
    rr.delay_keeps [of "client t" "authEpoch (client t)"]
  by (auto simp: response_arrives_def delay_over_def lock_granted_def lock_rejected_def settle_def
      continue_at_def createRefreshRunner_def run_begin_def tab_auth_ok Let_def
      split: flight_pc.splits run_pc.splits)

lemma tab_step_ok:
  assumes "tab_ok t" "tab_step t t'" shows "tab_ok t' \<and> authEpoch (client t) \<le> authEpoch (client t')"
  using assms(2,1)
proof cases
  case (sign_in v)
  with assms(1) show ?thesis by (auto intro!: tab_ok_client auth_intros wf_as_bundle)
next
  case (rotate_token v c)
  from rotate_token(2) obtain b where b: "c = applyAuthBundle b False (client t)" "wf_bundle b"
    by (rule applyAuthRotation_Inr)
  with rotate_token assms(1) show ?thesis by (auto intro!: tab_ok_client auth_intros)
next
  case (sign_out sync bs)
  with assms(1) show ?thesis by (auto intro!: tab_ok_client auth_intros)
next
  case (update_user u)
  with assms(1) show ?thesis by (auto intro!: tab_ok_client auth_intros tab_auth_ok)
next
  case (update_2fa f)
  with assms(1) show ?thesis by (auto intro!: tab_ok_client auth_intros tab_auth_ok)
next
  case (other_tab e)
  with assms(1) show ?thesis by (auto intro!: tab_ok_client on_sync_event_simps tab_auth_ok)
qed (auto simp: assms(1) tab_ok_bootstrap tab_ok_refresh tab_ok_fresh tab_ok_lock_granted tab_ok_lock_rejected
    tab_ok_response tab_ok_delay tab_ok_settle epoch_bootstrap epoch_refresh epoch_fresh epoch_flight_events)

text \<open>
  The guard of the refresh: a tab is a transition system that keeps \<open>tab_ok\<close>, its epoch never
  decreases, and code of a run that was started in another epoch does not touch the session.
\<close>

datatype run_event = GotResponse nat bool AuthRefreshHTTPResponse | DelayOver nat bool | LockGranted

fun run_callback :: "nat \<Rightarrow> run_event \<Rightarrow> tab \<Rightarrow> tab" where
  "run_callback g (GotResponse a al r) t = t\<lparr>client := snd (run_response (runRefresh g) a al r (client t))\<rparr>"
| "run_callback g (DelayOver a al) t = t\<lparr>client := snd (run_delay (runRefresh g) a al (client t))\<rparr>"
| "run_callback g LockGranted t = t\<lparr>client := snd (createRefreshRunner (runRefresh g) (client t))\<rparr>"

interpretation tg: epoch_guard tab_step tab_ok "\<lambda>t. authEpoch (client t)" run_callback client
proof unfold_locales
  show "client (run_callback g e s) = client s" if "g \<noteq> authEpoch (client s)" for g e s
    using that by (cases e) (simp_all add: createRefreshRunner_def)
qed (simp_all add: tab_step_ok)

section \<open>Flights keep the epoch they were started in\<close>

lemma flight_epoch_update [simp]:
  "j < length fs \<Longrightarrow> flight_epoch f = flight_epoch (fs ! i) \<Longrightarrow>
     flight_epoch (fs[i := f] ! j) = flight_epoch (fs ! j)"
  by (cases "i = j") simp_all

lemma flight_epoch_continue:
  "j < length (flights t) \<Longrightarrow> j < length (flights (continue_at i r t)) \<and>
     flight_epoch (flights (continue_at i r t) ! j) = flight_epoch (flights t ! j)"
  by (simp add: continue_at_def)

lemma flight_epoch_refresh:
  "j < length (flights t) \<Longrightarrow> j < length (flights (snd (refreshAuthentication t))) \<and>
     flight_epoch (flights (snd (refreshAuthentication t)) ! j) = flight_epoch (flights t ! j)"
  by (simp add: refreshAuthentication_def performRefreshWithBrowserLock_def continue_at_def Let_def
      nth_list_update nth_append split: option.splits)

lemma flight_epoch_bootstrap:
  "j < length (flights t) \<Longrightarrow> j < length (flights (snd (bootstrapAuthentication now t))) \<and>
     flight_epoch (flights (snd (bootstrapAuthentication now t)) ! j) = flight_epoch (flights t ! j)"
  using flight_epoch_refresh [of j "t\<lparr>client := map_auth (setBootstrapState Checking) (client t)\<rparr>"]
  by (auto simp: bootstrapAuthentication_def Let_def split: option.splits prod.splits)

lemma flight_epoch_fresh:
  "j < length (flights t) \<Longrightarrow> j < length (flights (snd (getFreshAuthHeaders now t))) \<and>
     flight_epoch (flights (snd (getFreshAuthHeaders now t)) ! j) = flight_epoch (flights t ! j)"
  using flight_epoch_refresh [of j t] by (auto simp: getFreshAuthHeaders_def Let_def split: prod.splits)

lemma flight_epoch_step:
  assumes "tab_step t t'" "j < length (flights t)"
  shows "j < length (flights t') \<and> flight_epoch (flights t' ! j) = flight_epoch (flights t ! j)"
  using assms
  by cases (auto simp: flight_epoch_bootstrap flight_epoch_refresh flight_epoch_fresh lock_granted_def
      lock_rejected_def response_arrives_def delay_over_def settle_def flight_epoch_continue Let_def
      split: flight_pc.splits run_pc.splits)

lemma flight_epoch_reach:
  "reach tab_step t t' \<Longrightarrow> j < length (flights t) \<Longrightarrow>
     j < length (flights t') \<and> flight_epoch (flights t' ! j) = flight_epoch (flights t ! j)"
proof (induction rule: reach.induct)
  case (reach_step s s')
  then show ?case using flight_epoch_step by metis
qed simp

lemma reachable_ok: "reach tab_step (initial_tab l) t \<Longrightarrow> tab_ok t"
  using tg.reach_good tab_ok_initial by blast

lemma flight_event_client:
  "client (response_arrives i res t) = client t \<or>
     (\<exists>a al. client (response_arrives i res t) =
        client (run_callback (flight_epoch (flights t ! i)) (GotResponse a al (requestRefresh res)) t))"
  "client (delay_over i t) = client t \<or>
     (\<exists>a al. client (delay_over i t) = client (run_callback (flight_epoch (flights t ! i)) (DelayOver a al) t))"
  "client (lock_granted i t) = client t \<or>
     client (lock_granted i t) = client (run_callback (flight_epoch (flights t ! i)) LockGranted t)"
  by (auto simp: response_arrives_def delay_over_def lock_granted_def continue_at_def
      split: flight_pc.splits run_pc.splits)

text \<open>
  C1. A refresh that was overtaken by a sign-in, a sign-out or a token rotation can never touch
  the session again: once its epoch is behind, no answer of the server, no timer and no lock grant
  that arrives for it, however much later, changes the store, the epoch or what is published.
\<close>

theorem superseded_refresh_is_inert:
  assumes "reach tab_step (initial_tab l) t" "i < length (flights t)"
    "flight_epoch (flights t ! i) < authEpoch (client t)" "reach tab_step t t'"
  shows "client (response_arrives i res t') = client t' \<and> client (delay_over i t') = client t' \<and>
    client (lock_granted i t') = client t'"
proof -
  have "tab_ok t" using assms(1) by (rule reachable_ok)
  moreover have "flight_epoch (flights t' ! i) = flight_epoch (flights t ! i)"
    using flight_epoch_reach [OF assms(4,2)] by blast
  ultimately have "client (run_callback (flight_epoch (flights t' ! i)) e t') = client t'" for e
    using tg.superseded_forever [OF _ assms(3,4)] by simp
  with flight_event_client show ?thesis by metis
qed

text \<open>
  C2. At any time at most one refresh of the tab is not settled, and a refresh makes at most eight
  requests, however the answers of the server and everything else in the tab interleave.
\<close>

theorem refresh_single_flight:
  assumes "reach tab_step (initial_tab l) t" "i < length (flights t)" "j < length (flights t)"
  shows "(unsettled (flights t ! i) \<and> unsettled (flights t ! j) \<longrightarrow> i = j) \<and> sent (flights t ! i) \<le> 8"
proof
  have ok: "tab_ok t" using assms(1) by (rule reachable_ok)
  then show "unsettled (flights t ! i) \<and> unsettled (flights t ! j) \<longrightarrow> i = j"
    using assms(2,3) by (auto simp: tab_ok_def)
  show "sent (flights t ! i) \<le> 8"
    using flight_ok_nth [OF ok assms(2)] by (auto simp: flight_ok_def split: flight_pc.splits)
qed


text \<open>
  C4. The runner always comes to an end: for every runtime and whatever happens between its
  suspension points, eight answers of the server are enough to produce an outcome.
\<close>

theorem refresh_runner_finishes:
  assumes "8 \<le> length rs"
  shows "\<exists>out s'. drive rt rs (createRefreshRunner rt s) = (Finished out, s')"
proof -
  obtain pc s1 where b: "createRefreshRunner rt s = (pc, s1)" by (cases "createRefreshRunner rt s")
  then have "case pc of AwaitResponse a al e \<Rightarrow> a \<le> 3 \<and> budget pc < length rs | AwaitDelay _ _ _ \<Rightarrow> False
      | Finished _ \<Rightarrow> True"
    using assms by (auto simp: createRefreshRunner_def run_begin_def split: if_splits)
  from drive_finishes [OF this] b show ?thesis by simp
qed

text \<open>What an outcome says about the session it leaves, compared with the one before.\<close>

fun outcome_spec :: "RefreshOutcome \<Rightarrow> client \<Rightarrow> client \<Rightarrow> bool" where
  "outcome_spec (Authenticated b) c c' \<longleftrightarrow> auth c' = setBundle b (auth c) \<and> wf_bundle b \<and> outbox c' = outbox c"
| "outcome_spec Anonymous c c' \<longleftrightarrow> auth c' = reset_auth Complete (auth c) \<and>
     outbox c' = outbox c @ (case session_sid (auth c) of Some s \<Rightarrow> [(KSignedOut, s)] | None \<Rightarrow> [])"
| "outcome_spec (TransientError Superseded) c c' \<longleftrightarrow> c' = c"
| "outcome_spec (TransientError (ErrorValue _)) c c' \<longleftrightarrow> c' = map_auth (setBootstrapState Idle) c"
| "outcome_spec (OutOfSync _) c c' \<longleftrightarrow> auth c' = reset_auth Complete (auth c) \<and> outbox c' = outbox c"

text \<open>
  C21. The outcome of a refresh is true of the store it leaves: authenticated means the accepted
  bundle is the session; anonymous means the session is gone and its end was published to the other
  tabs; a transient error kept the session and only reopened the bootstrap; out of sync means the
  session was dropped without telling the other tabs.
\<close>

theorem refresh_outcome_correct:
  assumes "auth_ok (auth c)" "run_response (runRefresh e) a al r c = (Finished out, c')"
  shows "outcome_spec out c c'"
proof (cases "authEpoch c = e")
  case False
  with assms show ?thesis by auto
next
  case True
  then have nb: "run_begin (runRefresh e) 0 False (map_auth (reset_auth Idle) c) =
      (AwaitResponse 0 False None, map_auth (reset_auth Idle) c)"
    by (simp add: run_begin_def)
  have cl: "outbox (clearAuthentication False Complete c) = outbox c"
    using outbox_clearAuthentication [OF assms(1)] by (simp split: option.splits)
  have out: "outbox (clearAuthentication True Complete c) =
      outbox c @ (case session_sid (auth c) of Some s \<Rightarrow> [(KSignedOut, s)] | None \<Rightarrow> [])"
    using outbox_clearAuthentication [OF assms(1)] by (simp split: option.splits)
  have wf: "wf_bundle b" if "response_bundle (runRefresh e) r = Some b" for b
    using that parseBundle_wf by (auto simp: response_bundle_def split: if_splits)
  show ?thesis
    using assms(2) True wf
    by (auto simp: run_response_def nb cl out outbox_applyAuthBundle split: option.splits if_splits)
qed

text \<open>
  C22. Signing out in one tab signs out exactly the tabs that hold the same session.  The event that
  the first tab publishes, received by another tab over either transport within a minute, clears
  that tab if its session is the one that ended, sends it to the sign-in page, and publishes
  nothing further; a tab with another session or without one is left exactly as it is.
\<close>

theorem sign_out_reaches_same_session:
  assumes "auth_ok (auth c)" "session_sid (auth c) = Some s" "auth_ok (auth d)"
    and "has_window env" "has_broadcast env \<or> storage_available env"
    and "unit16 s" "unit16 source" "unit16 nonce" "safe_int t" "own \<noteq> source" "\<bar>now - of_int t\<bar> < 60000"
  shows "outbox (clearAuthentication True Complete c) = outbox c @ [(KSignedOut, s)] \<and>
    (\<exists>e. List.map_filter (receive own now) (publishAuthSessionEvent env source nonce (num_int t) KSignedOut s) = [e] \<and>
       on_sync_event e d =
         (if session_sid (auth d) = Some s then (clearAuthentication False Complete d, [GoToSignIn]) else (d, [])) \<and>
       outbox (fst (on_sync_event e d)) = outbox d)"
proof -
  let ?e = "\<lparr>ev_kind = KSignedOut, ev_sid = s, ev_source = source, ev_nonce = nonce, ev_timestamp = num_int t\<rparr>"
  have s: "s \<noteq> []" using assms(1,2) session_sid_nonempty by blast
  have env: "List.map_filter (receive own now)
      (publishAuthSessionEvent env source nonce (num_int t) KSignedOut s) = [?e]"
    using receive_published [of env s source nonce t own now KSignedOut] assms s by simp
  have ev: "on_sync_event ?e d =
      (if session_sid (auth d) = Some s then (clearAuthentication False Complete d, [GoToSignIn]) else (d, []))"
    using s by (simp add: on_sync_event_def split: option.splits)
  have "outbox (clearAuthentication False Complete d) = outbox d"
    using outbox_clearAuthentication [OF assms(3)] by (simp split: option.splits)
  with env ev show ?thesis
    using outbox_clearAuthentication [OF assms(1), of True Complete] assms(2) by auto
qed

text \<open>
  A token rotation is applied exactly when it is a valid rotation of the session that the tab
  holds.  It then replaces the token and the session data, keeps the user and the session's
  identity, starts a new epoch and tells no other tab; in every other case it is an error and
  changes nothing.
\<close>

theorem applyAuthRotation_same_session:
  assumes "auth_ok (auth c)" "\<forall>u. user (auth c) = Some u \<longrightarrow> truthy u"
  shows "((\<exists>c'. applyAuthRotation v c = Inr c') \<longleftrightarrow>
       isAuthTokenRotation v \<and> session_sid (auth c) = Some (sid (as_session (get_prop v (js ''session''))))) \<and>
    (\<forall>c'. applyAuthRotation v c = Inr c' \<longrightarrow>
       session_sid (auth c') = session_sid (auth c) \<and> user (auth c') = user (auth c) \<and>
       accessToken (auth c') = Some (str_field v ''access_token'') \<and>
       authEpoch c' = authEpoch c + 1 \<and> outbox c' = outbox c)"
proof (cases "session (auth c)")
  case None
  then show ?thesis by (auto simp: applyAuthRotation_def session_sid_def split: option.splits)
next
  case (Some s)
  then obtain u where u: "user (auth c) = Some u" using assms(1) by (auto simp: auth_ok_def)
  then have tu: "truthy u" using assms(2) by blast
  have e: "applyAuthRotation v c = (if \<not> isAuthTokenRotation v then Inl InvalidRotationResponse
      else if sid (as_session (get_prop v (js ''session''))) \<noteq> sid s then Inl RotationSessionMismatch
      else Inr (applyAuthBundle
        \<lparr>access_token = str_field v ''access_token'', token_type = str_field v ''token_type'',
         access_expires_at = num_field v ''access_expires_at'', bundle_user = u,
         bundle_session = as_session (get_prop v (js ''session''))\<rparr> False c))"
    using Some u tu by (simp add: applyAuthRotation_def Let_def)
  show ?thesis
    unfolding e using Some u
    by (auto simp: session_sid_def setBundle_def) (simp add: applyAuthBundle_def)
qed

lemma getCommonHeaders_token:
  "accessToken a = Some t \<Longrightarrow> t \<noteq> [] \<Longrightarrow>
     getCommonHeaders a = [(js ''Content-Type'', js ''application/json''), (js ''Authorization'', js ''Bearer '' @ t)]"
  by (simp add: getCommonHeaders_def)

lemma token_untilE:
  "token_until a b \<Longrightarrow> (\<And>t n. accessToken a = Some t \<Longrightarrow> t \<noteq> [] \<Longrightarrow> accessExpiresAt a = Some n \<Longrightarrow>
     later_than n b \<Longrightarrow> P) \<Longrightarrow> P"
  by (auto simp: token_until_def split: option.splits)


section \<open>Sample runs\<close>

definition sample_session :: "jstring \<Rightarrow> jsval" where
  "sample_session i = JObj [(js ''sid'', JStr i), (js ''current'', JBool True),
     (js ''login_method'', JStr (js ''password'')), (js ''ip'', JStr (js ''::1'')),
     (js ''user_agent'', JStr (js ''ua'')), (js ''created_at'', JNum (Num 1)),
     (js ''last_active_at'', JNum (Num 1)), (js ''expires_at'', JNum (Num 9))]"

definition sample_user :: jsval where
  "sample_user = JObj [(js ''id'', JNum (Num 7)), (js ''username'', JStr (js ''u'')), (js ''role'', JNum (Num 1))]"

definition sample_bundle :: "jstring \<Rightarrow> jsval" where
  "sample_bundle i = JObj [(js ''access_token'', JStr (js ''tok'')), (js ''token_type'', JStr (js ''Bearer'')),
     (js ''access_expires_at'', JNum (Num 2)), (js ''user'', sample_user), (js ''session'', sample_session i)]"

lemmas sample_defs = sample_session_def sample_user_def sample_bundle_def

lemma sample_bundle_ok [simp]: "i \<noteq> [] \<Longrightarrow> isAuthBundle (sample_bundle i)"
  by (simp add: sample_defs isAuthBundle_def isRecord_def hasValidTokenFields_def isAuthUser_def
      isLoginSession_def nonempty_string_def positive_finite_def is_integer_num_def num_gt0_def
      is_finite_num_def is_boolean_def is_object_def)

lemma sample_rotation_ok: "isAuthTokenRotation (sample_bundle (js ''s1''))"
  by (simp add: sample_defs isAuthTokenRotation_def isRecord_def hasValidTokenFields_def
      isLoginSession_def nonempty_string_def positive_finite_def num_gt0_def
      is_finite_num_def is_boolean_def is_object_def)

lemma as_bundle_sample: "as_bundle (sample_bundle i) =
    \<lparr>access_token = js ''tok'', token_type = js ''Bearer'', access_expires_at = Num 2,
     bundle_user = sample_user, bundle_session = as_session (sample_session i)\<rparr>"
  by (simp add: as_bundle_def sample_bundle_def str_field_def num_field_def)

lemma sid_sample [simp]: "sid (as_session (sample_session i)) = i"
  by (simp add: as_session_def sample_session_def str_field_def)

text \<open>A refresh is started, and the user signs in while it is in progress.\<close>

definition overtaken_tab :: tab where
  "overtaken_tab =
     (let t = snd (refreshAuthentication (initial_tab False))
      in t\<lparr>client := applyAuthBundle (as_bundle (sample_bundle (js ''s1''))) True (client t)\<rparr>)"

lemma overtaken_tab_eq: "overtaken_tab =
  \<lparr>client = \<lparr>auth = setBundle (as_bundle (sample_bundle (js ''s1''))) initial_auth, authEpoch = 1,
     outbox = [(KAuthenticated, js ''s1'')]\<rparr>,
   refreshPromise = Some 0,
   flights = [\<lparr>flight_epoch = 0, flight_pc = InRun (AwaitResponse 0 True None), sent = 1\<rparr>],
   hasLocks = False\<rparr>"
  by (simp add: overtaken_tab_def refreshAuthentication_def performRefreshWithBrowserLock_def initial_tab_def
      continue_at_def createRefreshRunner_def run_begin_def requests_of_def applyAuthBundle_def publish_def
      as_bundle_sample)

lemma reach_overtaken: "reach tab_step (initial_tab False) overtaken_tab"
proof -
  have "reach tab_step (initial_tab False) (snd (refreshAuthentication (initial_tab False)))"
    by (rule reach_one) (rule tab_step.refresh)
  then show ?thesis
    unfolding overtaken_tab_def Let_def by (rule reach_step) (rule tab_step.sign_in, simp)
qed

theorem superseded_refresh_is_inert_witness:
  "client (response_arrives 0 (HttpOk 401 JUndef) overtaken_tab) = client overtaken_tab \<and>
   session_sid (auth (client overtaken_tab)) = Some (js ''s1'')"
  using superseded_refresh_is_inert [OF reach_overtaken _ _ reach_refl, of 0 "HttpOk 401 JUndef"]
  by (simp add: overtaken_tab_eq as_bundle_sample)

theorem refresh_single_flight_witness:
  "sent (flights overtaken_tab ! 0) = 1 \<and> sent (flights overtaken_tab ! 0) \<le> 8"
  using refresh_single_flight [OF reach_overtaken, of 0 0] by (simp add: overtaken_tab_eq)


theorem refresh_runner_finishes_witness:
  "\<exists>out s'. drive (runRefresh 0) (replicate 8 (id, requestRefresh (HttpOk 409 (JObj [(js ''code'',
     JStr (js ''AUTH_REFRESH_RACE''))])), id)) (createRefreshRunner (runRefresh 0) (client (initial_tab False))) =
     (Finished out, s')"
  by (rule refresh_runner_finishes) simp

theorem refresh_outcome_correct_witness:
  "outcome_spec Anonymous (client overtaken_tab)
     (clearAuthentication True Complete (client overtaken_tab))"
proof -
  have "auth_ok (auth (client overtaken_tab))"
    using reachable_ok [OF reach_overtaken] by (rule tab_auth_ok)
  moreover have "run_response (runRefresh 1) 0 True (requestRefresh (HttpOk 401 JUndef)) (client overtaken_tab) =
      (Finished Anonymous, clearAuthentication True Complete (client overtaken_tab))"
    by (simp add: run_response_def response_bundle_def response_record_def isRecord_def requestRefresh_def
        overtaken_tab_eq)
  ultimately show ?thesis by (rule refresh_outcome_correct)
qed

theorem sign_out_reaches_same_session_witness:
  "\<exists>e. on_sync_event e (client overtaken_tab) =
         (clearAuthentication False Complete (client overtaken_tab), [GoToSignIn])"
proof -
  let ?c = "client overtaken_tab"
  have "auth_ok (auth ?c)" using reachable_ok [OF reach_overtaken] by (rule tab_auth_ok)
  moreover have "session_sid (auth ?c) = Some (js ''s1'')" by (simp add: overtaken_tab_eq as_bundle_sample)
  ultimately show ?thesis
    using sign_out_reaches_same_session [of ?c "js ''s1''" ?c
        "\<lparr>has_window = True, has_broadcast = True, storage_available = False\<rparr>" "js ''a''" "js ''n''" 1 "js ''b''" 2]
    by (auto simp: unit16_def js_Cons safe_int_def)
qed

theorem applyAuthRotation_same_session_witness:
  "\<exists>c'. applyAuthRotation (sample_bundle (js ''s1'')) (client overtaken_tab) = Inr c'"
proof -
  let ?c = "client overtaken_tab"
  have "auth_ok (auth ?c)" using reachable_ok [OF reach_overtaken] by (rule tab_auth_ok)
  moreover have "\<forall>u. user (auth ?c) = Some u \<longrightarrow> truthy u"
    by (simp add: overtaken_tab_eq as_bundle_sample setBundle_def sample_user_def)
  moreover have "session_sid (auth ?c) =
      Some (sid (as_session (get_prop (sample_bundle (js ''s1'')) (js ''session''))))"
    by (simp add: overtaken_tab_eq as_bundle_sample) (simp add: sample_bundle_def)
  ultimately show ?thesis
    using applyAuthRotation_same_session [of ?c "sample_bundle (js ''s1'')"] sample_rotation_ok by blast
qed


text \<open>
  C26. The bootstrap state can stay at \<open>checking\<close> with no refresh in progress: a bootstrap that
  finds an expired session joins a refresh that a sign-in has overtaken already, and the superseded
  run ends without touching the state it was asked to settle.
\<close>

theorem bootstrap_can_stay_checking:
  "\<exists>t. reach tab_step (initial_tab False) t \<and> refreshPromise t = None \<and>
     list_all (\<lambda>f. \<not> unsettled f) (flights t) \<and> bootstrapState (auth (client t)) = Checking \<and>
     session_sid (auth (client t)) \<noteq> None"
proof -
  let ?t1 = "snd (bootstrapAuthentication 5000 overtaken_tab)"
  let ?t2 = "response_arrives 0 (HttpOk 401 JUndef) ?t1"
  let ?t3 = "settle 0 ?t2"
  have t1: "?t1 = overtaken_tab\<lparr>client := map_auth (setBootstrapState Checking) (client overtaken_tab)\<rparr>"
    by (simp add: bootstrapAuthentication_def overtaken_tab_eq currentValidAuthBundle_def setBundle_def
        as_bundle_sample sample_user_def refreshAuthentication_def Let_def)
  have t3: "?t3 = \<lparr>client = map_auth (setBootstrapState Checking) (client overtaken_tab), refreshPromise = None,
      flights = [\<lparr>flight_epoch = 0, flight_pc = Settled (Some (TransientError Superseded)), sent = 1\<rparr>],
      hasLocks = False\<rparr>"
    unfolding t1 by (simp add: overtaken_tab_eq response_arrives_def settle_def continue_at_def requests_of_def Let_def)
  have l1: "0 < length (flights ?t1)" unfolding t1 by (simp add: overtaken_tab_eq)
  have l2: "0 < length (flights ?t2)"
    unfolding t1 by (simp add: overtaken_tab_eq response_arrives_def continue_at_def)
  from reach_overtaken have "reach tab_step (initial_tab False) ?t1"
    by (rule reach_step) (rule tab_step.bootstrap)
  then have "reach tab_step (initial_tab False) ?t2"
    by (rule reach_step) (rule tab_step.answer [OF l1])
  then have "reach tab_step (initial_tab False) ?t3"
    by (rule reach_step) (rule tab_step.finally_handler [OF l2])
  moreover have "bootstrapState (auth (client ?t3)) = Checking"
    "session_sid (auth (client ?t3)) \<noteq> None"
    unfolding t3 by (simp_all add: setBootstrapState_def session_sid_def overtaken_tab_eq setBundle_def)
  moreover have "refreshPromise ?t3 = None" "list_all (\<lambda>f. \<not> unsettled f) (flights ?t3)"
    unfolding t3 by (simp_all add: unsettled_def)
  ultimately show ?thesis by blast
qed

end
