(* ===== verification/Playground_Messages.thy ===== *)
theory Playground_Messages
  imports JS_Json
begin

text \<open>
  The messages of the playground (\<open>web/src/features/playground/types.ts\<close>, \<open>constants.ts\<close> and
  \<open>lib/message\<close>): creating them, their timing, separating \<open><think>\<close> reasoning from the visible
  text, applying streamed chunks, finalizing, and repairing messages loaded from storage.

  Times are milliseconds of the clock; the clock's reading, fresh identifiers and the translation
  function are arguments.
\<close>

section \<open>Types and constants\<close>

datatype MessageRole = User | Assistant | System

datatype MessageStatus = Loading | Streaming | StatusComplete | StatusError

record MessageVersion =
  version_id :: jstring
  content :: jstring

record MessageReasoning =
  r_content :: jstring
  r_duration :: int
  r_startedAt :: "int option"
  r_completedAt :: "int option"
  r_durationMs :: "int option"

record Message =
  key :: jstring
  sender :: MessageRole
  versions :: "MessageVersion list"
  createdAt :: "int option"
  startedAt :: "int option"
  completedAt :: "int option"
  durationMs :: "int option"
  sources :: "(jstring \<times> jstring) list option"
  reasoning :: "MessageReasoning option"
  isReasoningStreaming :: bool
  isReasoningComplete :: bool
  isContentComplete :: bool
  msg_status :: "MessageStatus option"
  errorCode :: "jstring option"

definition API_REQUEST_ERROR :: jstring where
  "API_REQUEST_ERROR = js ''Request error occurred''"

definition PARSE_ERROR :: jstring where
  "PARSE_ERROR = js ''Error parsing response data''"

definition STREAM_START_ERROR :: jstring where
  "STREAM_START_ERROR = js ''Error establishing connection''"

definition CONNECTION_CLOSED :: jstring where
  "CONNECTION_CLOSED = js ''Connection closed''"

definition INTERRUPTED :: jstring where
  "INTERRUPTED = js ''Generation was interrupted''"

definition ERROR_MESSAGES :: "jstring list" where
  "ERROR_MESSAGES = [API_REQUEST_ERROR, js ''Network connection failed or server not responding'',
     PARSE_ERROR, STREAM_START_ERROR, CONNECTION_CLOSED, INTERRUPTED]"

section \<open>Message utilities\<close>

definition createMessageVersion :: "jstring \<Rightarrow> jstring \<Rightarrow> MessageVersion" where
  "createMessageVersion nanoid c = \<lparr>version_id = nanoid, content = c\<rparr>"

definition getCurrentVersion :: "Message \<Rightarrow> MessageVersion" where
  "getCurrentVersion message = (case versions message of v # _ \<Rightarrow> v
     | [] \<Rightarrow> \<lparr>version_id = js ''default'', content = []\<rparr>)"

definition getMessageContent :: "Message \<Rightarrow> jstring" where
  "getMessageContent message = content (getCurrentVersion message)"

definition hasMessageContent :: "Message \<Rightarrow> bool" where
  "hasMessageContent message \<longleftrightarrow> js_trim (getMessageContent message) \<noteq> []"

definition updateCurrentVersionContent :: "Message \<Rightarrow> jstring \<Rightarrow> Message" where
  "updateCurrentVersionContent message c =
     message\<lparr>versions := [(getCurrentVersion message)\<lparr>content := c\<rparr>]\<rparr>"

definition createUserMessage :: "jstring \<Rightarrow> jstring \<Rightarrow> jstring \<Rightarrow> int \<Rightarrow> Message" where
  "createUserMessage nanoid1 nanoid2 c now =
     \<lparr>key = nanoid1, sender = User, versions = [createMessageVersion nanoid2 c], createdAt = Some now,
      startedAt = None, completedAt = None, durationMs = None, sources = None, reasoning = None,
      isReasoningStreaming = False, isReasoningComplete = False, isContentComplete = False,
      msg_status = None, errorCode = None\<rparr>"

definition createLoadingAssistantMessage :: "jstring \<Rightarrow> jstring \<Rightarrow> int \<Rightarrow> Message" where
  "createLoadingAssistantMessage nanoid1 nanoid2 now =
     \<lparr>key = nanoid1, sender = Assistant, versions = [createMessageVersion nanoid2 []],
      createdAt = Some now, startedAt = Some now, completedAt = None, durationMs = None,
      sources = None, reasoning = None, isReasoningStreaming = False, isReasoningComplete = False,
      isContentComplete = False, msg_status = Some Loading, errorCode = None\<rparr>"

datatype ContentPart = TextPart jstring | ImagePart jstring

datatype MessageContent = PlainContent jstring | PartsContent "ContentPart list"

definition buildMessageContent :: "jstring \<Rightarrow> jstring list \<Rightarrow> MessageContent" where
  "buildMessageContent txt imageUrls =
     (let validImages = filter (\<lambda>url. js_trim url \<noteq> []) imageUrls
      in if length validImages = 0 then PlainContent txt
         else PartsContent (TextPart txt # map (\<lambda>url. ImagePart (js_trim url)) validImages))"

fun is_text_part :: "ContentPart \<Rightarrow> bool" where
  "is_text_part (TextPart _) = True"
| "is_text_part (ImagePart _) = False"

definition getTextContent :: "MessageContent \<Rightarrow> jstring" where
  "getTextContent c = (case c of
     PlainContent s \<Rightarrow> s
   | PartsContent ps \<Rightarrow> (case find is_text_part ps of Some (TextPart s) \<Rightarrow> s | _ \<Rightarrow> []))"

definition formatMessageForAPI :: "Message \<Rightarrow> MessageRole \<times> jstring" where
  "formatMessageForAPI message = (sender message, content (getCurrentVersion message))"

definition isValidMessage :: "Message \<Rightarrow> bool" where
  "isValidMessage message =
     (if length (versions message) = 0 then False
      else if sender message = Assistant \<and> \<not> hasMessageContent message then False
      else True)"

section \<open>Timing\<close>

definition completeAssistantTiming :: "int \<Rightarrow> Message \<Rightarrow> Message" where
  "completeAssistantTiming now message =
     (if sender message \<noteq> Assistant then message
      else let st = (case startedAt message of Some s \<Rightarrow> s
                     | None \<Rightarrow> (case createdAt message of Some c \<Rightarrow> c | None \<Rightarrow> now))
           in message\<lparr>startedAt := Some st, completedAt := Some now, durationMs := Some (max 0 (now - st))\<rparr>)"

definition startReasoningTiming :: "int \<Rightarrow> Message \<Rightarrow> MessageReasoning" where
  "startReasoningTiming now message = (case reasoning message of
     None \<Rightarrow> \<lparr>r_content = [], r_duration = 0, r_startedAt = Some now, r_completedAt = None,
              r_durationMs = None\<rparr>
   | Some r \<Rightarrow> r\<lparr>r_startedAt := Some (case r_startedAt r of Some s \<Rightarrow> s | None \<Rightarrow> now)\<rparr>)"

text \<open>\<open>Math.ceil(durationMs / 1000)\<close>\<close>

definition ceil_seconds :: "int \<Rightarrow> int" where
  "ceil_seconds d = - ((- d) div 1000)"

definition completeReasoningTiming :: "int \<Rightarrow> Message \<Rightarrow> Message" where
  "completeReasoningTiming now message = (case reasoning message of
     None \<Rightarrow> message
   | Some r \<Rightarrow>
       if r_durationMs r \<noteq> None then message
       else let st = (case r_startedAt r of Some s \<Rightarrow> s
                      | None \<Rightarrow> (case startedAt message of Some s \<Rightarrow> s | None \<Rightarrow> now));
                d = max 0 (now - st)
            in message\<lparr>reasoning := Some (r\<lparr>r_startedAt := Some st, r_completedAt := Some now,
                 r_durationMs := Some d, r_duration := ceil_seconds d\<rparr>)\<rparr>)"

section \<open>Reasoning tags\<close>

definition think_open :: jstring where
  "think_open = js ''<think>''"

definition think_close :: jstring where
  "think_close = js ''</think>''"

record ParsedThinkTags =
  visibleContent :: jstring
  pt_reasoning :: jstring
  hasUnclosedTag :: bool

text \<open>The loop of \<open>parseThinkTags\<close>, on the text after the current position.\<close>

function think_loop :: "jstring \<Rightarrow> jstring list \<Rightarrow> jstring list \<Rightarrow> jstring list \<times> jstring list \<times> bool" where
  "think_loop rest visibleParts reasoningParts =
     (case js_index_of rest think_open of
        None \<Rightarrow> ((if rest \<noteq> [] then visibleParts @ [rest] else visibleParts), reasoningParts, False)
      | Some openPos \<Rightarrow>
          (let vis = (if 0 < openPos then visibleParts @ [take openPos rest] else visibleParts);
               body = drop (openPos + 7) rest
           in case js_index_of body think_close of
                None \<Rightarrow> (vis, reasoningParts @ [body], True)
              | Some closePos \<Rightarrow>
                  think_loop (drop (closePos + 8) body) vis (reasoningParts @ [take closePos body])))"
  by pat_completeness auto
termination
proof (relation "measure (\<lambda>(rest, _, _). length rest)")
  fix rest vis rea openPos x body closePos
  assume "js_index_of rest think_open = Some openPos"
  then have "openPos + 7 \<le> length rest"
    using js_index_of_bound by (fastforce simp: think_open_def)
  moreover assume "body = drop (openPos + 7) rest"
  ultimately show "((drop (closePos + 8) body, x, rea @ [take closePos body]), rest, vis, rea)
      \<in> measure (\<lambda>(rest, _, _). length rest)"
    by simp
qed simp

definition parseThinkTags :: "jstring \<Rightarrow> ParsedThinkTags" where
  "parseThinkTags c =
     (if \<not> js_includes c think_open
      then \<lparr>visibleContent = c, pt_reasoning = [], hasUnclosedTag = False\<rparr>
      else let (vis, rea, unclosed) = think_loop c [] []
           in \<lparr>visibleContent = js_trim (js_join [] vis), pt_reasoning = js_trim (js_join [10, 10] rea),
               hasUnclosedTag = unclosed\<rparr>)"

section \<open>Streaming\<close>

definition processStreamingContent :: "int \<Rightarrow> Message \<Rightarrow> jstring \<Rightarrow> Message" where
  "processStreamingContent now message contentChunk =
     (let fullContent = content (getCurrentVersion message) @ contentChunk
      in if reasoning message = None \<and> \<not> js_includes fullContent think_open
         then (updateCurrentVersionContent message fullContent)\<lparr>isReasoningStreaming := False\<rparr>
         else let p = parseThinkTags fullContent;
                  finalReasoning = (if pt_reasoning p \<noteq> []
                    then Some ((startReasoningTiming now message)\<lparr>r_content := pt_reasoning p\<rparr>)
                    else reasoning message)
              in (updateCurrentVersionContent message fullContent)
                   \<lparr>reasoning := finalReasoning, isReasoningStreaming := hasUnclosedTag p\<rparr>)"

datatype StreamChunkType = ReasoningChunk | ContentChunk

definition getAppendableChunk :: "jstring \<Rightarrow> jstring \<Rightarrow> jstring" where
  "getAppendableChunk currentContent chunk =
     (if currentContent = [] \<or> \<not> js_starts_with chunk currentContent then chunk
      else drop (length currentContent) chunk)"

definition applyStreamingChunk :: "int \<Rightarrow> Message \<Rightarrow> StreamChunkType \<Rightarrow> jstring \<Rightarrow> Message" where
  "applyStreamingChunk now message ty chunk =
     (if msg_status message = Some StatusError then message
      else case ty of
        ReasoningChunk \<Rightarrow>
          (let r = startReasoningTiming now message;
               appendable = getAppendableChunk (r_content r) chunk
           in message\<lparr>reasoning := Some (r\<lparr>r_content := r_content r @ appendable\<rparr>),
                isReasoningStreaming := True, msg_status := Some Streaming\<rparr>)
      | ContentChunk \<Rightarrow>
          (let appendable = getAppendableChunk (content (getCurrentVersion message)) chunk;
               contentMessage = processStreamingContent now message appendable
           in (if isReasoningStreaming contentMessage then contentMessage
               else completeReasoningTiming now contentMessage)\<lparr>msg_status := Some Streaming\<rparr>))"

definition finalizeMessage :: "int \<Rightarrow> Message \<Rightarrow> jstring option \<Rightarrow> Message" where
  "finalizeMessage now message apiReasoningContent =
     (let c = content (getCurrentVersion message);
          parsedThinkTags = (if js_includes c think_open then Some (parseThinkTags c) else None);
          visible = (case parsedThinkTags of Some p \<Rightarrow> visibleContent p | None \<Rightarrow> c);
          finalReasoning = opt_or apiReasoningContent
            (opt_or (map_option r_content (reasoning message))
              (opt_or (map_option pt_reasoning parsedThinkTags) []));
          finalized = (updateCurrentVersionContent message visible)
            \<lparr>reasoning := (if finalReasoning \<noteq> []
                then Some ((startReasoningTiming now message)\<lparr>r_content := finalReasoning\<rparr>) else None),
             isReasoningStreaming := False\<rparr>
      in completeReasoningTiming now finalized)"

definition completeAssistantMessage :: "int \<Rightarrow> Message \<Rightarrow> Message" where
  "completeAssistantMessage now message =
     completeAssistantTiming now ((finalizeMessage now message None)\<lparr>msg_status := Some StatusComplete\<rparr>)"

definition isAssistantMessageFinal :: "Message \<Rightarrow> bool" where
  "isAssistantMessageFinal message \<longleftrightarrow>
     msg_status message = Some StatusComplete \<or> msg_status message = Some StatusError"

definition isAssistantMessagePending :: "Message \<Rightarrow> bool" where
  "isAssistantMessagePending message \<longleftrightarrow>
     msg_status message = Some Loading \<or> msg_status message = Some Streaming"

definition isPendingAssistantMessage :: "Message option \<Rightarrow> bool" where
  "isPendingAssistantMessage message = (case message of None \<Rightarrow> False
     | Some m \<Rightarrow> sender m = Assistant \<and> isAssistantMessagePending m)"

text \<open>A choice of a completion: its text and its reasoning, each of which may be absent.\<close>

record ChatCompletionChoice =
  choice_content :: "jstring option"
  choice_reasoning :: "jstring option"

definition hasChatCompletionChoice :: "ChatCompletionChoice list \<Rightarrow> bool" where
  "hasChatCompletionChoice choices \<longleftrightarrow> choices \<noteq> []"

definition applyChatCompletionChoice :: "int \<Rightarrow> Message \<Rightarrow> ChatCompletionChoice \<Rightarrow> Message" where
  "applyChatCompletionChoice now message choice =
     completeAssistantTiming now
       ((finalizeMessage now (updateCurrentVersionContent message (opt_or (choice_content choice) []))
           (choice_reasoning choice))\<lparr>msg_status := Some StatusComplete\<rparr>)"

definition applyChatCompletionResponse :: "int \<Rightarrow> Message \<Rightarrow> ChatCompletionChoice list \<Rightarrow> Message option" where
  "applyChatCompletionResponse now message choices = (case choices of
     [] \<Rightarrow> None | choice # _ \<Rightarrow> Some (applyChatCompletionChoice now message choice))"

text \<open>The index of the last message that satisfies a test, as the downward loops find it.\<close>

definition find_last_index :: "('a \<Rightarrow> bool) \<Rightarrow> 'a list \<Rightarrow> nat option" where
  "find_last_index p xs = find (\<lambda>i. p (xs ! i)) (rev [0..<length xs])"

definition sanitized_message :: "(jstring \<Rightarrow> jstring) \<Rightarrow> int \<Rightarrow> Message \<Rightarrow> Message" where
  "sanitized_message t now message =
     (let finalized = finalizeMessage now message None;
          hasContent = hasMessageContent finalized;
          hasReasoning = (case reasoning finalized of Some r \<Rightarrow> js_trim (r_content r) \<noteq> [] | None \<Rightarrow> False)
      in if hasContent \<or> hasReasoning
         then completeAssistantTiming now
                (finalized\<lparr>msg_status := Some StatusComplete, isReasoningStreaming := False\<rparr>)
         else completeAssistantTiming now
                ((updateCurrentVersionContent finalized (t API_REQUEST_ERROR @ js '': '' @ t INTERRUPTED))
                   \<lparr>msg_status := Some StatusError, isReasoningStreaming := False\<rparr>))"

definition sanitizeMessagesOnLoad :: "(jstring \<Rightarrow> jstring) \<Rightarrow> int \<Rightarrow> Message list \<Rightarrow> Message list" where
  "sanitizeMessagesOnLoad t now messages =
     (case find_last_index (\<lambda>m. isPendingAssistantMessage (Some m)) messages of
        None \<Rightarrow> messages
      | Some targetIndex \<Rightarrow> messages[targetIndex := sanitized_message t now (messages ! targetIndex)])"

section \<open>Updating the last message\<close>

definition updateLastAssistantMessage :: "Message list \<Rightarrow> (Message \<Rightarrow> Message) \<Rightarrow> Message list" where
  "updateLastAssistantMessage messages updater =
     (if length messages = 0 then messages
      else let l = last messages
           in if sender l \<noteq> Assistant then messages
              else messages[length messages - 1 := updater l])"

definition updateAssistantMessageWithError ::
  "int \<Rightarrow> Message list \<Rightarrow> jstring \<Rightarrow> jstring option \<Rightarrow> jstring \<Rightarrow> Message list" where
  "updateAssistantMessageWithError now messages errorMessage code title =
     updateLastAssistantMessage messages (\<lambda>message.
       completeAssistantTiming now
         ((updateCurrentVersionContent message (title @ js '': '' @ errorMessage))
            \<lparr>msg_status := Some StatusError, isReasoningStreaming := False,
             errorCode := (case code of Some c \<Rightarrow> (if c = [] then None else Some c) | None \<Rightarrow> None)\<rparr>))"

lemmas playground_defs = getCurrentVersion_def getMessageContent_def hasMessageContent_def
  updateCurrentVersionContent_def completeAssistantTiming_def startReasoningTiming_def
  completeReasoningTiming_def Let_def

section \<open>Reasoning tags: the decomposition of a text\<close>

text \<open>
  A text with reasoning blocks: visible parts, each followed by a closed block, and a tail, which
  is visible text or ends in a block that is not closed.
\<close>

definition render_blocks :: "(jstring \<times> jstring) list \<Rightarrow> jstring" where
  "render_blocks bs = concat (map (\<lambda>(v, r). v @ think_open @ r @ think_close) bs)"

definition block_ok :: "jstring \<times> jstring \<Rightarrow> bool" where
  "block_ok b \<longleftrightarrow> \<not> js_includes (fst b) think_open \<and> \<not> js_includes (snd b) think_close"

definition render_tail :: "jstring \<Rightarrow> jstring option \<Rightarrow> jstring" where
  "render_tail v open_block = (case open_block of None \<Rightarrow> v | Some r \<Rightarrow> v @ think_open @ r)"

definition tail_ok :: "jstring \<Rightarrow> jstring option \<Rightarrow> bool" where
  "tail_ok v open_block \<longleftrightarrow> \<not> js_includes v think_open \<and>
     (case open_block of None \<Rightarrow> True | Some r \<Rightarrow> \<not> js_includes r think_close)"

declare think_loop.simps [simp del]

lemma js_index_of_open:
  "\<not> js_includes v think_open \<Longrightarrow> js_index_of (v @ think_open @ r) think_open = Some (length v)"
  using js_index_of_append [of v "hd think_open" "tl think_open" r] by (simp add: think_open_def js_Cons)

lemma js_index_of_close:
  "\<not> js_includes v think_close \<Longrightarrow> js_index_of (v @ think_close @ r) think_close = Some (length v)"
  using js_index_of_append [of v "hd think_close" "tl think_close" r] by (simp add: think_close_def js_Cons)

lemma length_think [simp]: "length think_open = 7" "length think_close = 8"
  by (simp_all add: think_open_def think_close_def)

lemma think_loop_block:
  assumes "block_ok (v, r)"
  shows "think_loop (v @ think_open @ r @ think_close @ rest) vis rea =
    think_loop rest (if v = [] then vis else vis @ [v]) (rea @ [r])"
proof -
  have "js_index_of (v @ think_open @ r @ think_close @ rest) think_open = Some (length v)"
    "js_index_of (r @ think_close @ rest) think_close = Some (length r)"
    using assms by (simp_all add: block_ok_def js_index_of_open js_index_of_close)
  then show ?thesis by (subst think_loop.simps) (simp add: Let_def)
qed

lemma think_loop_tail:
  assumes "tail_ok v ob"
  shows "think_loop (render_tail v ob) vis rea =
    ((if v = [] then vis else vis @ [v]), (case ob of None \<Rightarrow> rea | Some r \<Rightarrow> rea @ [r]), ob \<noteq> None)"
proof (cases ob)
  case None
  then have "js_index_of v think_open = None"
    using assms by (simp add: tail_ok_def js_includes_def)
  with None show ?thesis by (subst think_loop.simps) (simp add: render_tail_def)
next
  case (Some r)
  then have "js_index_of (v @ think_open @ r) think_open = Some (length v)" "js_index_of r think_close = None"
    using assms by (simp_all add: tail_ok_def js_index_of_open js_includes_def)
  with Some show ?thesis by (subst think_loop.simps) (simp add: render_tail_def Let_def)
qed

lemma think_loop_render:
  "list_all block_ok bs \<Longrightarrow> tail_ok v ob \<Longrightarrow>
   \<exists>vis'. think_loop (render_blocks bs @ render_tail v ob) vis rea =
     (vis', rea @ map snd bs @ (case ob of None \<Rightarrow> [] | Some r \<Rightarrow> [r]), ob \<noteq> None) \<and>
     concat vis' = concat vis @ concat (map fst bs) @ v"
proof (induction bs arbitrary: vis rea)
  case Nil
  then show ?case by (simp add: render_blocks_def think_loop_tail split: option.splits)
next
  case (Cons b bs)
  obtain w r where b: "b = (w, r)" by (cases b)
  have "think_loop (render_blocks (b # bs) @ render_tail v ob) vis rea =
      think_loop (render_blocks bs @ render_tail v ob) (if w = [] then vis else vis @ [w]) (rea @ [r])"
    using Cons.prems think_loop_block [of w r "render_blocks bs @ render_tail v ob"]
    by (simp add: b render_blocks_def)
  with Cons.IH [of "if w = [] then vis else vis @ [w]" "rea @ [r]"] Cons.prems b show ?case
    by auto
qed

text \<open>Every text has such a decomposition.\<close>

lemma blocks_exist:
  "\<exists>bs v ob. c = render_blocks bs @ render_tail v ob \<and> list_all block_ok bs \<and> tail_ok v ob"
proof (induction c rule: length_induct)
  case (1 c)
  show ?case
  proof (cases "js_index_of c think_open")
    case None
    then have "c = render_blocks [] @ render_tail c None \<and> list_all block_ok [] \<and> tail_ok c None"
      by (simp add: render_blocks_def render_tail_def tail_ok_def js_includes_def)
    then show ?thesis by blast
  next
    case (Some i)
    define v body where "v = take i c" and "body = drop (i + 7) c"
    have c: "c = v @ think_open @ body"
      using js_index_of_Some [OF Some] by (simp add: v_def body_def)
    have v: "\<not> js_includes v think_open"
      using js_index_of_take [OF Some] by (simp add: v_def think_open_def js_Cons)
    show ?thesis
    proof (cases "js_index_of body think_close")
      case None
      then have "c = render_blocks [] @ render_tail v (Some body) \<and> list_all block_ok [] \<and> tail_ok v (Some body)"
        using c v by (simp add: render_blocks_def render_tail_def tail_ok_def js_includes_def)
      then show ?thesis by blast
    next
      case (Some k)
      define r rest where "r = take k body" and "rest = drop (k + 8) body"
      have b: "body = r @ think_close @ rest"
        using js_index_of_Some [OF Some] by (simp add: r_def rest_def)
      have "\<not> js_includes r think_close"
        using js_index_of_take [OF Some] by (simp add: r_def think_close_def js_Cons)
      with v have ok: "block_ok (v, r)" by (simp add: block_ok_def)
      have "length rest < length c" using c b by simp
      with 1 obtain bs w ob where "rest = render_blocks bs @ render_tail w ob" "list_all block_ok bs" "tail_ok w ob"
        by blast
      with ok c b have "c = render_blocks ((v, r) # bs) @ render_tail w ob \<and> list_all block_ok ((v, r) # bs) \<and>
          tail_ok w ob"
        by (simp add: render_blocks_def)
      then show ?thesis by blast
    qed
  qed
qed

lemma render_no_open:
  assumes "list_all block_ok bs" "\<not> js_includes (render_blocks bs @ render_tail v ob) think_open"
  shows "bs = [] \<and> ob = None"
proof (rule conjI)
  show "bs = []"
  proof (rule ccontr)
    assume "bs \<noteq> []"
    then obtain w r bs' where "bs = (w, r) # bs'" by (cases bs) auto
    then have "render_blocks bs @ render_tail v ob =
        w @ think_open @ (r @ think_close @ render_blocks bs' @ render_tail v ob)"
      by (simp add: render_blocks_def)
    with assms(2) show False by (metis js_includes_iff)
  qed
  show "ob = None"
  proof (rule ccontr)
    assume "ob \<noteq> None"
    then obtain r where "ob = Some r" by blast
    then have "render_blocks bs @ render_tail v ob = (render_blocks bs @ v) @ think_open @ r"
      by (simp add: render_tail_def)
    with assms(2) show False by (metis js_includes_iff)
  qed
qed

text \<open>
  C27. Separating the reasoning from a text loses nothing and invents nothing.  Every text is a
  sequence of visible parts and reasoning blocks, possibly ending in a block that is not closed;
  the visible result is exactly the visible parts in order, the reasoning is exactly the blocks in
  order, and an unclosed tag is reported exactly when there is one.
\<close>

theorem parseThinkTags_decomposition:
  "\<exists>bs v ob. c = render_blocks bs @ render_tail v ob \<and> list_all block_ok bs \<and> tail_ok v ob \<and>
     (bs = [] \<and> ob = None \<and> visibleContent (parseThinkTags c) = v \<and> pt_reasoning (parseThinkTags c) = [] \<or>
      visibleContent (parseThinkTags c) = js_trim (concat (map fst bs) @ v) \<and>
      pt_reasoning (parseThinkTags c) =
        js_trim (js_join [10, 10] (map snd bs @ (case ob of None \<Rightarrow> [] | Some r \<Rightarrow> [r])))) \<and>
     hasUnclosedTag (parseThinkTags c) = (ob \<noteq> None)"
proof -
  obtain bs v ob where d: "c = render_blocks bs @ render_tail v ob" "list_all block_ok bs" "tail_ok v ob"
    using blocks_exist by blast
  obtain vis where l: "think_loop c [] [] =
      (vis, map snd bs @ (case ob of None \<Rightarrow> [] | Some r \<Rightarrow> [r]), ob \<noteq> None)"
    and vis: "concat vis = concat (map fst bs) @ v"
    using think_loop_render [OF d(2,3), of "[]" "[]"] d(1) by auto
  show ?thesis
  proof (cases "js_includes c think_open")
    case False
    with render_no_open [OF d(2)] d(1) have "bs = [] \<and> ob = None" by blast
    with d False show ?thesis
      by (intro exI [of _ bs] exI [of _ v] exI [of _ ob])
        (simp add: parseThinkTags_def render_blocks_def render_tail_def)
  next
    case True
    with l vis have "visibleContent (parseThinkTags c) = js_trim (concat (map fst bs) @ v)"
      "pt_reasoning (parseThinkTags c) =
        js_trim (js_join [10, 10] (map snd bs @ (case ob of None \<Rightarrow> [] | Some r \<Rightarrow> [r])))"
      "hasUnclosedTag (parseThinkTags c) = (ob \<noteq> None)"
      by (simp_all add: parseThinkTags_def)
    with d show ?thesis by blast
  qed
qed

section \<open>Chunks\<close>

lemma content_update [simp]:
  "getMessageContent (updateCurrentVersionContent m c) = c"
  "sender (updateCurrentVersionContent m c) = sender m"
  "key (updateCurrentVersionContent m c) = key m"
  "reasoning (updateCurrentVersionContent m c) = reasoning m"
  "msg_status (updateCurrentVersionContent m c) = msg_status m"
  "startedAt (updateCurrentVersionContent m c) = startedAt m"
  "createdAt (updateCurrentVersionContent m c) = createdAt m"
  by (simp_all add: playground_defs)

lemma completeReasoning_simps [simp]:
  "getMessageContent (completeReasoningTiming now m) = getMessageContent m"
  "sender (completeReasoningTiming now m) = sender m"
  "key (completeReasoningTiming now m) = key m"
  "msg_status (completeReasoningTiming now m) = msg_status m"
  "isReasoningStreaming (completeReasoningTiming now m) = isReasoningStreaming m"
  "startedAt (completeReasoningTiming now m) = startedAt m"
  "map_option r_content (reasoning (completeReasoningTiming now m)) = map_option r_content (reasoning m)"
  by (simp_all add: playground_defs split: option.splits)

lemma completeTiming_simps [simp]:
  "getMessageContent (completeAssistantTiming now m) = getMessageContent m"
  "sender (completeAssistantTiming now m) = sender m"
  "key (completeAssistantTiming now m) = key m"
  "msg_status (completeAssistantTiming now m) = msg_status m"
  "reasoning (completeAssistantTiming now m) = reasoning m"
  "isReasoningStreaming (completeAssistantTiming now m) = isReasoningStreaming m"
  by (simp_all add: playground_defs)

lemma getMessageContent_record [simp]:
  "getMessageContent (m\<lparr>isReasoningStreaming := b\<rparr>) = getMessageContent m"
  "getMessageContent (m\<lparr>reasoning := r\<rparr>) = getMessageContent m"
  "getMessageContent (m\<lparr>msg_status := s\<rparr>) = getMessageContent m"
  "getMessageContent (m\<lparr>errorCode := e\<rparr>) = getMessageContent m"
  by (simp_all add: playground_defs)

lemma processStreamingContent_simps [simp]:
  "getMessageContent (processStreamingContent now m c) = getMessageContent m @ c"
  "sender (processStreamingContent now m c) = sender m"
  "key (processStreamingContent now m c) = key m"
  by (simp_all add: processStreamingContent_def Let_def flip: getMessageContent_def)

lemma content_getCurrentVersion: "content (getCurrentVersion m) = getMessageContent m"
  by (simp add: getMessageContent_def)

lemma appendable:
  "cur @ getAppendableChunk cur chunk =
     (if cur \<noteq> [] \<and> js_starts_with chunk cur then chunk else cur @ chunk)"
  by (auto simp: getAppendableChunk_def js_starts_with_prefix)

lemma applyStreamingChunk_content:
  "msg_status m \<noteq> Some StatusError \<Longrightarrow>
     getMessageContent (applyStreamingChunk now m ContentChunk chunk) =
       getMessageContent m @ getAppendableChunk (getMessageContent m) chunk \<and>
     msg_status (applyStreamingChunk now m ContentChunk chunk) = Some Streaming"
  by (simp add: applyStreamingChunk_def Let_def content_getCurrentVersion)

text \<open>A stream of content chunks, each with the time it is applied.\<close>

definition stream_chunks :: "Message \<Rightarrow> (int \<times> jstring) list \<Rightarrow> Message" where
  "stream_chunks m cs = foldl (\<lambda>m (now, c). applyStreamingChunk now m ContentChunk c) m cs"

text \<open>No chunk begins with everything received before it.\<close>

fun plain_deltas :: "jstring \<Rightarrow> jstring list \<Rightarrow> bool" where
  "plain_deltas cur [] = True"
| "plain_deltas cur (c # cs) \<longleftrightarrow> (cur = [] \<or> \<not> js_starts_with c cur) \<and> plain_deltas (cur @ c) cs"

lemma stream_chunks_content:
  "msg_status m \<noteq> Some StatusError \<Longrightarrow> plain_deltas (getMessageContent m) (map snd cs) \<Longrightarrow>
     getMessageContent (stream_chunks m cs) = getMessageContent m @ concat (map snd cs) \<and>
     (cs \<noteq> [] \<longrightarrow> msg_status (stream_chunks m cs) = Some Streaming)"
proof (induction cs arbitrary: m)
  case (Cons x cs)
  obtain now c where x: "x = (now, c)" by (cases x)
  let ?m = "applyStreamingChunk now m ContentChunk c"
  have m: "getMessageContent ?m = getMessageContent m @ c" "msg_status ?m = Some Streaming"
    using applyStreamingChunk_content [OF Cons.prems(1), of now c] Cons.prems(2) x
    by (auto simp: appendable)
  then have "getMessageContent (stream_chunks ?m cs) = getMessageContent ?m @ concat (map snd cs) \<and>
      (cs \<noteq> [] \<longrightarrow> msg_status (stream_chunks ?m cs) = Some Streaming)"
    using Cons.IH [of ?m] Cons.prems(2) x by simp
  moreover have "stream_chunks m (x # cs) = stream_chunks ?m cs" by (simp add: stream_chunks_def x)
  ultimately show ?case using m x by (cases cs) (auto simp: stream_chunks_def)
qed (simp add: stream_chunks_def)

lemma finalize_content:
  "getMessageContent (finalizeMessage now m api) = visibleContent (parseThinkTags (getMessageContent m))"
proof -
  have "\<not> js_includes c think_open \<Longrightarrow> visibleContent (parseThinkTags c) = c" for c
    by (simp add: parseThinkTags_def)
  then show ?thesis by (simp add: finalizeMessage_def Let_def content_getCurrentVersion)
qed

lemma completeAssistantMessage_simps [simp]:
  "getMessageContent (completeAssistantMessage now m) = visibleContent (parseThinkTags (getMessageContent m))"
  "msg_status (completeAssistantMessage now m) = Some StatusComplete"
  "key (completeAssistantMessage now m) = key m"
  "sender (completeAssistantMessage now m) = sender m"
  "isReasoningStreaming (completeAssistantMessage now m) = False"
  by (simp_all add: completeAssistantMessage_def finalize_content)
    (simp_all add: finalizeMessage_def Let_def)


text \<open>
  A server that sends cumulative snapshots instead of differences is understood as well: a
  chunk that repeats the text so far replaces it, so nothing is duplicated.  The same rule makes a
  difference that happens to equal the text so far disappear.
\<close>

theorem snapshot_replaces_content:
  assumes "msg_status m \<noteq> Some StatusError" "getMessageContent m \<noteq> []"
  shows "getMessageContent (applyStreamingChunk now m ContentChunk (getMessageContent m @ new)) =
           getMessageContent m @ new \<and>
         getMessageContent (applyStreamingChunk now m ContentChunk (getMessageContent m)) = getMessageContent m"
  using applyStreamingChunk_content [OF assms(1), of now] assms(2)
  by (simp add: appendable js_starts_with_prefix)

section \<open>The last message and repaired messages\<close>

lemma updateLast_snoc [simp]:
  "updateLastAssistantMessage (ms @ [m]) f = ms @ [if sender m = Assistant then f m else m]"
  by (simp add: updateLastAssistantMessage_def list_update_append)

lemma updateLast_Nil [simp]: "updateLastAssistantMessage [] f = []"
  by (simp add: updateLastAssistantMessage_def)

lemma updateLast_shape:
  "length (updateLastAssistantMessage ms f) = length ms \<and>
   butlast (updateLastAssistantMessage ms f) = butlast ms"
  by (cases ms rule: rev_cases) auto

lemma find_last_index_Some:
  "find_last_index p xs = Some i \<longleftrightarrow> i < length xs \<and> p (xs ! i) \<and> (\<forall>j. i < j \<and> j < length xs \<longrightarrow> \<not> p (xs ! j))"
  (is "?L \<longleftrightarrow> ?R")
proof
  assume ?L
  then obtain k where k: "k < length xs" "p (xs ! (rev [0..<length xs] ! k))" "i = rev [0..<length xs] ! k"
    "\<forall>j<k. \<not> p (xs ! (rev [0..<length xs] ! j))"
    by (auto simp: find_last_index_def find_Some_iff)
  have r: "rev [0..<length xs] ! j = length xs - Suc j" if "j < length xs" for j
    using that by (simp add: rev_nth)
  have i: "i = length xs - Suc k" using k r by simp
  have "\<not> p (xs ! j)" if "i < j" "j < length xs" for j
  proof -
    have "length xs - Suc j < k" using that i k(1) by linarith
    moreover from this k(1) have "rev [0..<length xs] ! (length xs - Suc j) = j"
      using r [of "length xs - Suc j"] that by simp
    ultimately show ?thesis using k(4) by metis
  qed
  with k i r show ?R by auto
next
  assume R: ?R
  have r: "rev [0..<length xs] ! j = length xs - Suc j" if "j < length xs" for j
    using that by (simp add: rev_nth)
  have np: "\<not> p (xs ! (length xs - Suc j))" if "j < length xs - Suc i" for j
    using R that by (simp add: less_diff_conv)
  show ?L
    unfolding find_last_index_def find_Some_iff
    using R by (intro exI [of _ "length xs - Suc i"]) (auto simp: r np)
qed

lemma find_last_index_None: "find_last_index p xs = None \<longleftrightarrow> (\<forall>x \<in> set xs. \<not> p x)"
  by (simp add: find_last_index_def find_None_iff) (metis atLeastLessThan_iff in_set_conv_nth nth_mem zero_le)

lemma sanitized_final: "sender m = Assistant \<Longrightarrow> isAssistantMessageFinal (sanitized_message t now m)"
  by (simp add: sanitized_message_def isAssistantMessageFinal_def Let_def)

lemma sanitized_not_pending [simp]: "\<not> isAssistantMessagePending (sanitized_message t now m)"
  by (simp add: sanitized_message_def isAssistantMessagePending_def Let_def)

lemma pending_iff: "isPendingAssistantMessage (Some m) \<longleftrightarrow> sender m = Assistant \<and> isAssistantMessagePending m"
  by (simp add: isPendingAssistantMessage_def)


text \<open>
  Completing a message records a duration that is never negative, even if the clock was set
  back, and keeps the time the message was started at.
\<close>

theorem completeAssistantMessage_timing:
  assumes "sender m = Assistant"
  shows "completedAt (completeAssistantMessage now m) = Some now \<and>
    (\<exists>s d. startedAt (completeAssistantMessage now m) = Some s \<and> durationMs (completeAssistantMessage now m) = Some d \<and>
       0 \<le> d \<and> (s \<le> now \<longrightarrow> s + d = now) \<and> (startedAt m \<noteq> None \<longrightarrow> startedAt m = Some s)) \<and>
    isAssistantMessageFinal (completeAssistantMessage now m)"
proof -
  define f where "f = (finalizeMessage now m None)\<lparr>msg_status := Some StatusComplete\<rparr>"
  have f: "startedAt f = startedAt m" "sender f = Assistant" "msg_status f = Some StatusComplete"
    using assms by (simp_all add: f_def finalizeMessage_def Let_def)
  define s where "s = (case startedAt f of Some s \<Rightarrow> s | None \<Rightarrow> (case createdAt f of Some c \<Rightarrow> c | None \<Rightarrow> now))"
  have "completeAssistantMessage now m = completeAssistantTiming now f"
    by (simp add: completeAssistantMessage_def f_def)
  also have "\<dots> = f\<lparr>startedAt := Some s, completedAt := Some now, durationMs := Some (max 0 (now - s))\<rparr>"
    using f(2) by (simp add: completeAssistantTiming_def s_def Let_def)
  finally have e: "completeAssistantMessage now m =
    f\<lparr>startedAt := Some s, completedAt := Some now, durationMs := Some (max 0 (now - s))\<rparr>" .
  have "startedAt m \<noteq> None \<longrightarrow> startedAt m = Some s"
    using f(1) by (auto simp: s_def)
  then show ?thesis
    by (simp add: e isAssistantMessageFinal_def f(3))
qed

section \<open>Sample messages\<close>

definition sample_message :: Message where
  "sample_message = createLoadingAssistantMessage (js ''k'') (js ''v'') 1000"


theorem snapshot_replaces_content_witness:
  "getMessageContent (applyStreamingChunk 5 (updateCurrentVersionContent sample_message (js ''1'')) ContentChunk (js ''1''))
     = js ''1''"
  using snapshot_replaces_content [of "updateCurrentVersionContent sample_message (js ''1'')" 5 "[]"]
  by (simp add: sample_message_def createLoadingAssistantMessage_def)

theorem completeAssistantMessage_timing_witness:
  "isAssistantMessageFinal (completeAssistantMessage 500 sample_message) \<and>
   completedAt (completeAssistantMessage 500 sample_message) = Some 500"
  using completeAssistantMessage_timing [of sample_message 500]
  by (simp add: sample_message_def createLoadingAssistantMessage_def)


end
