(* ===== verification/Playground_Conversation.thy ===== *)
theory Playground_Conversation
  imports Playground_Messages
begin

text \<open>
  The conversation of the playground: editing the list of messages
  (\<open>lib/message/conversation-message-utils.ts\<close>), what the interface derives from a message
  (\<open>message-content-utils.ts\<close>, \<open>message-action-utils.ts\<close>, \<open>message-editor-utils.ts\<close>,
  \<open>message-error-utils.ts\<close>), the request that is built from it (\<open>lib/streaming/payload-builder.ts\<close>),
  the handlers of \<open>hooks/use-playground-conversation.ts\<close> and the choice of model and group.
\<close>

section \<open>Editing the conversation\<close>

text \<open>Fresh identifiers come in the order in which the source asks for them.\<close>

definition appendUserMessagePair ::
  "jstring \<times> jstring \<times> jstring \<times> jstring \<Rightarrow> int \<Rightarrow> Message list \<Rightarrow> jstring \<Rightarrow> Message list" where
  "appendUserMessagePair ids now messages c =
     (case ids of (k1, v1, k2, v2) \<Rightarrow>
        messages @ [createUserMessage k1 v1 c now, createLoadingAssistantMessage k2 v2 now])"

definition findIndex :: "('a \<Rightarrow> bool) \<Rightarrow> 'a list \<Rightarrow> nat option" where
  "findIndex p xs = find (\<lambda>i. p (xs ! i)) [0..<length xs]"

definition createRegeneratedMessages ::
  "jstring \<times> jstring \<Rightarrow> int \<Rightarrow> Message list \<Rightarrow> jstring \<Rightarrow> Message list option" where
  "createRegeneratedMessages ids now messages messageKey =
     (case findIndex (\<lambda>m. key m = messageKey) messages of
        None \<Rightarrow> None
      | Some messageIndex \<Rightarrow>
          if sender (messages ! messageIndex) = User
          then Some (take (messageIndex + 1) messages @ [createLoadingAssistantMessage (fst ids) (snd ids) now])
          else Some (take messageIndex messages @ [createLoadingAssistantMessage (fst ids) (snd ids) now]))"

definition removeMessageByKey :: "Message list \<Rightarrow> jstring \<Rightarrow> Message list" where
  "removeMessageByKey messages messageKey = filter (\<lambda>m. key m \<noteq> messageKey) messages"

fun getPreviousUserMessage :: "Message list \<Rightarrow> nat \<Rightarrow> Message option" where
  "getPreviousUserMessage messages 0 = None"
| "getPreviousUserMessage messages (Suc index) =
     (if sender (messages ! index) = User then Some (messages ! index)
      else getPreviousUserMessage messages index)"

record ApplyMessageEditResult =
  edited_messages :: "Message list"
  shouldSend :: bool

definition applyMessageEdit ::
  "jstring \<times> jstring \<Rightarrow> int \<Rightarrow> Message list \<Rightarrow> jstring \<Rightarrow> jstring \<Rightarrow> bool \<Rightarrow> ApplyMessageEditResult option" where
  "applyMessageEdit ids now messages messageKey c shouldSubmit =
     (case findIndex (\<lambda>m. key m = messageKey) messages of
        None \<Rightarrow> None
      | Some messageIndex \<Rightarrow>
          (let updatedMessages = map (\<lambda>m. if key m = messageKey
                 then (updateCurrentVersionContent m c)
                        \<lparr>createdAt := (if shouldSubmit then Some now else createdAt m)\<rparr>
                 else m) messages
           in if \<not> shouldSubmit \<or> sender (updatedMessages ! messageIndex) \<noteq> User
              then Some \<lparr>edited_messages = updatedMessages, shouldSend = False\<rparr>
              else Some \<lparr>edited_messages = take (messageIndex + 1) updatedMessages @
                           [createLoadingAssistantMessage (fst ids) (snd ids) now],
                         shouldSend = True\<rparr>))"

definition getEditingMessageContent :: "Message list \<Rightarrow> jstring option \<Rightarrow> jstring" where
  "getEditingMessageContent messages editingKey =
     (case editingKey of
        None \<Rightarrow> []
      | Some k \<Rightarrow> (if k = [] then []
          else case find (\<lambda>m. key m = k) messages of Some m \<Rightarrow> getMessageContent m | None \<Rightarrow> []))"

record ChatMessageRenderState =
  alwaysShowActions :: bool
  render_content :: jstring
  isEditing :: bool

definition getChatMessageRenderState ::
  "Message list \<Rightarrow> Message \<Rightarrow> nat \<Rightarrow> jstring option \<Rightarrow> ChatMessageRenderState" where
  "getChatMessageRenderState messages message messageIndex editingKey =
     \<lparr>alwaysShowActions = (int messageIndex = int (length messages) - 1 \<and> sender message = Assistant),
      render_content = getMessageContent message,
      isEditing = (editingKey = Some (key message))\<rparr>"

section \<open>What the interface derives from a message\<close>

definition shouldShowMessageLoader :: "Message \<Rightarrow> bool \<Rightarrow> jstring \<Rightarrow> bool" where
  "shouldShowMessageLoader message isAssistant versionContent \<longleftrightarrow>
     isAssistant \<and> \<not> isReasoningStreaming message \<and>
     (msg_status message = Some Loading \<or> (msg_status message = Some Streaming \<and> versionContent = []))"

definition shouldShowMessageContent :: "Message \<Rightarrow> jstring \<Rightarrow> bool" where
  "shouldShowMessageContent message versionContent \<longleftrightarrow>
     (sender message = User \<or> \<not> isReasoningStreaming message) \<and> 0 < length versionContent"

definition getDisplayContent :: "Message \<Rightarrow> jstring \<Rightarrow> jstring" where
  "getDisplayContent message versionContent =
     (if sender message \<noteq> Assistant then versionContent
      else if \<not> js_includes versionContent think_open then versionContent
      else visibleContent (parseThinkTags versionContent))"

record MessageContentState =
  displayContent :: jstring
  hasSources :: bool
  isAssistant :: bool
  showLoader :: bool
  showMessageContent :: bool
  state_sources :: "(jstring \<times> jstring) list"
  hasReasoning :: bool
  reasoningContent :: "jstring option"

definition getMessageContentState :: "Message \<Rightarrow> jstring \<Rightarrow> MessageContentState" where
  "getMessageContentState message versionContent =
     (let isA = (sender message = Assistant);
          src = (case sources message of Some s \<Rightarrow> s | None \<Rightarrow> []);
          rc = (if isA then map_option r_content (reasoning message) else None);
          has = (case rc of Some r \<Rightarrow> r \<noteq> [] | None \<Rightarrow> False)
      in \<lparr>displayContent = getDisplayContent message versionContent, hasSources = (0 < length src),
          isAssistant = isA, showLoader = shouldShowMessageLoader message isA versionContent,
          showMessageContent = shouldShowMessageContent message versionContent, state_sources = src,
          hasReasoning = has, reasoningContent = (if has then rc else None)\<rparr>)"

record MessageActionState =
  action_content :: jstring
  hasContent :: bool
  act_isAssistant :: bool
  act_isUser :: bool
  isLoading :: bool

definition getMessageActionState :: "Message \<Rightarrow> MessageActionState" where
  "getMessageActionState message =
     \<lparr>action_content = getMessageContent message, hasContent = hasMessageContent message,
      act_isAssistant = (sender message = Assistant), act_isUser = (sender message = User),
      isLoading = (msg_status message = Some Loading \<or> msg_status message = Some Streaming)\<rparr>"

record MessageEditorState =
  canSave :: bool
  hasChanged :: bool
  showSaveAndSubmit :: bool

definition getMessageEditorState :: "Message \<Rightarrow> jstring \<Rightarrow> jstring \<Rightarrow> MessageEditorState" where
  "getMessageEditorState message editText originalText =
     (let hasText = (0 < length (js_trim editText)); changed = (editText \<noteq> originalText)
      in \<lparr>canSave = (hasText \<and> changed), hasChanged = changed, showSaveAndSubmit = (sender message = User)\<rparr>)"

definition isAdminRole :: "int option \<Rightarrow> bool" where
  "isAdminRole role = (case role of Some r \<Rightarrow> 10 \<le> r | None \<Rightarrow> False)"

definition isErrorMessage :: "Message \<Rightarrow> bool" where
  "isErrorMessage message \<longleftrightarrow> msg_status message = Some StatusError"

datatype error_kind = Generic | ModelPrice

record MessageErrorState =
  error_content :: jstring
  error_kind :: error_kind
  showSettingsLink :: bool

definition getMessageErrorState :: "Message \<Rightarrow> bool \<Rightarrow> MessageErrorState option" where
  "getMessageErrorState message isAdmin =
     (if \<not> isErrorMessage message then None
      else let c = str_or (getMessageContent message) (js ''An unknown error occurred'');
               isModelPriceError = (errorCode message = Some (js ''model_price_error''))
           in Some \<lparr>error_content = c, error_kind = (if isModelPriceError then ModelPrice else Generic),
                    showSettingsLink = (isModelPriceError \<and> isAdmin)\<rparr>)"

section \<open>The request\<close>

record PlaygroundConfig =
  cfg_model :: jstring
  cfg_group :: jstring
  cfg_temperature :: jsnum
  cfg_top_p :: jsnum
  cfg_max_tokens :: jsnum
  cfg_frequency_penalty :: jsnum
  cfg_presence_penalty :: jsnum
  cfg_seed :: "jsnum option"
  cfg_stream :: bool

record ParameterEnabled =
  en_temperature :: bool
  en_top_p :: bool
  en_max_tokens :: bool
  en_frequency_penalty :: bool
  en_presence_penalty :: bool
  en_seed :: bool

definition DEFAULT_CONFIG :: PlaygroundConfig where
  "DEFAULT_CONFIG = \<lparr>cfg_model = js ''gpt-4o'', cfg_group = js ''default'',
     cfg_temperature = round_double (7 / 10), cfg_top_p = Num 1, cfg_max_tokens = Num 4096,
     cfg_frequency_penalty = Num 0, cfg_presence_penalty = Num 0, cfg_seed = None, cfg_stream = True\<rparr>"

definition DEFAULT_PARAMETER_ENABLED :: ParameterEnabled where
  "DEFAULT_PARAMETER_ENABLED = \<lparr>en_temperature = True, en_top_p = True, en_max_tokens = False,
     en_frequency_penalty = True, en_presence_penalty = True, en_seed = False\<rparr>"

record ChatCompletionRequest =
  req_model :: jstring
  req_group :: jstring
  req_messages :: "(MessageRole \<times> jstring) list"
  req_stream :: bool
  req_temperature :: "jsnum option"
  req_top_p :: "jsnum option"
  req_max_tokens :: "jsnum option"
  req_frequency_penalty :: "jsnum option"
  req_presence_penalty :: "jsnum option"
  req_seed :: "jsnum option"

definition buildChatCompletionPayload ::
  "Message list \<Rightarrow> PlaygroundConfig \<Rightarrow> ParameterEnabled \<Rightarrow> ChatCompletionRequest" where
  "buildChatCompletionPayload messages config en =
     (let processedMessages = map formatMessageForAPI (filter isValidMessage messages)
      in \<lparr>req_model = cfg_model config, req_group = cfg_group config, req_messages = processedMessages,
          req_stream = cfg_stream config,
          req_temperature = (if en_temperature en then Some (cfg_temperature config) else None),
          req_top_p = (if en_top_p en then Some (cfg_top_p config) else None),
          req_max_tokens = (if en_max_tokens en then Some (cfg_max_tokens config) else None),
          req_frequency_penalty = (if en_frequency_penalty en then Some (cfg_frequency_penalty config) else None),
          req_presence_penalty = (if en_presence_penalty en then Some (cfg_presence_penalty config) else None),
          req_seed = (if en_seed en then cfg_seed config else None)\<rparr>)"

section \<open>Choice of model and group\<close>

record ModelOption =
  opt_label :: jstring
  opt_value :: jstring

definition getModelFallback :: "ModelOption list \<Rightarrow> jstring \<Rightarrow> jstring option" where
  "getModelFallback models currentModel =
     (if list_ex (\<lambda>m. opt_value m = currentModel) models \<or> length models = 0 then None
      else Some (opt_value (models ! 0)))"

definition shouldClearModelForGroup :: "ModelOption list \<Rightarrow> jstring \<Rightarrow> bool" where
  "shouldClearModelForGroup models currentModel =
     (if currentModel = [] then False else \<not> list_ex (\<lambda>m. opt_value m = currentModel) models)"

record GroupOption =
  grp_label :: jstring
  grp_value :: jstring
  grp_ratio :: jsnum
  grp_desc :: "jstring option"

definition getGroupFallback :: "GroupOption list \<Rightarrow> jstring \<Rightarrow> jstring option" where
  "getGroupFallback groups currentGroup =
     (if list_ex (\<lambda>g. grp_value g = currentGroup) groups \<or> length groups = 0 then None
      else case find (\<lambda>g. grp_value g = js ''default'') groups of
             Some g \<Rightarrow> Some (grp_value g) | None \<Rightarrow> Some (grp_value (groups ! 0)))"

section \<open>The handlers of the conversation\<close>

text \<open>
  The state of the hook, with the messages and the lists handed to \<open>sendChat\<close>.  The hook replaces
  the messages by a list computed from the messages it was rendered with.
\<close>

record conversation =
  messages :: "Message list"
  editingMessageKey :: "jstring option"
  sent_chats :: "Message list list"

definition handleSendMessage ::
  "jstring \<times> jstring \<times> jstring \<times> jstring \<Rightarrow> int \<Rightarrow> jstring \<Rightarrow> conversation \<Rightarrow> conversation" where
  "handleSendMessage ids now text_in c =
     (let nextMessages = appendUserMessagePair ids now (messages c) text_in
      in c\<lparr>messages := nextMessages, sent_chats := sent_chats c @ [nextMessages]\<rparr>)"

definition handleRegenerateMessage ::
  "jstring \<times> jstring \<Rightarrow> int \<Rightarrow> Message \<Rightarrow> conversation \<Rightarrow> conversation" where
  "handleRegenerateMessage ids now message c =
     (case createRegeneratedMessages ids now (messages c) (key message) of
        None \<Rightarrow> c
      | Some nextMessages \<Rightarrow> c\<lparr>messages := nextMessages, sent_chats := sent_chats c @ [nextMessages]\<rparr>)"

definition handleEditMessage :: "Message \<Rightarrow> conversation \<Rightarrow> conversation" where
  "handleEditMessage message c = c\<lparr>editingMessageKey := Some (key message)\<rparr>"

definition handleEditOpenChange :: "bool \<Rightarrow> conversation \<Rightarrow> conversation" where
  "handleEditOpenChange is_open c = (if \<not> is_open then c\<lparr>editingMessageKey := None\<rparr> else c)"

definition applyEdit ::
  "jstring \<times> jstring \<Rightarrow> int \<Rightarrow> jstring \<Rightarrow> bool \<Rightarrow> conversation \<Rightarrow> conversation" where
  "applyEdit ids now newContent shouldSubmit c =
     (case editingMessageKey c of
        None \<Rightarrow> c
      | Some k \<Rightarrow>
          if k = [] then c
          else case applyMessageEdit ids now (messages c) k newContent shouldSubmit of
            None \<Rightarrow> c
          | Some r \<Rightarrow>
              (let c1 = c\<lparr>editingMessageKey := None, messages := edited_messages r\<rparr>
               in if shouldSend r then c1\<lparr>sent_chats := sent_chats c1 @ [edited_messages r]\<rparr> else c1))"

definition handleDeleteMessage :: "Message \<Rightarrow> conversation \<Rightarrow> conversation" where
  "handleDeleteMessage message c = c\<lparr>messages := removeMessageByKey (messages c) (key message)\<rparr>"

section \<open>Properties\<close>

lemma findIndex_Some:
  "findIndex p xs = Some i \<longleftrightarrow> i < length xs \<and> p (xs ! i) \<and> (\<forall>j < i. \<not> p (xs ! j))"
proof
  assume "findIndex p xs = Some i"
  then show "i < length xs \<and> p (xs ! i) \<and> (\<forall>j < i. \<not> p (xs ! j))"
    by (auto simp: findIndex_def find_Some_iff)
next
  assume "i < length xs \<and> p (xs ! i) \<and> (\<forall>j < i. \<not> p (xs ! j))"
  then show "findIndex p xs = Some i"
    by (auto simp: findIndex_def find_Some_iff)
qed

lemma findIndex_None: "findIndex p xs = None \<longleftrightarrow> (\<forall>x \<in> set xs. \<not> p x)"
  by (simp add: findIndex_def find_None_iff) (metis atLeastLessThan_iff in_set_conv_nth nth_mem zero_le)

lemma loading_message_simps [simp]:
  "key (createLoadingAssistantMessage k v now) = k"
  "sender (createLoadingAssistantMessage k v now) = Assistant"
  "getMessageContent (createLoadingAssistantMessage k v now) = []"
  "\<not> isValidMessage (createLoadingAssistantMessage k v now)"
  "isAssistantMessagePending (createLoadingAssistantMessage k v now)"
  by (simp_all add: createLoadingAssistantMessage_def createMessageVersion_def isValidMessage_def
      isAssistantMessagePending_def playground_defs)

lemma user_message_simps [simp]:
  "key (createUserMessage k v c now) = k"
  "sender (createUserMessage k v c now) = User"
  "formatMessageForAPI (createUserMessage k v c now) = (User, c)"
  "isValidMessage (createUserMessage k v c now)"
  by (simp_all add: createUserMessage_def createMessageVersion_def isValidMessage_def formatMessageForAPI_def
      getCurrentVersion_def)

definition api_messages :: "Message list \<Rightarrow> (MessageRole \<times> jstring) list" where
  "api_messages ms = map formatMessageForAPI (filter isValidMessage ms)"

lemma req_messages_eq: "req_messages (buildChatCompletionPayload ms cfg en) = api_messages ms"
  by (simp add: buildChatCompletionPayload_def api_messages_def)

text \<open>
  Sending a text asks the model about exactly the conversation so far followed by that text:
  the placeholder for the answer, and every assistant message without text, stay out of the request,
  and the parameters in it are exactly the enabled ones.
\<close>

theorem handleSendMessage_request:
  "let c' = handleSendMessage ids now q c;
       r = buildChatCompletionPayload (messages c') cfg en
   in req_messages r = req_messages (buildChatCompletionPayload (messages c) cfg en) @ [(User, q)] \<and>
      (\<exists>m. messages c' = butlast (messages c') @ [m] \<and> sender m = Assistant \<and> isAssistantMessagePending m) \<and>
      last (sent_chats c') = messages c' \<and>
      (req_temperature r = None \<longleftrightarrow> \<not> en_temperature en) \<and> (req_seed r \<noteq> None \<longrightarrow> en_seed en)"
proof -
  obtain k1 v1 k2 v2 where ids: "ids = (k1, v1, k2, v2)" by (cases ids)
  have m: "messages (handleSendMessage ids now q c) =
      messages c @ [createUserMessage k1 v1 q now, createLoadingAssistantMessage k2 v2 now]"
    by (simp add: handleSendMessage_def appendUserMessagePair_def ids Let_def)
  have a: "api_messages (messages (handleSendMessage ids now q c)) = api_messages (messages c) @ [(User, q)]"
    by (simp add: m api_messages_def)
  have l: "last (sent_chats (handleSendMessage ids now q c)) = messages (handleSendMessage ids now q c)"
    by (simp add: handleSendMessage_def Let_def)
  show ?thesis
    unfolding Let_def req_messages_eq a
    using l by (auto simp: m butlast_append buildChatCompletionPayload_def)
qed

text \<open>
  Regenerating at a message cuts the conversation there and appends one fresh placeholder: a
  user message is kept and asked again, an assistant message is replaced; what is sent is what is
  shown, and an unknown message changes nothing.
\<close>

theorem handleRegenerateMessage_cuts:
  assumes "findIndex (\<lambda>m. key m = key msg) (messages c) = Some i"
  shows "let c' = handleRegenerateMessage ids now msg c;
             n = (if sender (messages c ! i) = User then i + 1 else i)
         in take n (messages c') = take n (messages c) \<and> length (messages c') = n + 1 \<and>
            isPendingAssistantMessage (Some (messages c' ! n)) \<and>
            sent_chats c' = sent_chats c @ [messages c'] \<and>
            req_messages (buildChatCompletionPayload (messages c') cfg en) = api_messages (take n (messages c))"
proof -
  define n where "n = (if sender (messages c ! i) = User then i + 1 else i)"
  let ?p = "createLoadingAssistantMessage (fst ids) (snd ids) now"
  have i: "i < length (messages c)" using assms by (simp add: findIndex_Some)
  then have l: "length (take n (messages c)) = n" by (simp add: n_def)
  have e: "handleRegenerateMessage ids now msg c =
      c\<lparr>messages := take n (messages c) @ [?p], sent_chats := sent_chats c @ [take n (messages c) @ [?p]]\<rparr>"
    using assms by (simp add: handleRegenerateMessage_def createRegeneratedMessages_def n_def)
  have p: "(take n (messages c) @ [?p]) ! n = ?p" using l by (metis nth_append_length)
  have a: "api_messages (take n (messages c) @ [?p]) = api_messages (take n (messages c))"
    by (simp add: api_messages_def)
  have t: "take n (take n (messages c) @ [?p]) = take n (messages c)" using l by simp
  show ?thesis
    unfolding Let_def e req_messages_eq n_def [symmetric]
    by (simp add: p a t l isPendingAssistantMessage_def del: take_append length_take)
qed

text \<open>
  Editing changes the text of the edited message and of no other.  Submitting the edit of a user
  message drops everything after it and asks the model about the conversation that ends in the new
  text; saving without submitting, or editing an answer, sends nothing and keeps every message.
\<close>

theorem applyMessageEdit_effect:
  assumes "distinct (map key ms)" "applyMessageEdit ids now ms k c submit = Some r"
  shows "\<exists>i < length ms. key (ms ! i) = k \<and>
     shouldSend r = (submit \<and> sender (ms ! i) = User) \<and>
     (\<forall>j < length ms. j < length (edited_messages r) \<and> (shouldSend r \<longrightarrow> j \<le> i) \<longrightarrow>
        getMessageContent (edited_messages r ! j) = (if j = i then c else getMessageContent (ms ! j)) \<and>
        key (edited_messages r ! j) = key (ms ! j)) \<and>
     (\<not> shouldSend r \<longrightarrow> length (edited_messages r) = length ms) \<and>
     (shouldSend r \<longrightarrow> api_messages (edited_messages r) = api_messages (take i ms) @ [(User, c)])"
proof -
  let ?u = "\<lambda>m. if key m = k then (updateCurrentVersionContent m c)
      \<lparr>createdAt := (if submit then Some now else createdAt m)\<rparr> else m"
  let ?p = "createLoadingAssistantMessage (fst ids) (snd ids) now"
  from assms(2) obtain i where fi: "findIndex (\<lambda>m. key m = k) ms = Some i"
    by (auto simp: applyMessageEdit_def split: option.splits)
  then have i: "i < length ms" "key (ms ! i) = k" by (simp_all add: findIndex_Some)
  have other: "key (ms ! j) \<noteq> k" if "j < length ms" "j \<noteq> i" for j
    using assms(1) i that by (metis length_map nth_eq_iff_index_eq nth_map)
  have su: "sender (?u m) = sender m" "key (?u m) = key m" for m by simp_all
  have cu: "getMessageContent (?u (ms ! j)) = (if j = i then c else getMessageContent (ms ! j))"
    if "j < length ms" for j
    using other [OF that] i by (auto simp: getMessageContent_def updateCurrentVersionContent_def getCurrentVersion_def)
  have r: "r = (if submit \<and> sender (ms ! i) = User
      then \<lparr>edited_messages = take (i + 1) (map ?u ms) @ [?p], shouldSend = True\<rparr>
      else \<lparr>edited_messages = map ?u ms, shouldSend = False\<rparr>)"
    using assms(2) fi i(1) by (auto simp: applyMessageEdit_def Let_def split: if_splits)
  have nk: "key m \<noteq> k" if "m \<in> set (take i ms)" for m
  proof -
    from that obtain j where "j < i" "m = ms ! j" by (auto simp: in_set_conv_nth)
    with other [of j] i(1) show ?thesis by simp
  qed
  have mapid: "map ?u (take i ms) = take i ms"
    by (intro map_idI) (simp add: nk)
  have cut: "take (i + 1) (map ?u ms) = take i ms @ [?u (ms ! i)]"
    using i(1) mapid by (simp add: take_map take_Suc_conv_app_nth)
  have api: "api_messages (take (i + 1) (map ?u ms) @ [?p]) = api_messages (take i ms) @ [(User, c)]"
    if "sender (ms ! i) = User"
  proof -
    have "isValidMessage (?u (ms ! i))" "formatMessageForAPI (?u (ms ! i)) = (User, c)"
      using that i(2) by (simp_all add: isValidMessage_def formatMessageForAPI_def
          updateCurrentVersionContent_def getCurrentVersion_def)
    then show ?thesis unfolding cut api_messages_def by simp
  qed
  define u where "u = ?u"
  have u: "getMessageContent (u (ms ! j)) = (if j = i then c else getMessageContent (ms ! j)) \<and>
      key (u (ms ! j)) = key (ms ! j)" if "j < length ms" for j
    unfolding u_def using cu [OF that] su(2) by blast
  show ?thesis
  proof (cases "submit \<and> sender (ms ! i) = User")
    case True
    then have e: "r = \<lparr>edited_messages = take (i + 1) (map u ms) @ [?p], shouldSend = True\<rparr>"
      unfolding r u_def by (rule if_P)
    have nth: "edited_messages r ! j = u (ms ! j)" if "j \<le> i" for j
      using that i(1) by (simp add: e nth_append)
    have "api_messages (edited_messages r) = api_messages (take i ms) @ [(User, c)]"
      using api True by (simp add: e u_def)
    moreover have "\<forall>j < length ms. j < length (edited_messages r) \<and> (shouldSend r \<longrightarrow> j \<le> i) \<longrightarrow>
        getMessageContent (edited_messages r ! j) = (if j = i then c else getMessageContent (ms ! j)) \<and>
        key (edited_messages r ! j) = key (ms ! j)"
    proof (intro allI impI)
      fix j assume "j < length ms" "j < length (edited_messages r) \<and> (shouldSend r \<longrightarrow> j \<le> i)"
      then have j: "j < length ms" "j \<le> i" by (simp_all add: e)
      show "getMessageContent (edited_messages r ! j) = (if j = i then c else getMessageContent (ms ! j)) \<and>
          key (edited_messages r ! j) = key (ms ! j)"
        unfolding nth [OF j(2)] by (rule u [OF j(1)])
    qed
    moreover have "shouldSend r" by (simp add: e)
    ultimately show ?thesis using i True by blast
  next
    case False
    then have e: "r = \<lparr>edited_messages = map u ms, shouldSend = False\<rparr>"
      unfolding r u_def by (rule if_not_P)
    have "\<forall>j < length ms. getMessageContent (edited_messages r ! j) =
        (if j = i then c else getMessageContent (ms ! j)) \<and> key (edited_messages r ! j) = key (ms ! j)"
      using u by (simp add: e)
    moreover have "\<not> shouldSend r" "length (edited_messages r) = length ms" by (simp_all add: e)
    ultimately show ?thesis using i False by blast
  qed
qed

section \<open>A sample conversation\<close>

definition sample_conversation :: conversation where
  "sample_conversation = \<lparr>messages = [createUserMessage (js ''u'') (js ''v1'') (js ''hi'') 10, sample_message],
     editingMessageKey = Some (js ''u''), sent_chats = []\<rparr>"

lemma sample_index:
  "findIndex (\<lambda>m. key m = js ''k'') (messages sample_conversation) = Some 1"
  "findIndex (\<lambda>m. key m = js ''u'') (messages sample_conversation) = Some 0"
  by (simp_all add: findIndex_def sample_conversation_def sample_message_def upt_rec)

theorem handleSendMessage_request_witness:
  "req_messages (buildChatCompletionPayload
     (messages (handleSendMessage (js ''a'', js ''b'', js ''c'', js ''d'') 20 (js ''more'') sample_conversation))
     DEFAULT_CONFIG DEFAULT_PARAMETER_ENABLED) =
   req_messages (buildChatCompletionPayload (messages sample_conversation) DEFAULT_CONFIG DEFAULT_PARAMETER_ENABLED)
     @ [(User, js ''more'')]"
  using handleSendMessage_request [of "(js ''a'', js ''b'', js ''c'', js ''d'')" 20 "js ''more''"
      sample_conversation DEFAULT_CONFIG DEFAULT_PARAMETER_ENABLED]
  by (simp only: Let_def)

theorem handleRegenerateMessage_cuts_witness:
  "length (messages (handleRegenerateMessage (js ''x'', js ''y'') 30 sample_message sample_conversation)) = 2"
proof -
  have "sender (messages sample_conversation ! 1) = Assistant"
    by (simp add: sample_conversation_def sample_message_def)
  with handleRegenerateMessage_cuts [of sample_message sample_conversation 1 "(js ''x'', js ''y'')" 30]
  show ?thesis using sample_index(1) by (simp add: Let_def sample_message_def)
qed

theorem applyMessageEdit_effect_witness:
  "\<exists>r. applyMessageEdit (js ''x'', js ''y'') 30 (messages sample_conversation) (js ''u'') (js ''new'') True = Some r \<and>
     shouldSend r \<and> api_messages (edited_messages r) = [(User, js ''new'')]"
proof -
  have d: "distinct (map key (messages sample_conversation))"
    by (simp add: sample_conversation_def sample_message_def)
  have u: "sender (messages sample_conversation ! 0) = User" by (simp add: sample_conversation_def)
  obtain r where r: "applyMessageEdit (js ''x'', js ''y'') 30 (messages sample_conversation) (js ''u'') (js ''new'') True = Some r"
    by (cases "applyMessageEdit (js ''x'', js ''y'') 30 (messages sample_conversation) (js ''u'') (js ''new'') True")
      (simp_all add: applyMessageEdit_def sample_index Let_def split: if_splits)
  from applyMessageEdit_effect [OF d r] obtain i where
    i: "i < length (messages sample_conversation)" "key (messages sample_conversation ! i) = js ''u''"
      "shouldSend r = (sender (messages sample_conversation ! i) = User)"
      "shouldSend r \<longrightarrow> api_messages (edited_messages r) = api_messages (take i (messages sample_conversation)) @ [(User, js ''new'')]"
    by auto
  have "i = 0" using i(1,2) by (cases i) (auto simp: sample_conversation_def sample_message_def)
  with i u r show ?thesis by (simp add: api_messages_def)
qed

end
