(* ===== verification/Stream_Controller.thy ===== *)
theory Stream_Controller
  imports Playground_Messages Guards
begin

text \<open>
  Streaming a chat completion (\<open>lib/streaming/stream-utils.ts\<close>,
  \<open>lib/streaming/request-error-utils.ts\<close> and \<open>createStreamRequestController\<close> of
  \<open>hooks/use-stream-request.ts\<close>): reading the events of the stream, and the controller that
  starts, stops and replaces streams and forwards their events to the callbacks of the request.

  A request is suspended once, while it waits for its headers; afterwards its event listeners run
  whenever the event source dispatches an event.  The event source belongs to a library: the model
  keeps its identity, whether it was closed, and lets every event happen at any time.
\<close>

section \<open>Reading stream events\<close>

definition STREAM_DONE_MESSAGE :: jstring where
  "STREAM_DONE_MESSAGE = js ''[DONE]''"

definition STREAM_CLOSED_READY_STATE :: nat where
  "STREAM_CLOSED_READY_STATE = 2"

record StreamErrorDetails =
  details_code :: jsval
  details_message :: jsval

definition parseStreamErrorDetails :: "jstring option \<Rightarrow> StreamErrorDetails" where
  "parseStreamErrorDetails data =
     (let fallbackMessage = JStr (opt_or data API_REQUEST_ERROR);
          fallback = \<lparr>details_code = JUndef, details_message = fallbackMessage\<rparr>
      in case data of
           None \<Rightarrow> fallback
         | Some d \<Rightarrow>
             if d = [] then fallback
             else case json_parse d of
               None \<Rightarrow> fallback
             | Some parsed \<Rightarrow>
                 (let err = get_prop parsed (js ''error'')
                  in if \<not> truthy err then fallback
                     else \<lparr>details_code = js_or (get_prop err (js ''code'')) JUndef,
                           details_message = js_or (get_prop err (js ''message'')) fallbackMessage\<rparr>))"

text \<open>\<open>v?.[0]\<close>\<close>

definition first_item :: "jsval \<Rightarrow> jsval" where
  "first_item v = (case v of JArr (x # _) \<Rightarrow> x | JStr (c # _) \<Rightarrow> JStr [c]
     | JObj es \<Rightarrow> get_prop v (js ''0'') | _ \<Rightarrow> JUndef)"

type_synonym stream_update = "StreamChunkType \<times> jsval"

text \<open>\<open>None\<close> is an exception: the data is not JSON, or it is \<open>null\<close>.\<close>

definition parseStreamMessageUpdates :: "jstring \<Rightarrow> stream_update list option" where
  "parseStreamMessageUpdates data =
     (case json_parse data of
        None \<Rightarrow> None
      | Some chunk \<Rightarrow>
          if chunk = JNull then None
          else let delta = get_prop (first_item (get_prop chunk (js ''choices''))) (js ''delta'')
               in if \<not> truthy delta then Some []
                  else Some (
                    (if truthy (get_prop delta (js ''reasoning_content''))
                     then [(ReasoningChunk, get_prop delta (js ''reasoning_content''))] else []) @
                    (if truthy (get_prop delta (js ''content''))
                     then [(ContentChunk, get_prop delta (js ''content''))] else [])))"

definition isStreamDoneMessage :: "jstring \<Rightarrow> bool" where
  "isStreamDoneMessage data \<longleftrightarrow> data = STREAM_DONE_MESSAGE"

definition isStreamClosedReadyState :: "nat option \<Rightarrow> bool" where
  "isStreamClosedReadyState readyState \<longleftrightarrow> readyState = Some STREAM_CLOSED_READY_STATE"

definition getStreamReadyStateError :: "nat option \<Rightarrow> nat option \<Rightarrow> jstring option" where
  "getStreamReadyStateError eventReadyState source_status =
     (case (eventReadyState, source_status) of
        (Some r, Some st) \<Rightarrow>
          if STREAM_CLOSED_READY_STATE \<le> r \<and> st \<noteq> 200
          then Some (js ''HTTP '' @ show_nat st @ js '': '' @ CONNECTION_CLOSED) else None
      | _ \<Rightarrow> None)"

definition parseRequestErrorDetails :: "jsval \<Rightarrow> StreamErrorDetails" where
  "parseRequestErrorDetails err =
     (let data = get_prop (get_prop err (js ''response'')) (js ''data'')
      in \<lparr>details_code = js_or (get_prop (get_prop data (js ''error'')) (js ''code'')) JUndef,
          details_message = js_or (get_prop data (js ''message''))
            (js_or (get_prop err (js ''message'')) (JStr API_REQUEST_ERROR))\<rparr>)"

section \<open>The controller\<close>

text \<open>
  A request: the generation it was sent in, and how far it is.  Its event source, if it has one, is
  known by the number of the request.
\<close>

datatype request_pc = AwaitHeaders | Attached bool | Ended

record stream_request =
  requestGeneration :: nat
  request_pc :: request_pc

datatype callback = OnUpdate StreamChunkType jsval | OnComplete | OnError jsval jsval

record controller =
  source :: "nat option"
  generation :: nat
  streaming :: bool
  requests :: "stream_request list"
  closed :: "nat set"
  calls :: "(nat \<times> callback) list"

definition initial_controller :: controller where
  "initial_controller = \<lparr>source = None, generation = 0, streaming = False, requests = [], closed = {}, calls = []\<rparr>"

definition close_source :: "nat option \<Rightarrow> controller \<Rightarrow> controller" where
  "close_source s c = (case s of None \<Rightarrow> c | Some i \<Rightarrow> c\<lparr>closed := insert i (closed c)\<rparr>)"

definition call :: "nat \<Rightarrow> callback \<Rightarrow> controller \<Rightarrow> controller" where
  "call i cb c = c\<lparr>calls := calls c @ [(i, cb)]\<rparr>"

definition set_pc :: "nat \<Rightarrow> request_pc \<Rightarrow> controller \<Rightarrow> controller" where
  "set_pc i pc c = c\<lparr>requests := (requests c)[i := (requests c ! i)\<lparr>request_pc := pc\<rparr>]\<rparr>"

definition closeActiveSource :: "nat \<Rightarrow> controller \<Rightarrow> controller" where
  "closeActiveSource target c =
     (let c1 = close_source (Some target) c
      in if source c1 = Some target then c1\<lparr>source := None, streaming := False\<rparr> else c1)"

text \<open>\<open>send\<close>, up to the request for headers; the new request is the last of the list.\<close>

definition send :: "controller \<Rightarrow> controller" where
  "send c =
     (let g = generation c + 1; previousSource = source c;
          c1 = close_source previousSource (c\<lparr>generation := g, source := None\<rparr>)
      in c1\<lparr>streaming := False,
            requests := requests c1 @ [\<lparr>requestGeneration = g, request_pc = AwaitHeaders\<rparr>]\<rparr>)"

text \<open>The headers could not be obtained; the error is the message of the exception, if it has one.\<close>

definition headers_failed :: "nat \<Rightarrow> jstring option \<Rightarrow> controller \<Rightarrow> controller" where
  "headers_failed i err c =
     (if request_pc (requests c ! i) \<noteq> AwaitHeaders then c
      else let c1 = set_pc i Ended c
           in if generation c \<noteq> requestGeneration (requests c ! i) then c1
              else call i (OnError (JStr (case err of Some m \<Rightarrow> m | None \<Rightarrow> STREAM_START_ERROR)) JUndef) c1)"

definition isCurrent :: "nat \<Rightarrow> controller \<Rightarrow> bool" where
  "isCurrent i c \<longleftrightarrow> generation c = requestGeneration (requests c ! i) \<and> source c = Some i"

text \<open>The test at the start of every listener, with the flag \<open>completed\<close> of the request.\<close>

definition listening :: "nat \<Rightarrow> controller \<Rightarrow> bool" where
  "listening i c \<longleftrightarrow> isCurrent i c \<and> request_pc (requests c ! i) = Attached False"

definition handleError :: "nat \<Rightarrow> jsval \<Rightarrow> jsval \<Rightarrow> controller \<Rightarrow> controller" where
  "handleError i errorMessage code c =
     (if \<not> listening i c then c
      else closeActiveSource i (call i (OnError errorMessage code) (set_pc i (Attached True) c)))"

text \<open>The headers arrived; \<open>started\<close> tells whether starting the event source succeeded.\<close>

definition headers_ready :: "nat \<Rightarrow> bool \<Rightarrow> controller \<Rightarrow> controller" where
  "headers_ready i started c =
     (if request_pc (requests c ! i) \<noteq> AwaitHeaders then c
      else if generation c \<noteq> requestGeneration (requests c ! i) then set_pc i Ended c
      else let c1 = (set_pc i (Attached False) c)\<lparr>source := Some i, streaming := True\<rparr>
           in if started then c1 else handleError i (JStr STREAM_START_ERROR) JUndef c1)"

definition on_message :: "nat \<Rightarrow> jstring option \<Rightarrow> controller \<Rightarrow> controller" where
  "on_message i event_data c =
     (if \<not> listening i c then c
      else let data = (case event_data of Some d \<Rightarrow> d | None \<Rightarrow> [])
           in if isStreamDoneMessage data
              then call i OnComplete (closeActiveSource i (set_pc i (Attached True) c))
              else case parseStreamMessageUpdates data of
                     Some updates \<Rightarrow> foldl (\<lambda>c u. call i (OnUpdate (fst u) (snd u)) c) c updates
                   | None \<Rightarrow> handleError i (JStr PARSE_ERROR) JUndef c)"

definition on_error :: "nat \<Rightarrow> nat option \<Rightarrow> jstring option \<Rightarrow> controller \<Rightarrow> controller" where
  "on_error i readyState event_data c =
     (if \<not> listening i c then c
      else if \<not> isStreamClosedReadyState readyState
      then let d = parseStreamErrorDetails event_data in handleError i (details_message d) (details_code d) c
      else c)"

definition on_readystatechange :: "nat \<Rightarrow> nat option \<Rightarrow> nat option \<Rightarrow> controller \<Rightarrow> controller" where
  "on_readystatechange i eventReadyState source_status c =
     (if \<not> listening i c then c
      else case getStreamReadyStateError eventReadyState source_status of
             Some m \<Rightarrow> handleError i (JStr m) JUndef c | None \<Rightarrow> c)"

definition cancel :: "bool \<Rightarrow> controller \<Rightarrow> controller" where
  "cancel notify c =
     (let activeSource = source c;
          c1 = close_source activeSource (c\<lparr>generation := generation c + 1, source := None\<rparr>)
      in if notify then c1\<lparr>streaming := False\<rparr> else c1)"

definition stop :: "controller \<Rightarrow> controller" where
  "stop = cancel True"

definition dispose :: "controller \<Rightarrow> controller" where
  "dispose = cancel False"

section \<open>Everything that can happen to a controller\<close>

datatype stream_event =
    HeadersReady bool
  | HeadersFailed "jstring option"
  | MessageEvent "jstring option"
  | ErrorEvent "nat option" "jstring option"
  | ReadyStateEvent "nat option" "nat option"

fun dispatch :: "nat \<Rightarrow> stream_event \<Rightarrow> controller \<Rightarrow> controller" where
  "dispatch i (HeadersReady b) = headers_ready i b"
| "dispatch i (HeadersFailed e) = headers_failed i e"
| "dispatch i (MessageEvent d) = on_message i d"
| "dispatch i (ErrorEvent r d) = on_error i r d"
| "dispatch i (ReadyStateEvent r st) = on_readystatechange i r st"

inductive controller_step :: "controller \<Rightarrow> controller \<Rightarrow> bool" where
  step_send: "controller_step c (send c)"
| step_stop: "controller_step c (stop c)"
| step_dispose: "controller_step c (dispose c)"
| step_event: "i < length (requests c) \<Longrightarrow> controller_step c (dispatch i e c)"

inductive_cases controller_stepE: "controller_step c c'"

definition is_terminal :: "callback \<Rightarrow> bool" where
  "is_terminal cb = (case cb of OnUpdate _ _ \<Rightarrow> False | _ \<Rightarrow> True)"

text \<open>The callbacks that request \<open>i\<close> has received.\<close>

definition calls_of :: "nat \<Rightarrow> controller \<Rightarrow> callback list" where
  "calls_of i c = map snd (filter (\<lambda>x. fst x = i) (calls c))"

text \<open>
  The invariant of a request, given the callbacks it has received: updates first, then at most one
  completion or error, after which it is not listening any more; its source is the active one or
  has been closed.
\<close>

definition calls_ok :: "request_pc \<Rightarrow> callback list \<Rightarrow> bool" where
  "calls_ok pc cs \<longleftrightarrow> list_all (\<lambda>cb. \<not> is_terminal cb) (butlast cs) \<and>
     (list_ex is_terminal cs \<longrightarrow> pc = Attached True \<or> pc = Ended) \<and> (pc = AwaitHeaders \<longrightarrow> cs = [])"

definition request_ok :: "controller \<Rightarrow> nat \<Rightarrow> bool" where
  "request_ok c i \<longleftrightarrow> requestGeneration (requests c ! i) \<le> generation c \<and>
     calls_ok (request_pc (requests c ! i)) (calls_of i c) \<and>
     (\<forall>b. request_pc (requests c ! i) = Attached b \<longrightarrow> source c = Some i \<or> i \<in> closed c)"

definition controller_ok :: "controller \<Rightarrow> bool" where
  "controller_ok c \<longleftrightarrow> (\<forall>i < length (requests c). request_ok c i) \<and>
     (\<forall>i. source c = Some i \<longrightarrow> i < length (requests c) \<and> request_pc (requests c ! i) = Attached False \<and>
        requestGeneration (requests c ! i) = generation c \<and> streaming c) \<and>
     (\<forall>x \<in> set (calls c). fst x < length (requests c)) \<and>
     distinct (map requestGeneration (requests c))"

section \<open>Every operation keeps the invariant\<close>

lemma close_source_simps [simp]:
  "source (close_source s c) = source c" "generation (close_source s c) = generation c"
  "streaming (close_source s c) = streaming c" "requests (close_source s c) = requests c"
  "calls (close_source s c) = calls c" "closed (close_source s c) = set_option s \<union> closed c"
  by (auto simp: close_source_def split: option.splits)

lemma call_simps [simp]:
  "source (call i cb c) = source c" "generation (call i cb c) = generation c"
  "streaming (call i cb c) = streaming c" "requests (call i cb c) = requests c"
  "closed (call i cb c) = closed c" "calls (call i cb c) = calls c @ [(i, cb)]"
  by (simp_all add: call_def)

lemma set_pc_simps [simp]:
  "source (set_pc i pc c) = source c" "generation (set_pc i pc c) = generation c"
  "streaming (set_pc i pc c) = streaming c" "closed (set_pc i pc c) = closed c"
  "calls (set_pc i pc c) = calls c" "length (requests (set_pc i pc c)) = length (requests c)"
  by (simp_all add: set_pc_def)

lemma set_pc_nth [simp]:
  "j < length (requests c) \<Longrightarrow>
     requestGeneration (requests (set_pc i pc c) ! j) = requestGeneration (requests c ! j)"
  "i < length (requests c) \<Longrightarrow> request_pc (requests (set_pc i pc c) ! i) = pc"
  "i \<noteq> j \<Longrightarrow> requests (set_pc i pc c) ! j = requests c ! j"
  by (cases "i = j"; simp add: set_pc_def)+

lemma set_pc_generations [simp]:
  "map requestGeneration (requests (set_pc i pc c)) = map requestGeneration (requests c)"
proof (cases "i < length (requests c)")
  case True
  then have "map requestGeneration (requests c) ! i = requestGeneration (requests c ! i)" by simp
  then show ?thesis by (simp add: set_pc_def map_update) (metis list_update_id)
qed (simp add: set_pc_def list_update_beyond)

lemma calls_of_call [simp]:
  "calls_of j (call i cb c) = (if i = j then calls_of j c @ [cb] else calls_of j c)"
  by (simp add: calls_of_def)

lemma calls_of_cong: "calls c = calls c' \<Longrightarrow> calls_of i c = calls_of i c'"
  by (simp add: calls_of_def)

lemma closeActive_simps:
  "source (closeActiveSource i c) = (if source c = Some i then None else source c)"
  "generation (closeActiveSource i c) = generation c" "requests (closeActiveSource i c) = requests c"
  "calls (closeActiveSource i c) = calls c" "closed (closeActiveSource i c) = insert i (closed c)"
  "streaming (closeActiveSource i c) = (streaming c \<and> source c \<noteq> Some i)"
  by (auto simp: closeActiveSource_def Let_def)

lemma calls_ok_snoc: "calls_ok pc cs \<Longrightarrow> \<not> list_ex is_terminal cs \<Longrightarrow>
    pc' = Attached True \<or> pc' = Ended \<or> \<not> is_terminal cb \<and> pc' \<noteq> AwaitHeaders \<Longrightarrow> calls_ok pc' (cs @ [cb])"
  by (auto simp: calls_ok_def list_all_iff list_ex_iff)

lemma calls_ok_pc: "calls_ok pc cs \<Longrightarrow> \<not> list_ex is_terminal cs \<Longrightarrow> pc' \<noteq> AwaitHeaders \<Longrightarrow> calls_ok pc' cs"
  by (auto simp: calls_ok_def)

lemma calls_ok_open: "calls_ok pc cs \<Longrightarrow> pc = Attached False \<or> pc = AwaitHeaders \<Longrightarrow> \<not> list_ex is_terminal cs"
  by (auto simp: calls_ok_def)

text \<open>
  A listener that ends request \<open>i\<close>: it is marked, called back once, and the active source is closed.
\<close>

lemma finish_ok:
  assumes ok: "controller_ok c" and l: "listening i c" and i: "i < length (requests c)"
    and c': "requests c' = requests (set_pc i (Attached True) c)" "calls c' = calls c @ [(i, cb)]"
      "source c' = None" "generation c' = generation c" "closed c' = insert i (closed c)"
  shows "controller_ok c'"
proof -
  have pc: "request_pc (requests c ! i) = Attached False" and src: "source c = Some i"
    using l by (auto simp: listening_def isCurrent_def)
  have "request_ok c' j" if "j < length (requests c')" for j
  proof (cases "j = i")
    case True
    have ri: "request_ok c i" using ok i by (simp add: controller_ok_def)
    then have "calls_ok (Attached False) (calls_of i c)" by (simp add: request_ok_def pc)
    then have "calls_ok (Attached True) (calls_of i c @ [cb])"
      by (intro calls_ok_snoc) (auto dest: calls_ok_open)
    moreover have "calls_of i c' = calls_of i c @ [cb]" by (simp add: calls_of_def c')
    ultimately show ?thesis using ri i True by (simp add: request_ok_def c')
  next
    case False
    then have "calls_of j c' = calls_of j c" by (simp add: calls_of_def c')
    moreover have "request_ok c j" using ok that by (simp add: controller_ok_def c')
    ultimately show ?thesis using False src by (auto simp: request_ok_def c')
  qed
  then show ?thesis using ok i by (auto simp: controller_ok_def c')
qed

lemma handleError_ok: "controller_ok c \<Longrightarrow> i < length (requests c) \<Longrightarrow> controller_ok (handleError i m code c)"
proof (cases "listening i c")
  case True
  assume c: "controller_ok c" and i: "i < length (requests c)"
  from True have "source c = Some i" by (simp add: listening_def isCurrent_def)
  then have "controller_ok (closeActiveSource i (call i (OnError m code) (set_pc i (Attached True) c)))"
    by (intro finish_ok [OF c True i]) (simp_all add: closeActive_simps)
  with True show ?thesis by (simp add: handleError_def)
qed (simp add: handleError_def)

lemma updates_ok:
  "controller_ok c \<Longrightarrow> listening i c \<Longrightarrow> i < length (requests c) \<Longrightarrow>
   controller_ok (foldl (\<lambda>c u. call i (OnUpdate (fst u) (snd u)) c) c us)"
proof (induction us arbitrary: c)
  case (Cons u us)
  let ?c = "call i (OnUpdate (fst u) (snd u)) c"
  have pc: "request_pc (requests c ! i) = Attached False"
    using Cons.prems(2) by (simp add: listening_def)
  have "request_ok ?c j" if "j < length (requests c)" for j
  proof (cases "j = i")
    case True
    have "request_ok c i" using Cons.prems by (simp add: controller_ok_def)
    then show ?thesis using True pc
      by (auto simp: request_ok_def is_terminal_def intro!: calls_ok_snoc dest: calls_ok_open)
  next
    case False
    then show ?thesis using Cons.prems(1) that by (simp add: controller_ok_def request_ok_def)
  qed
  then have "controller_ok ?c" using Cons.prems by (auto simp: controller_ok_def)
  moreover have "listening i ?c" using Cons.prems(2) by (simp add: listening_def isCurrent_def)
  ultimately show ?case using Cons.IH [of ?c] Cons.prems(3) by simp
qed simp

lemma on_message_ok: "controller_ok c \<Longrightarrow> i < length (requests c) \<Longrightarrow> controller_ok (on_message i d c)"
proof (cases "listening i c")
  case True
  assume c: "controller_ok c" and i: "i < length (requests c)"
  from True have "source c = Some i" by (simp add: listening_def isCurrent_def)
  then have "controller_ok (call i OnComplete (closeActiveSource i (set_pc i (Attached True) c)))"
    by (intro finish_ok [OF c True i]) (simp_all add: closeActive_simps)
  then show ?thesis
    using c updates_ok [OF c True i] handleError_ok [OF c i]
    by (simp add: on_message_def Let_def split: option.splits)
qed (simp add: on_message_def)

lemma on_error_ok: "controller_ok c \<Longrightarrow> i < length (requests c) \<Longrightarrow> controller_ok (on_error i r d c)"
  by (simp add: on_error_def Let_def handleError_ok)

lemma on_readystatechange_ok:
  "controller_ok c \<Longrightarrow> i < length (requests c) \<Longrightarrow> controller_ok (on_readystatechange i r st c)"
  by (simp add: on_readystatechange_def handleError_ok split: option.splits)

text \<open>A request that waits for its headers goes on without a source: it ends, silently or with an error.\<close>

lemma end_ok:
  assumes ok: "controller_ok c" and i: "i < length (requests c)"
    and pc: "request_pc (requests c ! i) = AwaitHeaders"
  shows "controller_ok (set_pc i Ended c)" "controller_ok (call i cb (set_pc i Ended c))"
proof -
  have ri: "request_ok c i" using ok i by (simp add: controller_ok_def)
  then have cs: "calls_of i c = []" by (simp add: request_ok_def calls_ok_def pc)
  have ns: "source c \<noteq> Some i" using ok pc by (auto simp: controller_ok_def)
  have cong: "calls_of j (set_pc i Ended c) = calls_of j c" for j by (simp add: calls_of_def)
  have *: "request_ok (set_pc i Ended c) j \<and> request_ok (call i cb (set_pc i Ended c)) j"
    if "j < length (requests c)" for j
  proof (cases "j = i")
    case True
    with ri i cs show ?thesis by (simp add: request_ok_def cong calls_ok_def)
  next
    case False
    have "request_ok c j" using ok that by (simp add: controller_ok_def)
    with False show ?thesis by (simp add: request_ok_def cong)
  qed
  have src: "\<forall>j. source c = Some j \<longrightarrow> j \<noteq> i" using ns by auto
  show "controller_ok (set_pc i Ended c)" "controller_ok (call i cb (set_pc i Ended c))"
    using ok * src i by (auto simp: controller_ok_def)
qed

lemma headers_failed_ok: "controller_ok c \<Longrightarrow> i < length (requests c) \<Longrightarrow> controller_ok (headers_failed i e c)"
  by (simp add: headers_failed_def Let_def end_ok)

lemma attach_ok:
  assumes ok: "controller_ok c" and i: "i < length (requests c)"
    and pc: "request_pc (requests c ! i) = AwaitHeaders"
    and g: "generation c = requestGeneration (requests c ! i)"
  shows "controller_ok ((set_pc i (Attached False) c)\<lparr>source := Some i, streaming := True\<rparr>)"
proof -
  let ?c = "(set_pc i (Attached False) c)\<lparr>source := Some i, streaming := True\<rparr>"
  have none: "source c = None"
  proof (rule ccontr)
    assume "source c \<noteq> None"
    then obtain j where j: "source c = Some j" by blast
    with ok have "j < length (requests c)" "requestGeneration (requests c ! j) = generation c"
      "request_pc (requests c ! j) = Attached False"
      by (auto simp: controller_ok_def)
    moreover from this g i ok have "j = i"
      by (metis controller_ok_def distinct_conv_nth length_map nth_map)
    ultimately show False using pc by simp
  qed
  have cong: "calls_of j ?c = calls_of j c" for j by (simp add: calls_of_def)
  have "request_ok ?c j" if "j < length (requests c)" for j
  proof (cases "j = i")
    case True
    have "request_ok c i" using ok i by (simp add: controller_ok_def)
    with True i pc g show ?thesis by (simp add: request_ok_def cong calls_ok_def)
  next
    case False
    have "request_ok c j" using ok that by (simp add: controller_ok_def)
    with False none show ?thesis by (auto simp: request_ok_def cong)
  qed
  then show ?thesis using ok i g by (auto simp: controller_ok_def)
qed

lemma headers_ready_ok: "controller_ok c \<Longrightarrow> i < length (requests c) \<Longrightarrow> controller_ok (headers_ready i b c)"
  by (simp add: headers_ready_def Let_def end_ok attach_ok handleError_ok)

lemma cancel_ok: "controller_ok c \<Longrightarrow> controller_ok (cancel notify c)"
proof -
  assume ok: "controller_ok c"
  let ?c = "cancel notify c"
  have s: "source ?c = None" "requests ?c = requests c" "calls ?c = calls c" "generation ?c = generation c + 1"
    "closed ?c = set_option (source c) \<union> closed c"
    by (simp_all add: cancel_def Let_def)
  have "request_ok ?c j" if "j < length (requests c)" for j
  proof -
    have "request_ok c j" using ok that by (simp add: controller_ok_def)
    moreover have "calls_of j ?c = calls_of j c" by (simp add: calls_of_def s)
    ultimately show ?thesis by (auto simp: request_ok_def s)
  qed
  with ok show ?thesis by (auto simp: controller_ok_def s)
qed

lemma send_eq: "send c = (cancel True c)\<lparr>requests := requests c @
    [\<lparr>requestGeneration = generation c + 1, request_pc = AwaitHeaders\<rparr>]\<rparr>"
  by (simp add: send_def cancel_def close_source_def Let_def split: option.splits)

lemma add_request_ok:
  assumes ok: "controller_ok c" and fresh: "\<forall>r \<in> set (requests c). requestGeneration r < generation c"
    and s: "source c = None"
  shows "controller_ok (c\<lparr>requests := requests c @ [\<lparr>requestGeneration = generation c, request_pc = AwaitHeaders\<rparr>]\<rparr>)"
    (is "controller_ok ?c")
proof -
  have cong: "calls_of j ?c = calls_of j c" for j by (simp add: calls_of_def)
  have new: "calls_of (length (requests c)) c = []"
    using ok by (auto simp: calls_of_def controller_ok_def filter_empty_conv)
  have "request_ok ?c j" if "j < length (requests ?c)" for j
  proof (cases "j < length (requests c)")
    case True
    then have "request_ok c j" using ok by (simp add: controller_ok_def)
    with True show ?thesis by (simp add: request_ok_def cong nth_append)
  next
    case False
    with that have "j = length (requests c)" by simp
    with new show ?thesis by (simp add: request_ok_def cong calls_ok_def nth_append)
  qed
  moreover have "generation c \<notin> set (map requestGeneration (requests c))"
    using fresh by auto
  ultimately show ?thesis using ok s by (auto simp: controller_ok_def less_Suc_eq)
qed

lemma send_ok: "controller_ok c \<Longrightarrow> controller_ok (send c)"
proof -
  assume ok: "controller_ok c"
  have g: "generation (cancel True c) = generation c + 1" "source (cancel True c) = None"
    "requests (cancel True c) = requests c"
    by (simp_all add: cancel_def Let_def)
  have "\<forall>r \<in> set (requests c). requestGeneration r \<le> generation c"
    using ok by (auto simp: controller_ok_def request_ok_def in_set_conv_nth)
  then have "\<forall>r \<in> set (requests (cancel True c)). requestGeneration r < generation (cancel True c)"
    by (auto simp: g less_Suc_eq_le)
  from add_request_ok [OF cancel_ok [OF ok] this g(2)] show ?thesis by (simp add: send_eq g)
qed

lemma dispatch_ok: "controller_ok c \<Longrightarrow> i < length (requests c) \<Longrightarrow> controller_ok (dispatch i e c)"
  by (cases e) (simp_all add: headers_ready_ok headers_failed_ok on_message_ok on_error_ok on_readystatechange_ok)

lemma initial_controller_ok: "controller_ok initial_controller"
  by (simp add: controller_ok_def initial_controller_def)

lemma controller_step_ok: "controller_ok c \<Longrightarrow> controller_step c c' \<Longrightarrow> controller_ok c'"
  by (erule controller_stepE) (simp_all add: send_ok cancel_ok stop_def dispose_def dispatch_ok)

section \<open>Superseded requests\<close>

lemma updates_simps:
  "generation (foldl (\<lambda>c u. call i (OnUpdate (fst u) (snd u)) c) c us) = generation c"
  "requests (foldl (\<lambda>c u. call i (OnUpdate (fst u) (snd u)) c) c us) = requests c"
  by (induction us arbitrary: c) simp_all

lemma handleError_generation [simp]: "generation (handleError i m code c) = generation c"
  by (simp add: handleError_def closeActive_simps)

lemma dispatch_generation: "generation (dispatch i e c) = generation c"
  by (cases e) (auto simp: headers_ready_def headers_failed_def on_message_def on_error_def
      on_readystatechange_def closeActive_simps updates_simps Let_def split: option.splits)

lemma controller_step_generation: "controller_step c c' \<Longrightarrow> generation c \<le> generation c'"
  by (erule controller_stepE)
    (simp_all add: send_eq cancel_def stop_def dispose_def dispatch_generation Let_def)

text \<open>What the user of the controller sees: the active and the closed sources, the flag, the callbacks.\<close>

definition visible :: "controller \<Rightarrow> nat option \<times> bool \<times> nat set \<times> (nat \<times> callback) list" where
  "visible c = (source c, streaming c, closed c, calls c)"

lemma stale_dispatch: "requestGeneration (requests c ! i) \<noteq> generation c \<Longrightarrow> visible (dispatch i e c) = visible c"
  by (cases e) (auto simp: visible_def headers_ready_def headers_failed_def on_message_def on_error_def
      on_readystatechange_def listening_def isCurrent_def Let_def)

definition generation_event :: "nat \<Rightarrow> nat \<times> stream_event \<Rightarrow> controller \<Rightarrow> controller" where
  "generation_event g ie c =
     (if requestGeneration (requests c ! fst ie) = g then dispatch (fst ie) (snd ie) c else c)"

interpretation sc: epoch_guard controller_step controller_ok generation generation_event visible
proof unfold_locales
  show "visible (generation_event g e s) = visible s" if "g \<noteq> generation s" for g e s
    using that stale_dispatch by (auto simp: generation_event_def)
qed (auto intro: controller_step_ok controller_step_generation)

lemma handleError_requests:
  "j < length (requests c) \<Longrightarrow> j < length (requests (handleError i m code c)) \<and>
     requestGeneration (requests (handleError i m code c) ! j) = requestGeneration (requests c ! j)"
  by (simp add: handleError_def closeActive_simps)

lemma dispatch_requests:
  "j < length (requests c) \<Longrightarrow> j < length (requests (dispatch i e c)) \<and>
     requestGeneration (requests (dispatch i e c) ! j) = requestGeneration (requests c ! j)"
proof (cases e)
  case (HeadersReady b)
  assume j: "j < length (requests c)"
  let ?c = "(set_pc i (Attached False) c)\<lparr>source := Some i, streaming := True\<rparr>"
  have "j < length (requests ?c)" "requestGeneration (requests ?c ! j) = requestGeneration (requests c ! j)"
    using j by simp_all
  with HeadersReady j handleError_requests [of j ?c] show ?thesis
    by (auto simp: headers_ready_def Let_def)
qed (auto simp: headers_failed_def on_message_def on_error_def on_readystatechange_def closeActive_simps
    updates_simps handleError_requests Let_def split: option.splits)

lemma step_requests:
  "controller_step c c' \<Longrightarrow> j < length (requests c) \<Longrightarrow> j < length (requests c') \<and>
     requestGeneration (requests c' ! j) = requestGeneration (requests c ! j)"
  by (erule controller_stepE)
    (auto simp: send_eq cancel_def stop_def dispose_def dispatch_requests Let_def nth_append)

lemma reach_requests:
  "reach controller_step c c' \<Longrightarrow> j < length (requests c) \<Longrightarrow> j < length (requests c') \<and>
     requestGeneration (requests c' ! j) = requestGeneration (requests c ! j)"
proof (induction rule: reach.induct)
  case (reach_step s t)
  then show ?case using step_requests by metis
qed simp

lemma reachable_controller_ok: "reach controller_step initial_controller c \<Longrightarrow> controller_ok c"
  using sc.reach_good initial_controller_ok by blast

section \<open>Properties\<close>

text \<open>
  C5. A request that was replaced, stopped or disposed of is silent from then on: no event of its
  source and no late answer for its headers, at any later time, makes a callback, opens or closes a
  source or moves the streaming flag.
\<close>

theorem superseded_request_is_silent:
  assumes "reach controller_step initial_controller c" "i < length (requests c)"
    "requestGeneration (requests c ! i) < generation c" "reach controller_step c c'"
  shows "visible (dispatch i e c') = visible c'"
proof -
  have "controller_ok c" using assms(1) by (rule reachable_controller_ok)
  then have "visible (generation_event (requestGeneration (requests c ! i)) (i, e) c') = visible c'"
    by (rule sc.superseded_forever [OF _ assms(3,4)])
  moreover have "requestGeneration (requests c' ! i) = requestGeneration (requests c ! i)"
    using reach_requests [OF assms(4,2)] by blast
  ultimately show ?thesis by (simp add: generation_event_def)
qed

text \<open>
  C6. Every request is told its end at most once: it receives updates, then at most one completion
  or error, and nothing after that.
\<close>

theorem request_ends_once:
  assumes "reach controller_step initial_controller c" "i < length (requests c)"
  shows "list_all (\<lambda>cb. \<not> is_terminal cb) (butlast (calls_of i c))"
  using reachable_controller_ok [OF assms(1)] assms(2)
  by (auto simp: controller_ok_def request_ok_def calls_ok_def)

text \<open>
  No event source is leaked: every source that was opened is the active one or has been closed,
  and while a source is active it belongs to the newest generation and the streaming flag is set.
\<close>

theorem no_source_leaks:
  assumes "reach controller_step initial_controller c" "i < length (requests c)"
    "request_pc (requests c ! i) = Attached b"
  shows "(source c = Some i \<or> i \<in> closed c) \<and>
    (source c = Some i \<longrightarrow> requestGeneration (requests c ! i) = generation c \<and> streaming c \<and> \<not> b)"
  using reachable_controller_ok [OF assms(1)] assms(2,3)
  by (auto simp: controller_ok_def request_ok_def)

text \<open>A stream that is read, completed by the server, and whose source then reports an error.\<close>

definition sample_stream :: controller where
  "sample_stream =
     dispatch 0 (MessageEvent (Some (js ''[DONE]'')))
       (dispatch 0 (MessageEvent (Some (js ''{\"choices\":[{\"delta\":{\"content\":\"hi\"}}]}'')))
         (dispatch 0 (HeadersReady True) (send initial_controller)))"

lemma sample_updates:
  "parseStreamMessageUpdates (js ''{\"choices\":[{\"delta\":{\"content\":\"hi\"}}]}'') =
     Some [(ContentChunk, JStr (js ''hi''))]"
  by (simp add: parseStreamMessageUpdates_def first_item_def js_eval)

lemma sample_stream_eq: "sample_stream =
  \<lparr>source = None, generation = 1, streaming = False,
   requests = [\<lparr>requestGeneration = 1, request_pc = Attached True\<rparr>], closed = {0},
   calls = [(0, OnUpdate ContentChunk (JStr (js ''hi''))), (0, OnComplete)]\<rparr>"
proof -
  have "\<not> isStreamDoneMessage (js ''{\"choices\":[{\"delta\":{\"content\":\"hi\"}}]}'')"
    by (simp add: isStreamDoneMessage_def STREAM_DONE_MESSAGE_def)
  then show ?thesis
    by (simp add: sample_stream_def send_def headers_ready_def on_message_def listening_def isCurrent_def
        initial_controller_def close_source_def set_pc_def call_def closeActiveSource_def sample_updates
        isStreamDoneMessage_def STREAM_DONE_MESSAGE_def Let_def)
qed

lemma reach_sample_stream: "reach controller_step initial_controller sample_stream"
proof -
  have s: "reach controller_step initial_controller (send initial_controller)"
    by (rule reach_one) (rule controller_step.step_send)
  have l: "length (requests (send initial_controller)) = 1"
    by (simp add: send_def initial_controller_def close_source_def Let_def)
  have ev: "reach controller_step initial_controller (dispatch 0 e c) \<and> 0 < length (requests (dispatch 0 e c))"
    if "reach controller_step initial_controller c \<and> 0 < length (requests c)" for e c
    using that dispatch_requests [of 0 c 0 e] by (auto intro: controller_step.step_event)
  show ?thesis
    unfolding sample_stream_def using ev s l by (metis less_numeral_extra(1))
qed

theorem superseded_request_is_silent_witness:
  "visible (dispatch 0 (MessageEvent None) (stop sample_stream)) = visible (stop sample_stream)"
proof -
  have r: "reach controller_step initial_controller (stop sample_stream)"
    using reach_sample_stream by (rule reach_step) (rule controller_step.step_stop)
  have "requests (stop sample_stream) = [\<lparr>requestGeneration = 1, request_pc = Attached True\<rparr>]"
    "generation (stop sample_stream) = 2"
    by (simp_all add: stop_def cancel_def sample_stream_eq Let_def close_source_def)
  then show ?thesis
    by (intro superseded_request_is_silent [OF r _ _ reach_refl]) simp_all
qed

theorem request_ends_once_witness:
  "calls_of 0 sample_stream = [OnUpdate ContentChunk (JStr (js ''hi'')), OnComplete] \<and>
   list_all (\<lambda>cb. \<not> is_terminal cb) (butlast (calls_of 0 sample_stream))"
  using request_ends_once [OF reach_sample_stream, of 0] by (simp add: sample_stream_eq calls_of_def)

theorem no_source_leaks_witness: "0 \<in> closed sample_stream"
  using no_source_leaks [OF reach_sample_stream, of 0 True] by (simp add: sample_stream_eq)

end
