(* ===== verification/Chat_Handler.thy ===== *)
theory Chat_Handler
  imports Playground_Conversation Stream_Controller
begin

text \<open>
  Sending and receiving chat messages (\<open>hooks/use-chat-handler.ts\<close>).

  The hook counts its requests in \<open>requestGenerationRef\<close>; every callback carries the number of its
  request.  Streamed chunks are buffered and flushed by a timer.  Messages are changed through
  \<open>onMessageUpdate\<close> only: the updater it is given is queued and runs when the interface is rendered
  next, or at once if nothing is queued (the library may do either, so the model takes the choice
  as an argument), and reads the generation at the time it runs.
\<close>

section \<open>State\<close>

record PendingStreamChunks =
  pend_generation :: nat
  pend_content :: jstring
  pend_reasoning :: jstring

text \<open>The updaters that the hook passes on, each with the generation it was made for.\<close>

datatype message_update =
    FlushUpdate nat jstring jstring
  | CompleteUpdate nat
  | ErrorUpdate nat jstring "jstring option" jstring
  | ResponseUpdate nat "ChatCompletionChoice list"
  | StopUpdate nat

datatype server_call = StartStream nat ChatCompletionRequest | StopStream | PostChat nat ChatCompletionRequest

record chat =
  requestGenerationRef :: nat
  pendingStreamChunksRef :: PendingStreamChunks
  streamFlushTimerRef :: "nat option"
  isRequesting :: bool
  abortControllerRef :: "nat option"
  aborted :: "nat set"
  chat_messages :: "Message list"
  update_queue :: "message_update list"
  server_calls :: "server_call list"

definition initial_chat :: "Message list \<Rightarrow> chat" where
  "initial_chat ms = \<lparr>requestGenerationRef = 0,
     pendingStreamChunksRef = \<lparr>pend_generation = 0, pend_content = [], pend_reasoning = []\<rparr>,
     streamFlushTimerRef = None, isRequesting = False, abortControllerRef = None, aborted = {},
     chat_messages = ms, update_queue = [], server_calls = []\<rparr>"

section \<open>Updating messages\<close>

definition flush_message :: "int \<Rightarrow> jstring \<Rightarrow> jstring \<Rightarrow> Message \<Rightarrow> Message" where
  "flush_message now r c message =
     (let m1 = (if r \<noteq> [] then applyStreamingChunk now message ReasoningChunk r else message)
      in if c \<noteq> [] then applyStreamingChunk now m1 ContentChunk c else m1)"

text \<open>An updater, run when \<open>current\<close> is the generation.\<close>

fun run_update :: "nat \<Rightarrow> int \<Rightarrow> message_update \<Rightarrow> Message list \<Rightarrow> Message list" where
  "run_update current now (FlushUpdate g r c) prev =
     (if g \<noteq> current then prev else updateLastAssistantMessage prev (flush_message now r c))"
| "run_update current now (CompleteUpdate g) prev =
     (if g \<noteq> current then prev
      else updateLastAssistantMessage prev (\<lambda>m. if isAssistantMessageFinal m then m else completeAssistantMessage now m))"
| "run_update current now (ErrorUpdate g msg code title) prev =
     (if g \<noteq> current then prev else updateAssistantMessageWithError now prev msg code title)"
| "run_update current now (ResponseUpdate g choices) prev =
     (if g \<noteq> current then prev
      else updateLastAssistantMessage prev (\<lambda>m.
        case applyChatCompletionResponse now m choices of Some m' \<Rightarrow> m' | None \<Rightarrow> m))"
| "run_update current now (StopUpdate g) prev =
     (if g \<noteq> current then prev
      else updateLastAssistantMessage prev (\<lambda>m. if isAssistantMessagePending m then completeAssistantMessage now m else m))"

definition onMessageUpdate :: "bool \<Rightarrow> int \<Rightarrow> message_update \<Rightarrow> chat \<Rightarrow> chat" where
  "onMessageUpdate eager now u h =
     (if eager \<and> update_queue h = []
      then h\<lparr>chat_messages := run_update (requestGenerationRef h) now u (chat_messages h)\<rparr>
      else h\<lparr>update_queue := update_queue h @ [u]\<rparr>)"

text \<open>Rendering runs everything that is queued, in order.\<close>

definition render :: "int \<Rightarrow> chat \<Rightarrow> chat" where
  "render now h = h\<lparr>chat_messages :=
       foldl (\<lambda>ms u. run_update (requestGenerationRef h) now u ms) (chat_messages h) (update_queue h),
     update_queue := []\<rparr>"

section \<open>Buffered chunks\<close>

definition mergePendingStreamChunk :: "jstring \<Rightarrow> jstring \<Rightarrow> jstring" where
  "mergePendingStreamChunk currentChunk nextChunk =
     (if currentChunk = [] \<or> \<not> js_starts_with nextChunk currentChunk then currentChunk @ nextChunk else nextChunk)"

definition discardPendingStreamUpdates :: "nat \<Rightarrow> chat \<Rightarrow> chat" where
  "discardPendingStreamUpdates g h =
     h\<lparr>streamFlushTimerRef := None,
       pendingStreamChunksRef := \<lparr>pend_generation = g, pend_content = [], pend_reasoning = []\<rparr>\<rparr>"

definition flushStreamUpdates :: "bool \<Rightarrow> int \<Rightarrow> nat \<Rightarrow> chat \<Rightarrow> chat" where
  "flushStreamUpdates eager now g h =
     (if g \<noteq> requestGenerationRef h then h
      else let h1 = h\<lparr>streamFlushTimerRef := None\<rparr>; p = pendingStreamChunksRef h1
           in if pend_generation p \<noteq> g then h1
              else if pend_reasoning p = [] \<and> pend_content p = [] then h1
              else onMessageUpdate eager now (FlushUpdate g (pend_reasoning p) (pend_content p))
                     (h1\<lparr>pendingStreamChunksRef := \<lparr>pend_generation = g, pend_content = [], pend_reasoning = []\<rparr>\<rparr>))"

definition scheduleStreamFlush :: "nat \<Rightarrow> chat \<Rightarrow> chat" where
  "scheduleStreamFlush g h =
     (if g \<noteq> requestGenerationRef h then h
      else if streamFlushTimerRef h \<noteq> None then h
      else h\<lparr>streamFlushTimerRef := Some g\<rparr>)"

text \<open>The timer fires.\<close>

definition flush_timer :: "bool \<Rightarrow> int \<Rightarrow> chat \<Rightarrow> chat" where
  "flush_timer eager now h = (case streamFlushTimerRef h of None \<Rightarrow> h | Some g \<Rightarrow> flushStreamUpdates eager now g h)"

section \<open>Callbacks of a request\<close>

definition js_ends_with :: "jstring \<Rightarrow> jstring \<Rightarrow> bool" where
  "js_ends_with s p \<longleftrightarrow> js_starts_with (rev s) (rev p)"

definition getDisplayError :: "(jstring \<Rightarrow> jstring) \<Rightarrow> jstring \<Rightarrow> jstring" where
  "getDisplayError t err =
     (if err \<in> set ERROR_MESSAGES then t err
      else if js_ends_with err (js '': '' @ CONNECTION_CLOSED)
      then take (length err - length CONNECTION_CLOSED) err @ t CONNECTION_CLOSED
      else err)"

definition handleStreamUpdate :: "nat \<Rightarrow> StreamChunkType \<Rightarrow> jstring \<Rightarrow> chat \<Rightarrow> chat" where
  "handleStreamUpdate g ty chunk h =
     (if g \<noteq> requestGenerationRef h then h
      else let p = pendingStreamChunksRef h
           in if pend_generation p \<noteq> g then h
              else scheduleStreamFlush g (h\<lparr>pendingStreamChunksRef :=
                (case ty of
                   ContentChunk \<Rightarrow> p\<lparr>pend_content := mergePendingStreamChunk (pend_content p) chunk\<rparr>
                 | ReasoningChunk \<Rightarrow> p\<lparr>pend_reasoning := mergePendingStreamChunk (pend_reasoning p) chunk\<rparr>)\<rparr>))"

definition handleStreamComplete :: "bool \<Rightarrow> bool \<Rightarrow> int \<Rightarrow> nat \<Rightarrow> chat \<Rightarrow> chat" where
  "handleStreamComplete e1 e2 now g h =
     (if g \<noteq> requestGenerationRef h then h
      else let h1 = flushStreamUpdates e1 now g h;
               h2 = h1\<lparr>isRequesting := False\<rparr>
           in onMessageUpdate e2 now (CompleteUpdate g) h2)"

definition handleStreamError ::
  "(jstring \<Rightarrow> jstring) \<Rightarrow> bool \<Rightarrow> bool \<Rightarrow> int \<Rightarrow> nat \<Rightarrow> jstring \<Rightarrow> jstring option \<Rightarrow> chat \<Rightarrow> chat" where
  "handleStreamError t e1 e2 now g err code h =
     (if g \<noteq> requestGenerationRef h then h
      else let h1 = flushStreamUpdates e1 now g h;
               h2 = h1\<lparr>isRequesting := False\<rparr>
           in onMessageUpdate e2 now (ErrorUpdate g (getDisplayError t err) code (t API_REQUEST_ERROR)) h2)"

section \<open>Sending\<close>

definition abort_current :: "chat \<Rightarrow> chat" where
  "abort_current h = h\<lparr>aborted := set_option (abortControllerRef h) \<union> aborted h\<rparr>"

definition sendStreamingChat :: "PlaygroundConfig \<Rightarrow> ParameterEnabled \<Rightarrow> Message list \<Rightarrow> chat \<Rightarrow> chat" where
  "sendStreamingChat cfg en ms h =
     (let g = requestGenerationRef h + 1;
          h1 = (abort_current (h\<lparr>requestGenerationRef := g\<rparr>))\<lparr>abortControllerRef := None\<rparr>;
          h2 = (discardPendingStreamUpdates g h1)\<lparr>isRequesting := True\<rparr>
      in h2\<lparr>server_calls := server_calls h2 @ [StartStream g (buildChatCompletionPayload ms cfg en)]\<rparr>)"

text \<open>The request without streaming, up to the call of the server; its number is the new generation.\<close>

definition sendNonStreamingChat :: "PlaygroundConfig \<Rightarrow> ParameterEnabled \<Rightarrow> Message list \<Rightarrow> chat \<Rightarrow> chat" where
  "sendNonStreamingChat cfg en ms h =
     (let payload = buildChatCompletionPayload ms cfg en;
          g = requestGenerationRef h + 1;
          h1 = h\<lparr>requestGenerationRef := g, server_calls := server_calls h @ [StopStream]\<rparr>;
          h2 = abort_current (discardPendingStreamUpdates g h1)
      in h2\<lparr>abortControllerRef := Some g, isRequesting := True,
            server_calls := server_calls h2 @ [PostChat g payload]\<rparr>)"

definition chat_finally :: "nat \<Rightarrow> chat \<Rightarrow> chat" where
  "chat_finally g h =
     (if requestGenerationRef h = g then h\<lparr>abortControllerRef := None, isRequesting := False\<rparr> else h)"

definition chat_response ::
  "(jstring \<Rightarrow> jstring) \<Rightarrow> bool \<Rightarrow> bool \<Rightarrow> int \<Rightarrow> nat \<Rightarrow> ChatCompletionChoice list \<Rightarrow> chat \<Rightarrow> chat" where
  "chat_response t e1 e2 now g choices h =
     chat_finally g
       (if g \<in> aborted h \<or> requestGenerationRef h \<noteq> g then h
        else if \<not> hasChatCompletionChoice choices then handleStreamError t e1 e2 now g API_REQUEST_ERROR None h
        else onMessageUpdate e1 now (ResponseUpdate g choices) h)"

definition chat_failure ::
  "(jstring \<Rightarrow> jstring) \<Rightarrow> bool \<Rightarrow> bool \<Rightarrow> int \<Rightarrow> nat \<Rightarrow> jstring \<Rightarrow> jstring option \<Rightarrow> chat \<Rightarrow> chat" where
  "chat_failure t e1 e2 now g err code h =
     chat_finally g
       (if g \<in> aborted h \<or> requestGenerationRef h \<noteq> g then h
        else handleStreamError t e1 e2 now g err code h)"

definition sendChat :: "PlaygroundConfig \<Rightarrow> ParameterEnabled \<Rightarrow> Message list \<Rightarrow> chat \<Rightarrow> chat" where
  "sendChat cfg en ms h = (if cfg_stream cfg then sendStreamingChat cfg en ms h else sendNonStreamingChat cfg en ms h)"

definition stopGeneration :: "bool \<Rightarrow> bool \<Rightarrow> int \<Rightarrow> chat \<Rightarrow> chat" where
  "stopGeneration e1 e2 now h =
     (let stoppedGeneration = requestGenerationRef h;
          h1 = flushStreamUpdates e1 now stoppedGeneration h;
          idleGeneration = stoppedGeneration + 1;
          h2 = discardPendingStreamUpdates idleGeneration (h1\<lparr>requestGenerationRef := idleGeneration\<rparr>);
          h3 = abort_current (h2\<lparr>server_calls := server_calls h2 @ [StopStream]\<rparr>);
          h4 = h3\<lparr>abortControllerRef := None, isRequesting := False\<rparr>
      in onMessageUpdate e2 now (StopUpdate idleGeneration) h4)"

text \<open>The clean-up when the component is removed; the timer is cancelled.\<close>

definition unmount :: "chat \<Rightarrow> chat" where
  "unmount h = (abort_current (h\<lparr>requestGenerationRef := requestGenerationRef h + 1,
     streamFlushTimerRef := None\<rparr>))\<lparr>abortControllerRef := None\<rparr>"

section \<open>Everything that can happen\<close>

datatype chat_event =
    ChunkEvent StreamChunkType jstring
  | CompleteEvent bool bool int
  | FailEvent "jstring \<Rightarrow> jstring" bool bool int jstring "jstring option"
  | ResponseEvent "jstring \<Rightarrow> jstring" bool bool int "ChatCompletionChoice list"
  | FailureEvent "jstring \<Rightarrow> jstring" bool bool int jstring "jstring option"
  | TimerEvent bool int

text \<open>The callbacks that carry generation \<open>g\<close>.\<close>

fun chat_callback :: "nat \<Rightarrow> chat_event \<Rightarrow> chat \<Rightarrow> chat" where
  "chat_callback g (ChunkEvent ty c) = handleStreamUpdate g ty c"
| "chat_callback g (CompleteEvent e1 e2 now) = handleStreamComplete e1 e2 now g"
| "chat_callback g (FailEvent t e1 e2 now err code) = handleStreamError t e1 e2 now g err code"
| "chat_callback g (ResponseEvent t e1 e2 now choices) = chat_response t e1 e2 now g choices"
| "chat_callback g (FailureEvent t e1 e2 now err code) = chat_failure t e1 e2 now g err code"
| "chat_callback g (TimerEvent e now) = flushStreamUpdates e now g"

inductive chat_step :: "chat \<Rightarrow> chat \<Rightarrow> bool" where
  step_send: "chat_step h (sendChat cfg en ms h)"
| step_stop: "chat_step h (stopGeneration e1 e2 now h)"
| step_unmount: "chat_step h (unmount h)"
| step_render: "chat_step h (render now h)"
| step_edit: "chat_step h (h\<lparr>chat_messages := ms\<rparr>)"
| step_callback: "chat_step h (chat_callback g e h)"
| step_timer: "chat_step h (flush_timer e now h)"

inductive_cases chat_stepE: "chat_step h h'"

fun update_generation :: "message_update \<Rightarrow> nat" where
  "update_generation (FlushUpdate g _ _) = g"
| "update_generation (CompleteUpdate g) = g"
| "update_generation (ErrorUpdate g _ _ _) = g"
| "update_generation (ResponseUpdate g _) = g"
| "update_generation (StopUpdate g) = g"

text \<open>No updater in the queue is from the future.\<close>

definition chat_ok :: "chat \<Rightarrow> bool" where
  "chat_ok h \<longleftrightarrow> list_all (\<lambda>u. update_generation u \<le> requestGenerationRef h) (update_queue h)"

lemma run_update_stale: "update_generation u \<noteq> current \<Longrightarrow> run_update current now u ms = ms"
  by (cases u) auto

lemma onMessageUpdate_simps [simp]:
  "requestGenerationRef (onMessageUpdate e now u h) = requestGenerationRef h"
  "update_queue (onMessageUpdate e now u h) = (if e \<and> update_queue h = [] then [] else update_queue h @ [u])"
  by (simp_all add: onMessageUpdate_def)

lemma flush_generation [simp]: "requestGenerationRef (flushStreamUpdates e now g h) = requestGenerationRef h"
  by (simp add: flushStreamUpdates_def Let_def)

lemma flush_ok: "chat_ok h \<Longrightarrow> chat_ok (flushStreamUpdates e now g h)"
  by (simp add: flushStreamUpdates_def chat_ok_def Let_def)

lemma onMessageUpdate_ok:
  "chat_ok h \<Longrightarrow> update_generation u \<le> requestGenerationRef h \<Longrightarrow> chat_ok (onMessageUpdate e now u h)"
  by (simp add: chat_ok_def)

lemma chat_ok_cong:
  "update_queue h' = update_queue h \<Longrightarrow> requestGenerationRef h \<le> requestGenerationRef h' \<Longrightarrow> chat_ok h \<Longrightarrow> chat_ok h'"
  by (auto simp: chat_ok_def list_all_iff)

lemma abort_simps [simp]:
  "requestGenerationRef (abort_current h) = requestGenerationRef h" "update_queue (abort_current h) = update_queue h"
  "chat_messages (abort_current h) = chat_messages h"
  by (simp_all add: abort_current_def)

lemma discard_simps [simp]:
  "requestGenerationRef (discardPendingStreamUpdates g h) = requestGenerationRef h"
  "update_queue (discardPendingStreamUpdates g h) = update_queue h"
  "chat_messages (discardPendingStreamUpdates g h) = chat_messages h"
  by (simp_all add: discardPendingStreamUpdates_def)

lemma sendChat_simps:
  "requestGenerationRef (sendChat cfg en ms h) = requestGenerationRef h + 1"
  "update_queue (sendChat cfg en ms h) = update_queue h"
  "chat_messages (sendChat cfg en ms h) = chat_messages h"
  by (simp_all add: sendChat_def sendStreamingChat_def sendNonStreamingChat_def Let_def)

lemma finish_update_ok:
  assumes "chat_ok h" "update_generation u \<le> requestGenerationRef h"
  shows "chat_ok (onMessageUpdate e2 now u ((flushStreamUpdates e1 now g h)\<lparr>isRequesting := False\<rparr>))"
  by (rule onMessageUpdate_ok, rule chat_ok_cong [OF _ _ flush_ok [OF assms(1)]]) (use assms(2) in simp_all)

lemma handleStreamError_ok:
  "chat_ok h \<Longrightarrow> chat_ok (handleStreamError t e1 e2 now g err code h)"
  "requestGenerationRef (handleStreamError t e1 e2 now g err code h) = requestGenerationRef h"
  by (auto simp: handleStreamError_def Let_def intro!: finish_update_ok)

lemma handleStreamComplete_ok:
  "chat_ok h \<Longrightarrow> chat_ok (handleStreamComplete e1 e2 now g h)"
  "requestGenerationRef (handleStreamComplete e1 e2 now g h) = requestGenerationRef h"
  by (auto simp: handleStreamComplete_def Let_def intro!: finish_update_ok)

lemma chat_finally_simps [simp]:
  "requestGenerationRef (chat_finally g h) = requestGenerationRef h" "update_queue (chat_finally g h) = update_queue h"
  by (simp_all add: chat_finally_def)

lemma chat_finally_ok [simp]: "chat_ok (chat_finally g h) \<longleftrightarrow> chat_ok h"
  by (simp add: chat_ok_def)

lemma chat_callback_ok:
  "chat_ok h \<Longrightarrow> chat_ok (chat_callback g e h) \<and> requestGenerationRef (chat_callback g e h) = requestGenerationRef h"
proof (cases e)
  case (ChunkEvent ty c)
  assume "chat_ok h"
  have "update_queue (handleStreamUpdate g ty c h) = update_queue h"
    "requestGenerationRef (handleStreamUpdate g ty c h) = requestGenerationRef h"
    by (simp_all add: handleStreamUpdate_def scheduleStreamFlush_def Let_def)
  with \<open>chat_ok h\<close> ChunkEvent show ?thesis by (simp add: chat_ok_def)
qed (auto simp: handleStreamComplete_ok handleStreamError_ok flush_ok chat_response_def chat_failure_def
    onMessageUpdate_ok)

lemma stopGeneration_generation [simp]:
  "requestGenerationRef (stopGeneration e1 e2 now h) = requestGenerationRef h + 1"
  by (simp add: stopGeneration_def Let_def)

lemma stopGeneration_ok: "chat_ok h \<Longrightarrow> chat_ok (stopGeneration e1 e2 now h)"
proof -
  assume "chat_ok h"
  then have "chat_ok (flushStreamUpdates e1 now (requestGenerationRef h) h)" by (rule flush_ok)
  then show ?thesis
    by (auto simp: stopGeneration_def Let_def chat_ok_def list_all_iff)
qed

lemma chat_step_ok: "chat_ok h \<Longrightarrow> chat_step h h' \<Longrightarrow> chat_ok h' \<and> requestGenerationRef h \<le> requestGenerationRef h'"
proof (erule chat_stepE)
  assume ok: "chat_ok h"
  {
    fix cfg en ms assume "h' = sendChat cfg en ms h"
    with ok show ?thesis by (auto simp: chat_ok_def sendChat_simps list_all_iff)
  next
    fix e1 e2 now assume "h' = stopGeneration e1 e2 now h"
    with ok show ?thesis by (simp add: stopGeneration_ok)
  next
    assume "h' = unmount h"
    with ok show ?thesis by (auto simp: unmount_def chat_ok_def list_all_iff)
  next
    fix now assume "h' = render now h"
    then show ?thesis by (simp add: render_def chat_ok_def)
  next
    fix ms assume "h' = h\<lparr>chat_messages := ms\<rparr>"
    with ok show ?thesis by (simp add: chat_ok_def)
  next
    fix g e assume "h' = chat_callback g e h"
    with ok chat_callback_ok show ?thesis by simp
  next
    fix e now assume "h' = flush_timer e now h"
    with ok show ?thesis by (simp add: flush_timer_def flush_ok split: option.splits)
  }
qed

lemma stale_callback: "g \<noteq> requestGenerationRef h \<Longrightarrow> chat_callback g e h = h"
  by (cases e) (auto simp: handleStreamUpdate_def handleStreamComplete_def handleStreamError_def
      chat_response_def chat_failure_def chat_finally_def flushStreamUpdates_def)

interpretation ch: epoch_guard chat_step chat_ok requestGenerationRef chat_callback id
  by unfold_locales (use chat_step_ok stale_callback in auto)

section \<open>Properties\<close>

text \<open>
  C19. A request that was stopped or replaced never reaches the conversation again: at any later
  time its callbacks leave the whole state as it is, and an updater it had queued before leaves the
  messages as they are.
\<close>

theorem superseded_chat_is_silent:
  assumes "chat_ok h" "g < requestGenerationRef h" "reach chat_step h h'"
  shows "chat_callback g e h' = h' \<and>
    (update_generation u = g \<longrightarrow> run_update (requestGenerationRef h') now u ms = ms)"
proof
  show "chat_callback g e h' = h'"
    using ch.superseded_forever [OF assms(1,2,3), of e] by simp
  have "g < requestGenerationRef h'" using ch.reach_epoch_mono [OF assms(3,1)] assms(2) by simp
  then show "update_generation u = g \<longrightarrow> run_update (requestGenerationRef h') now u ms = ms"
    by (auto intro: run_update_stale)
qed

lemma applyStreamingChunk_frame [simp]:
  "key (applyStreamingChunk now m ty c) = key m" "sender (applyStreamingChunk now m ty c) = sender m"
  by (simp_all add: applyStreamingChunk_def Let_def split: StreamChunkType.splits)

lemma flush_message_frame [simp]:
  "key (flush_message now r c m) = key m" "sender (flush_message now r c m) = sender m"
  by (simp_all add: flush_message_def Let_def)

lemma finalizeMessage_frame [simp]:
  "key (finalizeMessage now m api) = key m" "sender (finalizeMessage now m api) = sender m"
  by (simp_all add: finalizeMessage_def Let_def)

lemma response_frame:
  "applyChatCompletionResponse now m choices = Some m' \<Longrightarrow> key m' = key m \<and> sender m' = sender m"
  by (auto simp: applyChatCompletionResponse_def applyChatCompletionChoice_def split: list.splits)

lemma updateLast_frame:
  assumes "\<And>m. key (f m) = key m \<and> sender (f m) = sender m"
  shows "map key (updateLastAssistantMessage ms f) = map key ms \<and>
    map sender (updateLastAssistantMessage ms f) = map sender ms"
  by (cases ms rule: rev_cases) (use assms in auto)

text \<open>What an updater that is still current does to the last message.\<close>

fun updater :: "int \<Rightarrow> message_update \<Rightarrow> Message \<Rightarrow> Message" where
  "updater now (FlushUpdate g r c) = flush_message now r c"
| "updater now (CompleteUpdate g) = (\<lambda>m. if isAssistantMessageFinal m then m else completeAssistantMessage now m)"
| "updater now (ErrorUpdate g msg code title) = (\<lambda>message.
     completeAssistantTiming now
       ((updateCurrentVersionContent message (title @ js '': '' @ msg))
          \<lparr>msg_status := Some StatusError, isReasoningStreaming := False,
           errorCode := (case code of Some c \<Rightarrow> (if c = [] then None else Some c) | None \<Rightarrow> None)\<rparr>))"
| "updater now (ResponseUpdate g choices) = (\<lambda>m.
     case applyChatCompletionResponse now m choices of Some m' \<Rightarrow> m' | None \<Rightarrow> m)"
| "updater now (StopUpdate g) = (\<lambda>m. if isAssistantMessagePending m then completeAssistantMessage now m else m)"

lemma run_update_eq:
  "run_update current now u ms =
     (if update_generation u = current then updateLastAssistantMessage ms (updater now u) else ms)"
  by (cases u) (simp_all add: updateAssistantMessageWithError_def)

lemma updater_frame: "key (updater now u m) = key m \<and> sender (updater now u m) = sender m"
  by (cases u) (auto dest: response_frame split: option.splits)

text \<open>
  Whatever a request reports, it changes the last message at most, and only if that is an answer
  of the assistant: the number of messages, their identities and authors and all earlier messages
  stay the same.
\<close>

theorem run_update_frame:
  "length (run_update current now u ms) = length ms \<and>
   butlast (run_update current now u ms) = butlast ms \<and>
   map key (run_update current now u ms) = map key ms \<and>
   map sender (run_update current now u ms) = map sender ms"
  using updateLast_shape [of ms "updater now u"] updateLast_frame [of "updater now u" ms] updater_frame
  by (simp add: run_update_eq)

lemma foldl_stale:
  "list_all (\<lambda>u. update_generation u \<noteq> current) us \<Longrightarrow>
     foldl (\<lambda>ms u. run_update current now u ms) ms us = ms"
  by (induction us arbitrary: ms) (auto simp: run_update_stale)

lemma flushStreamUpdates_messages:
  "chat_messages (flushStreamUpdates e now g h) =
     (if e \<and> update_queue h = [] \<and> g = requestGenerationRef h \<and> pend_generation (pendingStreamChunksRef h) = g \<and>
         (pend_reasoning (pendingStreamChunksRef h) \<noteq> [] \<or> pend_content (pendingStreamChunksRef h) \<noteq> [])
      then updateLastAssistantMessage (chat_messages h)
             (flush_message now (pend_reasoning (pendingStreamChunksRef h)) (pend_content (pendingStreamChunksRef h)))
      else chat_messages h)"
  by (auto simp: flushStreamUpdates_def onMessageUpdate_def Let_def)

lemma render_stop:
  assumes "chat_ok h"
  shows "chat_messages (render now' (stopGeneration e1 False now h)) =
    updateLastAssistantMessage (chat_messages (flushStreamUpdates e1 now (requestGenerationRef h) h))
      (\<lambda>m. if isAssistantMessagePending m then completeAssistantMessage now' m else m)"
proof -
  let ?f = "flushStreamUpdates e1 now (requestGenerationRef h) h"
  have "chat_ok ?f" using assms by (rule flush_ok)
  then have st: "list_all (\<lambda>u. update_generation u \<noteq> requestGenerationRef h + 1) (update_queue ?f)"
    by (auto simp: chat_ok_def list_all_iff)
  have "update_queue (stopGeneration e1 False now h) = update_queue ?f @ [StopUpdate (requestGenerationRef h + 1)]"
    "chat_messages (stopGeneration e1 False now h) = chat_messages ?f"
    by (simp_all add: stopGeneration_def onMessageUpdate_def Let_def)
  with foldl_stale [OF st] show ?thesis by (simp add: render_def)
qed


section \<open>The buffer\<close>

definition buffer_chunks :: "jstring list \<Rightarrow> jstring" where
  "buffer_chunks cs = foldl mergePendingStreamChunk [] cs"

lemma merge_plain:
  "plain_deltas cur cs \<Longrightarrow> foldl mergePendingStreamChunk cur cs = cur @ concat cs"
  by (induction cs arbitrary: cur) (auto simp: mergePendingStreamChunk_def)

lemma stream_chunks_frame: "sender (stream_chunks m cs) = sender m"
  by (induction cs arbitrary: m) (auto simp: stream_chunks_def)

text \<open>
  Buffering does not change the answer: flushing a burst of chunks at once leaves the same text
  as applying them one by one, as long as no chunk repeats the text before it and the burst as a
  whole does not begin with the text shown so far.
\<close>

theorem buffered_flush_equals_chunks:
  assumes "msg_status m \<noteq> Some StatusError" "cs \<noteq> []" "buffer_chunks (map snd cs) \<noteq> []"
    and "plain_deltas [] (map snd cs)" "plain_deltas (getMessageContent m) (map snd cs)"
    and "getMessageContent m = [] \<or> \<not> js_starts_with (concat (map snd cs)) (getMessageContent m)"
  shows "getMessageContent (flush_message now [] (buffer_chunks (map snd cs)) m) =
    getMessageContent (stream_chunks m cs)"
proof -
  have b: "buffer_chunks (map snd cs) = concat (map snd cs)"
    using merge_plain [OF assms(4)] by (simp add: buffer_chunks_def)
  have "getMessageContent (flush_message now [] (buffer_chunks (map snd cs)) m) =
      getMessageContent m @ concat (map snd cs)"
    using applyStreamingChunk_content [OF assms(1), of now "concat (map snd cs)"] assms(3,6)
    by (auto simp: flush_message_def b appendable)
  then show ?thesis using stream_chunks_content [OF assms(1,5)] by simp
qed

section \<open>Sample runs\<close>

definition sample_chat :: chat where
  "sample_chat = (initial_chat [updateCurrentVersionContent sample_message (js ''ab'')])
     \<lparr>pendingStreamChunksRef := \<lparr>pend_generation = 0, pend_content = js ''c'', pend_reasoning = []\<rparr>\<rparr>"

lemma sample_chat_ok: "chat_ok sample_chat"
  by (simp add: chat_ok_def sample_chat_def initial_chat_def)

theorem superseded_chat_is_silent_witness:
  "chat_callback 0 (ChunkEvent ContentChunk (js ''x'')) (stopGeneration False False 5 sample_chat) =
     stopGeneration False False 5 sample_chat"
proof -
  have "chat_ok (stopGeneration False False 5 sample_chat)" by (rule stopGeneration_ok) (rule sample_chat_ok)
  then show ?thesis
    using superseded_chat_is_silent [OF _ _ reach_refl, of "stopGeneration False False 5 sample_chat" 0
        "ChunkEvent ContentChunk (js ''x'')"] by simp
qed


theorem buffered_flush_equals_chunks_witness:
  "getMessageContent (flush_message 9 [] (buffer_chunks [js ''a'', js ''b'']) sample_message) =
   getMessageContent (stream_chunks sample_message [(7, js ''a''), (8, js ''b'')])"
proof -
  have s: "msg_status sample_message \<noteq> Some StatusError" "getMessageContent sample_message = []"
    by (simp_all add: sample_message_def createLoadingAssistantMessage_def createMessageVersion_def playground_defs)
  have "plain_deltas [] (map snd [(7::int, js ''a''), (8, js ''b'')])" by (simp add: js_Cons)
  with s show ?thesis
    using buffered_flush_equals_chunks [of sample_message "[(7, js ''a''), (8, js ''b'')]" 9]
    by (simp add: buffer_chunks_def mergePendingStreamChunk_def)
qed

text \<open>
  The buffer can drop text that single chunks would keep: two differences whose concatenation is the
  text shown so far are taken for a snapshot of it.
\<close>

theorem buffer_drops_text:
  "getMessageContent (flush_message 9 [] (buffer_chunks [js ''a'', js ''b''])
      (updateCurrentVersionContent sample_message (js ''ab''))) = js ''ab'' \<and>
   getMessageContent (stream_chunks (updateCurrentVersionContent sample_message (js ''ab'')) [(7, js ''a''), (8, js ''b'')])
     = js ''abab''"
proof -
  let ?m = "updateCurrentVersionContent sample_message (js ''ab'')"
  have s: "msg_status ?m \<noteq> Some StatusError"
    by (simp add: sample_message_def createLoadingAssistantMessage_def)
  have b: "buffer_chunks [js ''a'', js ''b''] = js ''ab''"
    by (simp add: buffer_chunks_def mergePendingStreamChunk_def js_Cons)
  show ?thesis
    using applyStreamingChunk_content [OF s, of 9 "js ''ab''"]
      stream_chunks_content [OF s, of "[(7, js ''a''), (8, js ''b'')]"]
    by (simp add: b flush_message_def appendable js_starts_with_prefix) (simp add: js_Cons)
qed

end
