(* ===== verification/Playground_Storage.thy ===== *)
theory Playground_Storage
  imports Playground_Conversation Guards
begin

text \<open>
  Keeping the playground's messages in the browser (\<open>lib/storage/storage.ts\<close>,
  \<open>lib/storage/storage-schema.ts\<close>, \<open>lib/state/playground-state-utils.ts\<close> and the persistence of
  \<open>hooks/use-playground-state.ts\<close>): the limits applied when messages are loaded, the versioned
  envelope, and the debounced saving.

  The local storage is a map from keys to texts whose writes may be refused (\<open>accepts\<close>).  The schema
  library that validates stored values is an argument (\<open>schema\<close>): it returns the typed messages or
  fails.  A message record identifies an absent flag with a false one, so the object that a list of
  messages is in the running program is an argument as well (\<open>view\<close>).
\<close>

section \<open>Constants\<close>

definition STORAGE_VERSION :: int where "STORAGE_VERSION = 1"
definition MAX_STORED_MESSAGES :: nat where "MAX_STORED_MESSAGES = 100"
definition MAX_STORED_MESSAGES_BYTES :: nat where "MAX_STORED_MESSAGES_BYTES = 1024 * 1024"
definition MAX_LOADED_MESSAGES_CHARS :: nat where "MAX_LOADED_MESSAGES_CHARS = 120000"
definition MAX_LOADED_MESSAGE_CHARS :: nat where "MAX_LOADED_MESSAGE_CHARS = 40000"
definition MIN_PREFIX_COLLAPSE_LENGTH :: nat where "MIN_PREFIX_COLLAPSE_LENGTH = 2000"
definition MIN_REPEATED_SECTION_COUNT :: nat where "MIN_REPEATED_SECTION_COUNT = 3"

definition TRUNCATED_CONTENT_SUFFIX :: jstring where
  "TRUNCATED_CONTENT_SUFFIX = [10, 10] @ js ''[...]''"

definition STORAGE_MESSAGES_KEY :: jstring where
  "STORAGE_MESSAGES_KEY = js ''playground_messages''"

section \<open>Size limits\<close>

definition trimMessages :: "'a list \<Rightarrow> 'a list" where
  "trimMessages ms = (if length ms \<le> MAX_STORED_MESSAGES then ms else drop (length ms - MAX_STORED_MESSAGES) ms)"

definition getMessageSize :: "Message \<Rightarrow> nat" where
  "getMessageSize message =
     foldl (\<lambda>totalSize v. totalSize + length (content v)) 0 (versions message) +
     (case reasoning message of Some r \<Rightarrow> length (r_content r) | None \<Rightarrow> 0)"

definition truncateText :: "jstring \<Rightarrow> nat \<Rightarrow> jstring" where
  "truncateText s maxLength =
     (if length s \<le> maxLength then s
      else if maxLength \<le> length TRUNCATED_CONTENT_SUFFIX then take maxLength s
      else take (maxLength - length TRUNCATED_CONTENT_SUFFIX) s @ TRUNCATED_CONTENT_SUFFIX)"

section \<open>Repeated sections\<close>

text \<open>
  The headings that \<open>/^#{2,6}\s+\d+\.\s+.+$/gm\<close> finds.  The pattern begins at the start of a line.
  Its repetitions are greedy and each must be followed by something it cannot match itself, so each
  takes the whole run, except the second \<open>\s+\<close>, which gives back characters when the run reaches the
  end of the text: then \<open>.+\<close> starts at the last character of the run that is not a line terminator.
\<close>

definition line_terminator :: "jchar \<Rightarrow> bool" where
  "line_terminator c \<longleftrightarrow> c = 10 \<or> c = 13 \<or> c = 8232 \<or> c = 8233"

definition rest_of_line :: "jstring \<Rightarrow> jstring" where
  "rest_of_line s = takeWhile (\<lambda>c. \<not> line_terminator c) s"

text \<open>The part matched by \<open>\s+.+$\<close> at the start of \<open>s\<close>.\<close>

definition match_title :: "jstring \<Rightarrow> jstring option" where
  "match_title s =
     (let w = takeWhile is_ws s; r = dropWhile is_ws s
      in if w = [] then None
         else if r \<noteq> [] then Some (w @ rest_of_line r)
         else case find_last_index (\<lambda>c. \<not> line_terminator c) w of
                Some j \<Rightarrow> (if j = 0 then None else Some (take j w @ rest_of_line (drop j w)))
              | None \<Rightarrow> None)"

text \<open>The heading at the start of \<open>s\<close>, if there is one.\<close>

definition match_heading :: "jstring \<Rightarrow> jstring option" where
  "match_heading s =
     (let h = takeWhile (\<lambda>c. c = 35) s; s1 = drop (length h) s;
          w = takeWhile is_ws s1; s2 = drop (length w) s1;
          d = takeWhile is_digit s2; s3 = drop (length d) s2
      in if 2 \<le> length h \<and> length h \<le> 6 \<and> w \<noteq> [] \<and> d \<noteq> [] \<and> js_starts_with s3 [46]
         then (case match_title (drop 1 s3) of Some t \<Rightarrow> Some (h @ w @ d @ [46] @ t) | None \<Rightarrow> None)
         else None)"

record SectionOccurrence =
  heading :: jstring
  occ_index :: nat

text \<open>\<open>matchAll\<close>: at each position, a match is taken if the position starts a line.\<close>

function occurrences_from :: "bool \<Rightarrow> nat \<Rightarrow> jstring \<Rightarrow> SectionOccurrence list" where
  "occurrences_from line_start i [] = []"
| "occurrences_from line_start i (c # cs) =
     (case (if line_start then match_heading (c # cs) else None) of
        Some h \<Rightarrow> \<lparr>heading = h, occ_index = i\<rparr> #
          occurrences_from False (i + max 1 (length h)) (drop (max 1 (length h)) (c # cs))
      | None \<Rightarrow> occurrences_from (line_terminator c) (i + 1) cs)"
  by pat_completeness auto
termination by (relation "measure (\<lambda>(b, i, s). length s)") auto

definition getSectionOccurrences :: "jstring \<Rightarrow> SectionOccurrence list" where
  "getSectionOccurrences s = occurrences_from True 0 s"

definition getHeadingCounts :: "SectionOccurrence list \<Rightarrow> (jstring \<times> nat) list" where
  "getHeadingCounts occs = foldl (\<lambda>counts occ.
     AList.update (heading occ) ((case map_of counts (heading occ) of Some n \<Rightarrow> n | None \<Rightarrow> 0) + 1) counts) [] occs"

text \<open>The downward loop: the last occurrence of each heading that is repeated often enough.\<close>

fun last_repeated :: "(jstring \<times> nat) list \<Rightarrow> SectionOccurrence list \<Rightarrow> jstring list \<Rightarrow> nat list" where
  "last_repeated counts [] seen = []"
| "last_repeated counts (occ # occs) seen =
     (if (case map_of counts (heading occ) of Some n \<Rightarrow> n | None \<Rightarrow> 0) < MIN_REPEATED_SECTION_COUNT \<or>
         heading occ \<in> set seen
      then last_repeated counts occs seen
      else occ_index occ # last_repeated counts occs (heading occ # seen))"

definition findLastRepeatedSectionRunStart :: "jstring \<Rightarrow> nat option" where
  "findLastRepeatedSectionRunStart s =
     (let occs = getSectionOccurrences s; starts = last_repeated (getHeadingCounts occs) (rev occs) []
      in if starts = [] then None else Some (Min (set starts)))"

definition collapseRepeatedSectionSnapshots :: "jstring \<Rightarrow> jstring" where
  "collapseRepeatedSectionSnapshots s =
     (if length s < MIN_PREFIX_COLLAPSE_LENGTH then s
      else case findLastRepeatedSectionRunStart s of None \<Rightarrow> s | Some i \<Rightarrow> drop i s)"

section \<open>Normalizing loaded messages\<close>

definition normalize_version :: "MessageVersion \<Rightarrow> MessageVersion" where
  "normalize_version v =
     v\<lparr>content := truncateText (collapseRepeatedSectionSnapshots (content v)) MAX_LOADED_MESSAGE_CHARS\<rparr>"

definition normalize_reasoning :: "MessageReasoning \<Rightarrow> MessageReasoning" where
  "normalize_reasoning r = r\<lparr>r_content := truncateText (r_content r) MAX_LOADED_MESSAGE_CHARS\<rparr>"

definition normalizeStoredMessageForLoad :: "int \<Rightarrow> Message \<Rightarrow> Message" where
  "normalizeStoredMessageForLoad now message =
     (let normalized = message\<lparr>versions := map normalize_version (versions message),
                               reasoning := map_option normalize_reasoning (reasoning message)\<rparr>
      in if \<not> isAssistantMessagePending normalized then normalized
         else if \<not> hasMessageContent normalized \<and>
                 \<not> (case reasoning normalized of Some r \<Rightarrow> js_trim (r_content r) \<noteq> [] | None \<Rightarrow> False)
         then normalized
         else let done_at = (case completedAt normalized of Some c \<Rightarrow> c | None \<Rightarrow>
                  (case Option.bind (reasoning normalized) r_completedAt of Some c \<Rightarrow> c | None \<Rightarrow>
                  (case startedAt normalized of Some c \<Rightarrow> c | None \<Rightarrow>
                  (case createdAt normalized of Some c \<Rightarrow> c | None \<Rightarrow> now))))
              in completeAssistantTiming done_at
                   ((finalizeMessage now normalized None)\<lparr>msg_status := Some StatusComplete,
                      isReasoningStreaming := False\<rparr>))"

text \<open>The loop from the newest message down; the result is in the original order.\<close>

fun take_by_size :: "nat \<Rightarrow> bool \<Rightarrow> Message list \<Rightarrow> Message list" where
  "take_by_size totalSize nonempty [] = []"
| "take_by_size totalSize nonempty (m # ms) =
     (if nonempty \<and> MAX_LOADED_MESSAGES_CHARS < totalSize + getMessageSize m then []
      else m # take_by_size (totalSize + getMessageSize m) True ms)"

definition trimMessagesByContentSize :: "Message list \<Rightarrow> Message list" where
  "trimMessagesByContentSize ms = rev (take_by_size 0 False (rev ms))"

section \<open>The local storage\<close>

type_synonym storage = "jstring \<Rightarrow> jstring option"

definition STORAGE_CONFIG_KEY :: jstring where
  "STORAGE_CONFIG_KEY = js ''playground_config''"

definition STORAGE_PARAMETER_ENABLED_KEY :: jstring where
  "STORAGE_PARAMETER_ENABLED_KEY = js ''playground_parameter_enabled''"

text \<open>Reading: \<open>None\<close> is the exception of \<open>JSON.parse\<close>.\<close>

definition readStoredValue :: "jstring \<Rightarrow> storage \<Rightarrow> jsval option" where
  "readStoredValue k st = (case st k of
     None \<Rightarrow> Some JNull
   | Some saved \<Rightarrow> if saved = [] then Some JNull else json_parse saved)"

definition readStoredMessagesValue :: "storage \<Rightarrow> jsval option \<times> storage" where
  "readStoredMessagesValue st = (case st STORAGE_MESSAGES_KEY of
     None \<Rightarrow> (Some JNull, st)
   | Some saved \<Rightarrow>
       if saved = [] then (Some JNull, st)
       else if MAX_STORED_MESSAGES_BYTES < length saved then (Some JNull, st(STORAGE_MESSAGES_KEY := None))
       else (json_parse saved, st))"

definition unwrapStoredValue :: "jsval \<Rightarrow> jsval" where
  "unwrapStoredValue v = (case v of
     JObj es \<Rightarrow> (if map_of es (js ''version'') \<noteq> None then
                  (case map_of es (js ''data'') of Some d \<Rightarrow> d | None \<Rightarrow> v) else v)
   | _ \<Rightarrow> v)"

definition StoredEnvelope :: "jsval \<Rightarrow> jsval" where
  "StoredEnvelope d = JObj [(js ''version'', JNum (num_int STORAGE_VERSION)), (js ''data'', d)]"

definition writeStoredValue :: "(jstring \<Rightarrow> jstring \<Rightarrow> bool) \<Rightarrow> jstring \<Rightarrow> jsval \<Rightarrow> storage \<Rightarrow> storage" where
  "writeStoredValue accepts k d st = (case json_stringify 0 (StoredEnvelope d) of
     Some s \<Rightarrow> (if accepts k s then st(k \<mapsto> s) else st)
   | None \<Rightarrow> st)"

text \<open>The two small settings: objects checked by their schema, \<open>{}\<close> when anything goes wrong.\<close>

type_synonym js_object = "(jstring \<times> jsval) list"

definition load_settings :: "(jsval \<Rightarrow> js_object option) \<Rightarrow> jstring \<Rightarrow> storage \<Rightarrow> js_object" where
  "load_settings schema k st = (case readStoredValue k st of
     None \<Rightarrow> []
   | Some saved \<Rightarrow> if \<not> truthy saved then []
       else (case schema (unwrapStoredValue saved) of Some c \<Rightarrow> c | None \<Rightarrow> []))"

definition save_settings ::
  "(jstring \<Rightarrow> jstring \<Rightarrow> bool) \<Rightarrow> (jsval \<Rightarrow> js_object option) \<Rightarrow> jstring \<Rightarrow> js_object \<Rightarrow> storage \<Rightarrow> storage" where
  "save_settings accepts schema k c st = (case schema (JObj c) of
     Some parsed \<Rightarrow> writeStoredValue accepts k (JObj parsed) st
   | None \<Rightarrow> st)"

definition loadConfig :: "(jsval \<Rightarrow> js_object option) \<Rightarrow> storage \<Rightarrow> js_object" where
  "loadConfig schema = load_settings schema STORAGE_CONFIG_KEY"

definition saveConfig ::
  "(jstring \<Rightarrow> jstring \<Rightarrow> bool) \<Rightarrow> (jsval \<Rightarrow> js_object option) \<Rightarrow> js_object \<Rightarrow> storage \<Rightarrow> storage" where
  "saveConfig accepts schema = save_settings accepts schema STORAGE_CONFIG_KEY"

definition loadParameterEnabled :: "(jsval \<Rightarrow> js_object option) \<Rightarrow> storage \<Rightarrow> js_object" where
  "loadParameterEnabled schema = load_settings schema STORAGE_PARAMETER_ENABLED_KEY"

definition saveParameterEnabled ::
  "(jstring \<Rightarrow> jstring \<Rightarrow> bool) \<Rightarrow> (jsval \<Rightarrow> js_object option) \<Rightarrow> js_object \<Rightarrow> storage \<Rightarrow> storage" where
  "saveParameterEnabled accepts schema = save_settings accepts schema STORAGE_PARAMETER_ENABLED_KEY"

definition saveMessages :: "(jstring \<Rightarrow> jstring \<Rightarrow> bool) \<Rightarrow> (jsval \<Rightarrow> Message list option) \<Rightarrow>
    (Message list \<Rightarrow> jsval) \<Rightarrow> Message list \<Rightarrow> storage \<Rightarrow> storage" where
  "saveMessages accepts schema view ms st = (case schema (view (trimMessages ms)) of
     Some parsed \<Rightarrow> writeStoredValue accepts STORAGE_MESSAGES_KEY (view parsed) st
   | None \<Rightarrow> st)"

text \<open>
  Loading.  \<open>trimMessagesByContentSize\<close> builds a new array in every case, so the comparison
  \<open>sizeTrimmed !== trimmed\<close> holds and what was loaded is always written back.
\<close>

definition loaded_messages :: "(jstring \<Rightarrow> jstring) \<Rightarrow> int \<Rightarrow> Message list \<Rightarrow> Message list" where
  "loaded_messages t now parsed =
     sanitizeMessagesOnLoad t now (trimMessagesByContentSize (trimMessages
       (map (normalizeStoredMessageForLoad now) parsed)))"

definition loadMessages :: "(jstring \<Rightarrow> jstring \<Rightarrow> bool) \<Rightarrow> (jsval \<Rightarrow> Message list option) \<Rightarrow>
    (Message list \<Rightarrow> jsval) \<Rightarrow> (jstring \<Rightarrow> jstring) \<Rightarrow> int \<Rightarrow> storage \<Rightarrow> Message list option \<times> storage" where
  "loadMessages accepts schema view t now st = (case readStoredMessagesValue st of
     (None, st') \<Rightarrow> (None, st')
   | (Some saved, st') \<Rightarrow>
       if \<not> truthy saved then (None, st')
       else (case schema (unwrapStoredValue saved) of
               None \<Rightarrow> (None, st')
             | Some parsed \<Rightarrow>
                 let sanitized = loaded_messages t now parsed
                 in (Some sanitized, saveMessages accepts schema view sanitized st')))"

definition clearPlaygroundData :: "storage \<Rightarrow> storage" where
  "clearPlaygroundData st =
     st(STORAGE_CONFIG_KEY := None, STORAGE_PARAMETER_ENABLED_KEY := None, STORAGE_MESSAGES_KEY := None)"

section \<open>Limits: lemmas\<close>

lemmas storage_consts = MAX_STORED_MESSAGES_def MAX_LOADED_MESSAGES_CHARS_def MAX_LOADED_MESSAGE_CHARS_def
  MAX_STORED_MESSAGES_BYTES_def MIN_PREFIX_COLLAPSE_LENGTH_def MIN_REPEATED_SECTION_COUNT_def

lemma length_suffix [simp]: "length TRUNCATED_CONTENT_SUFFIX = 7"
  by (simp add: TRUNCATED_CONTENT_SUFFIX_def)

lemma truncateText_id: "length s \<le> n \<Longrightarrow> truncateText s n = s"
  by (simp add: truncateText_def)

lemma truncateText_length: "length (truncateText s n) = min (length s) n"
  by (auto simp: truncateText_def)

lemma trimMessages_length: "length (trimMessages ms) = min (length ms) MAX_STORED_MESSAGES"
  by (auto simp: trimMessages_def)

lemma trimMessages_drop: "trimMessages ms = drop (length ms - MAX_STORED_MESSAGES) ms"
  by (simp add: trimMessages_def)

lemma trimMessages_idem: "trimMessages (trimMessages ms) = trimMessages ms"
  using trimMessages_length [of ms] by (simp add: trimMessages_def [of "trimMessages ms"])

lemma take_by_size_take: "\<exists>n. take_by_size totalSize b ms = take n ms"
proof (induction ms arbitrary: totalSize b)
  case (Cons m ms)
  obtain n where "take_by_size (totalSize + getMessageSize m) True ms = take n ms" using Cons by blast
  then have "take_by_size totalSize b (m # ms) = take 0 (m # ms) \<or>
      take_by_size totalSize b (m # ms) = take (Suc n) (m # ms)" by simp
  then show ?case by blast
qed simp

lemma take_by_size_budget:
  "b \<Longrightarrow> totalSize \<le> MAX_LOADED_MESSAGES_CHARS \<Longrightarrow>
   totalSize + sum_list (map getMessageSize (take_by_size totalSize b ms)) \<le> MAX_LOADED_MESSAGES_CHARS"
proof (induction ms arbitrary: totalSize b)
  case (Cons m ms)
  show ?case
  proof (cases "MAX_LOADED_MESSAGES_CHARS < totalSize + getMessageSize m")
    case False
    then show ?thesis using Cons.prems Cons.IH [of True "totalSize + getMessageSize m"] by simp
  qed (use Cons.prems in simp)
qed simp

lemma take_by_size_over:
  "MAX_LOADED_MESSAGES_CHARS < totalSize \<Longrightarrow> take_by_size totalSize True ms = []"
  by (cases ms) auto

lemma take_by_size_id:
  "totalSize + sum_list (map getMessageSize ms) \<le> MAX_LOADED_MESSAGES_CHARS \<Longrightarrow> take_by_size totalSize b ms = ms"
  by (induction ms arbitrary: totalSize b) auto


lemma trimBySize_drop: "\<exists>k. trimMessagesByContentSize ms = drop k ms"
proof -
  obtain n where "take_by_size 0 False (rev ms) = take n (rev ms)" using take_by_size_take by blast
  then show ?thesis by (auto simp: trimMessagesByContentSize_def take_rev)
qed

text \<open>The newest messages that fit: what stops the loop is the next older message.\<close>

lemma take_by_size_maximal:
  "\<exists>n. take_by_size totalSize b ms = take n ms \<and> n \<le> length ms \<and>
     (n < length ms \<longrightarrow> (b \<or> 0 < n) \<and>
        MAX_LOADED_MESSAGES_CHARS < totalSize + sum_list (map getMessageSize (take (Suc n) ms)))"
proof (induction ms arbitrary: totalSize b)
  case (Cons m ms)
  show ?case
  proof (cases "b \<and> MAX_LOADED_MESSAGES_CHARS < totalSize + getMessageSize m")
    case True
    then show ?thesis by (intro exI [of _ 0]) simp
  next
    case False
    obtain n where n: "take_by_size (totalSize + getMessageSize m) True ms = take n ms" "n \<le> length ms"
      "n < length ms \<longrightarrow> MAX_LOADED_MESSAGES_CHARS <
         totalSize + getMessageSize m + sum_list (map getMessageSize (take (Suc n) ms))"
      using Cons.IH [of "totalSize + getMessageSize m" True] by blast
    from False n(1) have "take_by_size totalSize b (m # ms) = take (Suc n) (m # ms)" by auto
    then show ?thesis using n(2,3) by (intro exI [of _ "Suc n"]) (simp add: add.assoc)
  qed
qed simp

lemma take_by_size_first:
  "sum_list (map getMessageSize (take_by_size 0 False ms)) \<le> MAX_LOADED_MESSAGES_CHARS \<or>
   length (take_by_size 0 False ms) = 1"
proof (cases ms)
  case (Cons m ms')
  show ?thesis
  proof (cases "getMessageSize m \<le> MAX_LOADED_MESSAGES_CHARS")
    case True
    then show ?thesis using Cons take_by_size_budget [of True "getMessageSize m" ms'] by simp
  next
    case False
    then show ?thesis using Cons take_by_size_over [of "getMessageSize m" ms'] by simp
  qed
qed simp

lemma sum_sizes_rev: "sum_list (map getMessageSize (rev ms)) = sum_list (map getMessageSize ms)"
  by (simp add: rev_map [symmetric] sum_list_rev)

section \<open>Normalization: lemmas\<close>

lemma length_trim: "length (js_trim s) \<le> length s"
proof -
  obtain a b where "s = a @ js_trim s @ b" using js_trim_decomp by blast
  then have "length s = length a + length (js_trim s) + length b" by (metis add.assoc length_append)
  then show ?thesis by simp
qed

lemma length_join2: "length (js_join [a, b] ps) \<le> sum_list (map length ps) + 2 * length ps"
  by (induction "[a, b]" ps rule: js_join.induct) auto

text \<open>Separating the reasoning never makes a text longer: every block gives up its tags.\<close>

lemma think_loop_length:
  "think_loop rest V R = (V', R', u) \<Longrightarrow>
   length (concat V') + sum_list (map length R') + 2 * length R' \<le>
   length (concat V) + sum_list (map length R) + 2 * length R + length rest"
proof (induction rest V R rule: think_loop.induct)
  case (1 rest V R)
  note unfolded = "1.prems" [unfolded think_loop.simps [of rest V R]]
  show ?case
  proof (cases "js_index_of rest think_open")
    case None
    then show ?thesis using unfolded by (auto split: if_splits)
  next
    case (Some i)
    define vis where "vis = (if 0 < i then V @ [take i rest] else V)"
    define body where "body = drop (i + 7) rest"
    have i: "i + 7 \<le> length rest" using js_index_of_bound [OF Some] by simp
    have v: "length (concat vis) = length (concat V) + i" using i by (auto simp: vis_def)
    have b: "length body = length rest - i - 7" by (simp add: body_def)
    show ?thesis
    proof (cases "js_index_of body think_close")
      case None
      then have "V' = vis" "R' = R @ [body]"
        using unfolded Some by (auto simp: vis_def body_def Let_def)
      then show ?thesis using v b i by simp
    next
      case (Some j)
      have j: "j + 8 \<le> length body" using js_index_of_bound [OF Some] by simp
      have l: "think_loop (drop (j + 8) body) vis (R @ [take j body]) = (V', R', u)"
        using unfolded \<open>js_index_of rest think_open = Some i\<close> Some by (simp add: vis_def body_def Let_def)
      have "length (concat V') + sum_list (map length R') + 2 * length R' \<le>
        length (concat vis) + sum_list (map length (R @ [take j body])) + 2 * length (R @ [take j body]) +
        length (drop (j + 8) body)"
        by (rule "1.IH" [OF \<open>js_index_of rest think_open = Some i\<close> vis_def body_def Some l])
      then show ?thesis using v b i j by simp
    qed
  qed
qed

lemma parseThinkTags_length:
  "length (visibleContent (parseThinkTags c)) \<le> length c"
  "length (pt_reasoning (parseThinkTags c)) \<le> length c"
proof -
  obtain V R u where l: "think_loop c [] [] = (V, R, u)" by (cases "think_loop c [] []")
  have b: "length (concat V) + sum_list (map length R) + 2 * length R \<le> length c"
    using think_loop_length [OF l] by simp
  have "length (js_trim (concat V)) \<le> length c"
    using length_trim [of "concat V"] b by linarith
  then show "length (visibleContent (parseThinkTags c)) \<le> length c"
    by (simp add: parseThinkTags_def l)
  have "length (js_trim (js_join [10, 10] R)) \<le> length c"
    using length_trim [of "js_join [10, 10] R"] length_join2 [of 10 10 R] b by linarith
  then show "length (pt_reasoning (parseThinkTags c)) \<le> length c"
    by (simp add: parseThinkTags_def l)
qed

definition bounded_message :: "Message \<Rightarrow> bool" where
  "bounded_message m \<longleftrightarrow>
     list_all (\<lambda>v. length (content v) \<le> MAX_LOADED_MESSAGE_CHARS) (versions m) \<and>
     (case reasoning m of Some r \<Rightarrow> length (r_content r) \<le> MAX_LOADED_MESSAGE_CHARS | None \<Rightarrow> True)"

lemma bounded_content: "bounded_message m \<Longrightarrow> length (getMessageContent m) \<le> MAX_LOADED_MESSAGE_CHARS"
  by (auto simp: bounded_message_def getMessageContent_def getCurrentVersion_def split: list.splits)

lemma versions_timing [simp]:
  "versions (completeReasoningTiming now m) = versions m"
  "versions (completeAssistantTiming now m) = versions m"
  by (simp_all add: completeReasoningTiming_def completeAssistantTiming_def Let_def split: option.splits)

lemma finalize_versions:
  "versions (finalizeMessage now m api) =
     [(getCurrentVersion m)\<lparr>content := visibleContent (parseThinkTags (getMessageContent m))\<rparr>]"
proof -
  have "\<not> js_includes c think_open \<Longrightarrow> visibleContent (parseThinkTags c) = c" for c
    by (simp add: parseThinkTags_def)
  then show ?thesis
    by (simp add: finalizeMessage_def Let_def content_getCurrentVersion updateCurrentVersionContent_def)
qed

lemma finalize_reasoning:
  "reasoning (finalizeMessage now m None) = Some r \<Longrightarrow>
   r_content r = opt_or (map_option r_content (reasoning m)) (pt_reasoning (parseThinkTags (getMessageContent m)))"
proof -
  assume r: "reasoning (finalizeMessage now m None) = Some r"
  define f where "f = opt_or (map_option r_content (reasoning m)) (pt_reasoning (parseThinkTags (getMessageContent m)))"
  have p: "\<not> js_includes c think_open \<Longrightarrow> pt_reasoning (parseThinkTags c) = []" for c
    by (simp add: parseThinkTags_def)
  have "map_option r_content (reasoning (finalizeMessage now m None)) = (if f \<noteq> [] then Some f else None)"
    by (auto simp: finalizeMessage_def Let_def content_getCurrentVersion f_def p str_or_def opt_or_def
        split: option.splits)
  with r show ?thesis by (auto simp: f_def split: if_splits)
qed

lemma bounded_finalize:
  assumes "bounded_message m"
  shows "bounded_message (finalizeMessage now m None)"
proof -
  have c: "length (getMessageContent m) \<le> MAX_LOADED_MESSAGE_CHARS" using assms by (rule bounded_content)
  have "length (r_content r) \<le> MAX_LOADED_MESSAGE_CHARS"
    if r: "reasoning (finalizeMessage now m None) = Some r" for r
    using finalize_reasoning [OF r] parseThinkTags_length(2) [of "getMessageContent m"] c assms
    by (auto simp: bounded_message_def opt_or_def str_or_def split: option.splits if_splits)
  then show ?thesis
    using parseThinkTags_length(1) [of "getMessageContent m"] c
    by (auto simp: bounded_message_def finalize_versions split: option.splits)
qed

lemma bounded_record [simp]:
  "bounded_message (m\<lparr>msg_status := x, isReasoningStreaming := b\<rparr>) = bounded_message m"
  "bounded_message (completeAssistantTiming now m) = bounded_message m"
  by (simp_all add: bounded_message_def)

lemma bounded_normalize: "bounded_message (normalizeStoredMessageForLoad now m)"
proof -
  have "bounded_message (m\<lparr>versions := map normalize_version (versions m),
      reasoning := map_option normalize_reasoning (reasoning m)\<rparr>)"
    by (auto simp: bounded_message_def list_all_iff normalize_version_def normalize_reasoning_def
        truncateText_length split: option.splits)
  then show ?thesis by (simp add: normalizeStoredMessageForLoad_def Let_def bounded_finalize)
qed

lemma finalize_frame [simp]:
  "key (finalizeMessage now m api) = key m" "sender (finalizeMessage now m api) = sender m"
  by (simp_all add: finalizeMessage_def Let_def)

lemma key_normalize [simp]: "key (normalizeStoredMessageForLoad now m) = key m"
  by (simp add: normalizeStoredMessageForLoad_def Let_def)

lemma key_sanitized [simp]: "key (sanitized_message t now m) = key m"
  by (simp add: sanitized_message_def Let_def)

lemma keys_sanitize [simp]: "map key (sanitizeMessagesOnLoad t now ms) = map key ms"
proof (cases "find_last_index (\<lambda>m. isPendingAssistantMessage (Some m)) ms")
  case (Some i)
  then have "i < length ms" by (simp add: find_last_index_Some)
  then show ?thesis using Some
    by (simp add: sanitizeMessagesOnLoad_def map_update list_update_same_conv)
qed (simp add: sanitizeMessagesOnLoad_def)

lemma length_sanitize [simp]: "length (sanitizeMessagesOnLoad t now ms) = length ms"
  using keys_sanitize [of t now ms] by (metis length_map)

lemma loaded_keys: "\<exists>k. map key (loaded_messages t now p) = drop k (map key p)"
proof -
  obtain k where "trimMessagesByContentSize (trimMessages (map (normalizeStoredMessageForLoad now) p)) =
      drop k (trimMessages (map (normalizeStoredMessageForLoad now) p))"
    using trimBySize_drop by blast
  then have "map key (loaded_messages t now p) = drop (k + (length p - MAX_STORED_MESSAGES)) (map key p)"
    by (simp add: loaded_messages_def trimMessages_drop drop_map comp_def)
  then show ?thesis by blast
qed

section \<open>Properties of the limits\<close>

text \<open>
  Loading never shows more than the newest hundred stored messages, in their stored order and
  with their identities, and it shows at least one of them if there is any.
\<close>

theorem loaded_messages_suffix:
  "length (loaded_messages t now p) \<le> MAX_STORED_MESSAGES \<and>
   (\<exists>k. map key (loaded_messages t now p) = drop k (map key p)) \<and>
   (loaded_messages t now p = [] \<longleftrightarrow> p = [])"
proof (intro conjI)
  let ?q = "trimMessages (map (normalizeStoredMessageForLoad now) p)"
  obtain n where n: "take_by_size 0 False (rev ?q) = take n (rev ?q)" "n < length (rev ?q) \<longrightarrow> 0 < n"
    using take_by_size_maximal [of 0 False "rev ?q"] by blast
  have l: "length (loaded_messages t now p) = min (length ?q) n"
    using n(1) by (simp add: loaded_messages_def trimMessagesByContentSize_def)
  then show "length (loaded_messages t now p) \<le> MAX_STORED_MESSAGES"
    by (simp add: trimMessages_length)
  show "\<exists>k. map key (loaded_messages t now p) = drop k (map key p)" by (rule loaded_keys)
  have "length ?q = 0 \<longleftrightarrow> p = []" by (auto simp: trimMessages_length MAX_STORED_MESSAGES_def min_def)
  then show "loaded_messages t now p = [] \<longleftrightarrow> p = []"
    using l n(2) by (metis length_0_conv length_rev min.absorb4 min_0L min_def neq0_conv)
qed


text \<open>
  No text of a loaded message exceeds the limit of a single text: neither a version of its
  content nor its reasoning, also when the reasoning is only separated from the content on loading.
\<close>

theorem normalizeStoredMessageForLoad_bounded:
  "bounded_message (normalizeStoredMessageForLoad now m)"
  by (rule bounded_normalize)

section \<open>Repeated sections: lemmas\<close>

definition heading_count :: "SectionOccurrence list \<Rightarrow> jstring \<Rightarrow> nat" where
  "heading_count occs h = length (filter (\<lambda>occ. heading occ = h) occs)"

lemma heading_counts_snoc:
  "getHeadingCounts (occs @ [x]) = AList.update (heading x)
     ((case map_of (getHeadingCounts occs) (heading x) of Some n \<Rightarrow> n | None \<Rightarrow> 0) + 1) (getHeadingCounts occs)"
  by (simp add: getHeadingCounts_def)

lemma heading_counts:
  "(case map_of (getHeadingCounts occs) h of Some n \<Rightarrow> n | None \<Rightarrow> 0) = heading_count occs h"
proof (induction occs rule: rev_induct)
  case (snoc x occs)
  then show ?case
    by (cases "heading x = h") (auto simp: heading_counts_snoc heading_count_def update_conv')
qed (simp add: getHeadingCounts_def heading_count_def)

lemma last_repeated_sound:
  "i \<in> set (last_repeated counts occs seen) \<Longrightarrow>
   \<exists>occ \<in> set occs. occ_index occ = i \<and>
     MIN_REPEATED_SECTION_COUNT \<le> (case map_of counts (heading occ) of Some n \<Rightarrow> n | None \<Rightarrow> 0)"
  by (induction counts occs seen rule: last_repeated.induct) (auto split: if_splits)

lemma last_repeated_complete:
  "occ \<in> set occs \<Longrightarrow> heading occ \<notin> set seen \<Longrightarrow>
   MIN_REPEATED_SECTION_COUNT \<le> (case map_of counts (heading occ) of Some n \<Rightarrow> n | None \<Rightarrow> 0) \<Longrightarrow>
   \<exists>l \<in> set occs. heading l = heading occ \<and> occ_index l \<in> set (last_repeated counts occs seen)"
proof (induction counts occs seen rule: last_repeated.induct)
  case (2 counts x occs seen)
  show ?case
  proof (cases "heading x = heading occ")
    case True
    then show ?thesis using "2.prems" by auto
  next
    case False
    then have m: "occ \<in> set occs" using "2.prems"(1) by auto
    show ?thesis
    proof (cases "(case map_of counts (heading x) of Some n \<Rightarrow> n | None \<Rightarrow> 0) < MIN_REPEATED_SECTION_COUNT \<or>
        heading x \<in> set seen")
      case True
      then show ?thesis using "2.IH"(1) [OF True m "2.prems"(2,3)] by auto
    next
      case nx: False
      then show ?thesis using "2.IH"(2) [OF nx m] "2.prems"(2,3) False by auto
    qed
  qed
qed simp

text \<open>An occurrence is where its heading stands in the text.\<close>

lemma match_title_prefix: "match_title s = Some t \<Longrightarrow> \<exists>u. s = t @ u"
proof -
  assume m: "match_title s = Some t"
  let ?w = "takeWhile is_ws s" and ?r = "dropWhile is_ws s"
  have l: "\<exists>u. x = rest_of_line x @ u" for x
    unfolding rest_of_line_def by (metis takeWhile_dropWhile_id)
  show ?thesis
  proof (cases "?r = []")
    case False
    with m have t: "t = ?w @ rest_of_line ?r" by (auto simp: match_title_def Let_def split: if_splits)
    obtain u where "?r = rest_of_line ?r @ u" using l by blast
    then have "s = t @ u" unfolding t by (metis append.assoc takeWhile_dropWhile_id)
    then show ?thesis by blast
  next
    case True
    with m obtain j where t: "t = take j ?w @ rest_of_line (drop j ?w)"
      by (auto simp: match_title_def Let_def split: if_splits option.splits)
    obtain u where "drop j ?w = rest_of_line (drop j ?w) @ u" using l by blast
    then have "?w = t @ u" unfolding t by (metis append.assoc append_take_drop_id)
    moreover have "s = ?w" using True by (metis append_Nil2 takeWhile_dropWhile_id)
    ultimately show ?thesis by metis
  qed
qed

lemma takeWhile_split: "s = takeWhile p s @ drop (length (takeWhile p s)) s"
  by (metis append_take_drop_id takeWhile_eq_take)

lemma match_heading_prefix: "match_heading s = Some h \<Longrightarrow> js_starts_with s h \<and> h \<noteq> []"
proof -
  assume m: "match_heading s = Some h"
  define a where "a = takeWhile (\<lambda>c. c = 35) s"
  define s1 where "s1 = drop (length a) s"
  define w where "w = takeWhile is_ws s1"
  define s2 where "s2 = drop (length w) s1"
  define d where "d = takeWhile is_digit s2"
  define s3 where "s3 = drop (length d) s2"
  note folds = a_def [symmetric] s1_def [symmetric] w_def [symmetric] s2_def [symmetric] d_def [symmetric] s3_def [symmetric]
  have c: "s = a @ s1" "s1 = w @ s2" "s2 = d @ s3"
    unfolding a_def s1_def w_def s2_def d_def s3_def by (rule takeWhile_split)+
  obtain t where t: "match_title (drop 1 s3) = Some t" "h = a @ w @ d @ [46] @ t" "js_starts_with s3 [46]" "2 \<le> length a"
    using m unfolding match_heading_def Let_def folds by (auto split: if_splits option.splits)
  obtain u where "drop 1 s3 = t @ u" using match_title_prefix [OF t(1)] by blast
  moreover obtain v where "s3 = [46] @ v" using t(3) unfolding js_starts_with_prefix by blast
  ultimately have "s3 = [46] @ t @ u" by simp
  then have "s = h @ u" using c t(2) by simp
  then have "js_starts_with s h" by simp
  then show ?thesis using t(2,4) by auto
qed

lemma occurrences_from_position:
  "occ \<in> set (occurrences_from b i s) \<Longrightarrow>
   i \<le> occ_index occ \<and> js_starts_with (drop (occ_index occ - i) s) (heading occ)"
proof (induction b i s rule: occurrences_from.induct)
  case (2 b i c cs)
  note outer = "2.IH"(2)
  show ?case
  proof (cases "if b then match_heading (c # cs) else None")
    case None
    then have "occ \<in> set (occurrences_from (line_terminator c) (i + 1) cs)" using "2.prems" by simp
    from "2.IH"(1) [OF None this] have o: "Suc i \<le> occ_index occ"
        "js_starts_with (drop (occ_index occ - Suc i) cs) (heading occ)" by simp_all
    then have "occ_index occ - i = Suc (occ_index occ - Suc i)" by simp
    with o show ?thesis by simp
  next
    case (Some h)
    let ?n = "max 1 (length h)"
    have h: "js_starts_with (c # cs) h" using Some match_heading_prefix by (auto split: if_splits)
    from "2.prems" Some consider "occ = \<lparr>heading = h, occ_index = i\<rparr>"
      | "occ \<in> set (occurrences_from False (i + ?n) (drop ?n (c # cs)))" by auto
    then show ?thesis
    proof cases
      case 2
      then have o: "i + ?n \<le> occ_index occ"
        "js_starts_with (drop (occ_index occ - (i + ?n)) (drop ?n (c # cs))) (heading occ)"
        using outer [OF Some] by blast+
      then have "occ_index occ - (i + ?n) + ?n = occ_index occ - i" by simp
      with o show ?thesis by (simp only: drop_drop) simp
    qed (use h in simp)
  qed
qed simp

text \<open>
  Collapsing repeated snapshots of a text cuts off a beginning of it and nothing else, at a
  heading that occurs at least three times, and of every heading that occurs that often an
  occurrence stays in the text.
\<close>

theorem collapse_keeps_repeated_sections:
  "\<exists>k. collapseRepeatedSectionSnapshots s = drop k s \<and>
     (k = 0 \<or> list_ex (\<lambda>occ. js_starts_with (drop k s) (heading occ) \<and>
        MIN_REPEATED_SECTION_COUNT \<le> heading_count (getSectionOccurrences s) (heading occ)) (getSectionOccurrences s)) \<and>
     list_all (\<lambda>occ. list_ex (\<lambda>l. heading l = heading occ \<and> k \<le> occ_index l) (getSectionOccurrences s))
       (filter (\<lambda>occ. MIN_REPEATED_SECTION_COUNT \<le> heading_count (getSectionOccurrences s) (heading occ))
         (getSectionOccurrences s))"
proof -
  let ?occs = "getSectionOccurrences s"
  define starts where "starts = last_repeated (getHeadingCounts ?occs) (rev ?occs) []"
  define k where "k = (if length s < MIN_PREFIX_COLLAPSE_LENGTH \<or> starts = [] then 0 else Min (set starts))"
  have "collapseRepeatedSectionSnapshots s = drop k s"
    by (simp add: collapseRepeatedSectionSnapshots_def findLastRepeatedSectionRunStart_def Let_def k_def
        starts_def [symmetric])
  moreover have "k = 0 \<or> k \<in> set starts" by (simp add: k_def)
  then have "k = 0 \<or> list_ex (\<lambda>occ. js_starts_with (drop k s) (heading occ) \<and>
      MIN_REPEATED_SECTION_COUNT \<le> heading_count ?occs (heading occ)) ?occs"
    using last_repeated_sound [of k "getHeadingCounts ?occs" "rev ?occs" "[]"]
      occurrences_from_position [of _ True 0 s]
    by (fastforce simp: starts_def heading_counts list_ex_iff getSectionOccurrences_def)
  moreover have "\<exists>l \<in> set ?occs. heading l = heading occ \<and> k \<le> occ_index l"
    if "occ \<in> set ?occs" "MIN_REPEATED_SECTION_COUNT \<le> heading_count ?occs (heading occ)" for occ
  proof -
    have "\<exists>l \<in> set ?occs. heading l = heading occ \<and> occ_index l \<in> set starts"
      using last_repeated_complete [of occ "rev ?occs" "[]" "getHeadingCounts ?occs"] that
      by (simp add: starts_def heading_counts)
    then obtain l where l: "l \<in> set ?occs" "heading l = heading occ" "occ_index l \<in> set starts" by blast
    then have "k \<le> occ_index l" by (auto simp: k_def)
    with l show ?thesis by blast
  qed
  ultimately show ?thesis by (intro exI [of _ k]) (simp add: list_all_iff list_ex_iff)
qed

section \<open>Saving and loading\<close>

text \<open>A message that loading leaves as it is.\<close>

definition settled :: "Message \<Rightarrow> bool" where
  "settled m \<longleftrightarrow> \<not> isAssistantMessagePending m \<and> bounded_message m \<and>
     list_all (\<lambda>v. length (content v) < MIN_PREFIX_COLLAPSE_LENGTH) (versions m)"

lemma normalize_settled: "settled m \<Longrightarrow> normalizeStoredMessageForLoad now m = m"
proof -
  assume s: "settled m"
  have "map normalize_version (versions m) = versions m"
    using s by (auto simp: settled_def bounded_message_def list_all_iff normalize_version_def truncateText_id
        collapseRepeatedSectionSnapshots_def intro!: map_idI)
  moreover have "map_option normalize_reasoning (reasoning m) = reasoning m"
    using s by (auto simp: settled_def bounded_message_def normalize_reasoning_def truncateText_id split: option.splits)
  ultimately show ?thesis using s by (simp add: normalizeStoredMessageForLoad_def Let_def settled_def)
qed

lemma loaded_settled:
  assumes "list_all settled ms" "length ms \<le> MAX_STORED_MESSAGES"
    "sum_list (map getMessageSize ms) \<le> MAX_LOADED_MESSAGES_CHARS"
  shows "loaded_messages t now ms = ms"
proof -
  have "map (normalizeStoredMessageForLoad now) ms = ms"
    using assms(1) by (auto simp: list_all_iff normalize_settled intro!: map_idI)
  moreover have "trimMessages ms = ms" using assms(2) by (simp add: trimMessages_def)
  moreover have "trimMessagesByContentSize ms = ms"
    using take_by_size_id [of 0 "rev ms" False] assms(3) by (simp add: trimMessagesByContentSize_def sum_sizes_rev)
  moreover have "find_last_index (\<lambda>m. isPendingAssistantMessage (Some m)) ms = None"
    using assms(1) by (auto simp: find_last_index_None list_all_iff settled_def pending_iff)
  ultimately show ?thesis by (simp add: loaded_messages_def sanitizeMessagesOnLoad_def)
qed

lemma canonical_envelope: "canonical v \<Longrightarrow> canonical (StoredEnvelope v)"
  by (simp add: StoredEnvelope_def STORAGE_VERSION_def obj_of_def own_order_def is_index_key_def js_Cons
      is_digit_def unit16_def num_int_def safe_int_def)

lemma unwrap_envelope [simp]: "unwrapStoredValue (StoredEnvelope v) = v"
  by (simp add: unwrapStoredValue_def StoredEnvelope_def js_Cons)

lemma envelope_text:
  assumes "canonical v"
  obtains s where "json_stringify 0 (StoredEnvelope v) = Some s" "json_parse s = Some (StoredEnvelope v)" "s \<noteq> []"
proof -
  obtain s where s: "json_stringify 0 (StoredEnvelope v) = Some s" "json_parse s = Some (StoredEnvelope v)"
    using json_parse_stringify [OF canonical_envelope [OF assms]] by blast
  moreover have "json_parse [] = None" by (simp add: json_parse_def json_fuel_def skip_ws_def)
  ultimately show thesis using that by (cases "s = []") auto
qed


section \<open>The persistence hook\<close>

text \<open>
  What the hook relies on: which writes the storage takes, the three schemas, the object form of
  messages and the translations.
\<close>

record storage_env =
  env_accepts :: "jstring \<Rightarrow> jstring \<Rightarrow> bool"
  env_schema :: "jsval \<Rightarrow> Message list option"
  env_view :: "Message list \<Rightarrow> jsval"
  env_config_schema :: "jsval \<Rightarrow> js_object option"
  env_enabled_schema :: "jsval \<Rightarrow> js_object option"
  env_t :: "jstring \<Rightarrow> jstring"

abbreviation save_in :: "storage_env \<Rightarrow> Message list \<Rightarrow> storage \<Rightarrow> storage" where
  "save_in e \<equiv> saveMessages (env_accepts e) (env_schema e) (env_view e)"

text \<open>\<open>saveTimer\<close> and \<open>loadTimer\<close> tell whether the timeout is pending.\<close>

record playground =
  pg_messages :: "Message list"
  isLoadingMessages :: bool
  saveTimer :: bool
  latestMessages :: "Message list"
  hasLoadedMessages :: bool
  loadTimer :: bool
  mounted :: bool
  pg_config :: js_object
  pg_enabled :: js_object
  disk :: storage

definition spread :: "js_object \<Rightarrow> js_object \<Rightarrow> js_object" where
  "spread a b = obj_of (a @ b)"

definition config_object :: "PlaygroundConfig \<Rightarrow> js_object" where
  "config_object c =
     [(js ''model'', JStr (cfg_model c)), (js ''group'', JStr (cfg_group c)),
      (js ''temperature'', JNum (cfg_temperature c)), (js ''top_p'', JNum (cfg_top_p c)),
      (js ''max_tokens'', JNum (cfg_max_tokens c)), (js ''frequency_penalty'', JNum (cfg_frequency_penalty c)),
      (js ''presence_penalty'', JNum (cfg_presence_penalty c)),
      (js ''seed'', (case cfg_seed c of Some n \<Rightarrow> JNum n | None \<Rightarrow> JNull)), (js ''stream'', JBool (cfg_stream c))]"

definition enabled_object :: "ParameterEnabled \<Rightarrow> js_object" where
  "enabled_object p =
     [(js ''temperature'', JBool (en_temperature p)), (js ''top_p'', JBool (en_top_p p)),
      (js ''max_tokens'', JBool (en_max_tokens p)), (js ''frequency_penalty'', JBool (en_frequency_penalty p)),
      (js ''presence_penalty'', JBool (en_presence_penalty p)), (js ''seed'', JBool (en_seed p))]"

definition getInitialPlaygroundConfig :: "storage_env \<Rightarrow> storage \<Rightarrow> js_object" where
  "getInitialPlaygroundConfig e st = spread (config_object DEFAULT_CONFIG) (loadConfig (env_config_schema e) st)"

definition getInitialParameterEnabled :: "storage_env \<Rightarrow> storage \<Rightarrow> js_object" where
  "getInitialParameterEnabled e st =
     spread (enabled_object DEFAULT_PARAMETER_ENABLED) (loadParameterEnabled (env_enabled_schema e) st)"

definition usePlaygroundState :: "storage_env \<Rightarrow> storage \<Rightarrow> playground" where
  "usePlaygroundState e st = \<lparr>pg_messages = [], isLoadingMessages = True, saveTimer = False, latestMessages = [],
     hasLoadedMessages = False, loadTimer = True, mounted = True, pg_config = getInitialPlaygroundConfig e st,
     pg_enabled = getInitialParameterEnabled e st, disk = st\<rparr>"

definition persistMessages :: "Message list \<Rightarrow> playground \<Rightarrow> playground" where
  "persistMessages messagesToSave p =
     (let p = p\<lparr>latestMessages := messagesToSave\<rparr>
      in if \<not> hasLoadedMessages p then p else p\<lparr>saveTimer := True\<rparr>)"

definition save_timeout :: "storage_env \<Rightarrow> playground \<Rightarrow> playground" where
  "save_timeout e p = p\<lparr>saveTimer := False, disk := save_in e (latestMessages p) (disk p)\<rparr>"

definition load_timeout :: "storage_env \<Rightarrow> int \<Rightarrow> playground \<Rightarrow> playground" where
  "load_timeout e now p =
     (let (loaded, st) = loadMessages (env_accepts e) (env_schema e) (env_view e) (env_t e) now (disk p);
          loadedMessages = (case loaded of Some ms \<Rightarrow> ms | None \<Rightarrow> []);
          p = p\<lparr>loadTimer := False, disk := st\<rparr>
      in if \<not> mounted p then p
         else p\<lparr>latestMessages := loadedMessages, hasLoadedMessages := True, pg_messages := loadedMessages,
                isLoadingMessages := False\<rparr>)"

definition playground_unmount :: "storage_env \<Rightarrow> playground \<Rightarrow> playground" where
  "playground_unmount e p =
     (let p = p\<lparr>mounted := False\<rparr>
      in if saveTimer p then p\<lparr>saveTimer := False, disk := save_in e (latestMessages p) (disk p)\<rparr> else p)"

definition updateConfig :: "storage_env \<Rightarrow> jstring \<Rightarrow> jsval \<Rightarrow> playground \<Rightarrow> playground" where
  "updateConfig e k v p =
     (let updated = spread (pg_config p) [(k, v)]
      in p\<lparr>pg_config := updated, disk := saveConfig (env_accepts e) (env_config_schema e) updated (disk p)\<rparr>)"

definition updateParameterEnabled :: "storage_env \<Rightarrow> jstring \<Rightarrow> bool \<Rightarrow> playground \<Rightarrow> playground" where
  "updateParameterEnabled e k v p =
     (let updated = spread (pg_enabled p) [(k, JBool v)]
      in p\<lparr>pg_enabled := updated, disk := saveParameterEnabled (env_accepts e) (env_enabled_schema e) updated (disk p)\<rparr>)"

definition updateMessages :: "(Message list \<Rightarrow> Message list) \<Rightarrow> playground \<Rightarrow> playground" where
  "updateMessages updater p =
     (let newMessages = updater (pg_messages p) in (persistMessages newMessages p)\<lparr>pg_messages := newMessages\<rparr>)"

definition clearMessages :: "playground \<Rightarrow> playground" where
  "clearMessages = updateMessages (\<lambda>_. [])"

definition resetConfig :: "storage_env \<Rightarrow> playground \<Rightarrow> playground" where
  "resetConfig e p =
     (let c = config_object DEFAULT_CONFIG; q = enabled_object DEFAULT_PARAMETER_ENABLED
      in p\<lparr>pg_config := c, pg_enabled := q,
           disk := saveParameterEnabled (env_accepts e) (env_enabled_schema e) q
             (saveConfig (env_accepts e) (env_config_schema e) c (disk p))\<rparr>)"

inductive playground_step :: "storage_env \<Rightarrow> playground \<Rightarrow> playground \<Rightarrow> bool" for e :: storage_env where
  step_update: "mounted p \<Longrightarrow> playground_step e p (updateMessages f p)"
| step_save: "saveTimer p \<Longrightarrow> playground_step e p (save_timeout e p)"
| step_load: "loadTimer p \<Longrightarrow> playground_step e p (load_timeout e now p)"
| step_unmount: "mounted p \<Longrightarrow> playground_step e p (playground_unmount e p)"
| step_config: "mounted p \<Longrightarrow> playground_step e p (updateConfig e k v p)"
| step_enabled: "mounted p \<Longrightarrow> playground_step e p (updateParameterEnabled e k b p)"
| step_reset: "mounted p \<Longrightarrow> playground_step e p (resetConfig e p)"

text \<open>
  Nothing is lost: the messages shown are the ones that will be saved, and either a save is pending
  or saving them once more would not change the storage.
\<close>

definition durable :: "storage_env \<Rightarrow> playground \<Rightarrow> bool" where
  "durable e p \<longleftrightarrow> hasLoadedMessages p \<and> \<not> loadTimer p \<and> latestMessages p = pg_messages p \<and>
     (saveTimer p \<longrightarrow> mounted p) \<and> (saveTimer p \<or> save_in e (latestMessages p) (disk p) = disk p)"

lemma save_twice: "save_in e ms (save_in e ms st) = save_in e ms st"
  by (auto simp: saveMessages_def writeStoredValue_def split: option.splits)

lemma storage_keys [simp]:
  "STORAGE_CONFIG_KEY \<noteq> STORAGE_MESSAGES_KEY" "STORAGE_PARAMETER_ENABLED_KEY \<noteq> STORAGE_MESSAGES_KEY"
  by (simp_all add: STORAGE_CONFIG_KEY_def STORAGE_PARAMETER_ENABLED_KEY_def STORAGE_MESSAGES_KEY_def js_Cons)

lemma save_settings_other:
  "k \<noteq> STORAGE_MESSAGES_KEY \<Longrightarrow> save_in e ms st = st \<Longrightarrow>
   save_in e ms (save_settings a sch k c st) = save_settings a sch k c st"
  by (auto simp: saveMessages_def writeStoredValue_def save_settings_def fun_upd_idem_iff fun_upd_twist
      split: option.splits if_splits)

lemma durable_update: "durable e p \<Longrightarrow> mounted p \<Longrightarrow> durable e (updateMessages f p)"
  by (simp add: durable_def updateMessages_def persistMessages_def Let_def)

lemma durable_save: "durable e p \<Longrightarrow> durable e (save_timeout e p)"
  by (simp add: durable_def save_timeout_def save_twice)

lemma durable_unmount: "durable e p \<Longrightarrow> durable e (playground_unmount e p)"
  by (cases "saveTimer p") (auto simp: durable_def playground_unmount_def save_twice)

lemma durable_settings:
  assumes "durable e p"
  shows "durable e (updateConfig e k v p)" "durable e (updateParameterEnabled e k b p)" "durable e (resetConfig e p)"
  using assms
  by (auto simp: durable_def updateConfig_def updateParameterEnabled_def resetConfig_def saveConfig_def
      saveParameterEnabled_def save_settings_other Let_def)

interpretation pg: transition_system "playground_step e" "durable e"
proof
  fix p q
  assume d: "durable e p" and s: "playground_step e p q"
  from s show "durable e q"
  proof (cases rule: playground_step.cases)
    case (step_load now)
    then show ?thesis using d by (simp add: durable_def)
  qed (use d in \<open>simp_all add: durable_update durable_save durable_unmount durable_settings\<close>)
qed


text \<open>A finished answer, and an environment whose schema knows the conversation that consists of it.\<close>

definition sample_answer :: Message where
  "sample_answer = (createLoadingAssistantMessage (js ''k'') (js ''v'') 1000)\<lparr>msg_status := Some StatusComplete\<rparr>"

definition sample_view :: "Message list \<Rightarrow> jsval" where
  "sample_view ms = JArr (map (\<lambda>m. JStr (key m)) ms)"

definition sample_schema :: "jsval \<Rightarrow> Message list option" where
  "sample_schema v = (if v = sample_view [sample_answer] then Some [sample_answer] else None)"

definition sample_env :: storage_env where
  "sample_env = \<lparr>env_accepts = (\<lambda>_ _. True), env_schema = sample_schema, env_view = sample_view,
     env_config_schema = obj_entries, env_enabled_schema = obj_entries, env_t = id\<rparr>"

lemma sample_answer_simps [simp]:
  "key sample_answer = js ''k''" "settled sample_answer" "getMessageSize sample_answer = 0"
  by (simp_all add: sample_answer_def createLoadingAssistantMessage_def createMessageVersion_def settled_def
      bounded_message_def isAssistantMessagePending_def getMessageSize_def MIN_PREFIX_COLLAPSE_LENGTH_def)

lemma sample_text: "length (the (json_stringify 0 (StoredEnvelope (sample_view [sample_answer])))) \<le> MAX_STORED_MESSAGES_BYTES"
  by (simp add: json_stringify_def StoredEnvelope_def sample_view_def STORAGE_VERSION_def json_wrap_def
      json_quote_def quote_char_def js_eval js_Cons MAX_STORED_MESSAGES_BYTES_def simple_escape_def
      safe_int_def show_int_def)



end
