(* ===== verification/Http_Client.thy ===== *)
theory Http_Client
  imports Auth_Session
begin

text \<open>
  The HTTP client (\<open>lib/http-client.ts\<close>) and the texts for server errors
  (\<open>lib/server-error-message.ts\<close>): joining equal GET requests, the token header, the one retry after
  a refused token, token rotation and the notifications.

  The transport is a library's: it resolves or rejects a request, which are the events
  \<open>on_success\<close> and \<open>on_failure\<close>.  A request waits for the refresh of the authentication session at
  \<open>AwaitingRefresh\<close>.  Translation is an argument (\<open>t\<close>).  The error of a request carries the
  request's configuration, as the transport library documents.
\<close>

section \<open>Texts for server errors\<close>

text \<open>
  Looking a code up in an object literal also finds the members that every object inherits; they
  are functions, not texts.
\<close>

datatype message_key = KeyText jstring | InheritedMember jstring

definition serverErrorMessageKeys :: "(jstring \<times> jstring) list" where
  "serverErrorMessageKeys =
     [(js ''AUTH_SESSION_LIMIT'',
        js ''Too many active login sessions. On a device where you are already signed in, open Login sessions and use '' @
        [8220] @ js ''Sign out other sessions'' @ [8221] @
        js '' to revoke them. If you cannot access a signed-in device, reset your password to sign out all sessions.''),
      (js ''AUTH_SESSION_ISSUANCE_LIMIT'',
        js ''Too many login sessions were created recently. Please wait for the rolling window to pass, then try again.''),
      (js ''TELEGRAM_BIND_DISABLED'', js ''Telegram binding is disabled.''),
      (js ''TELEGRAM_BIND_INVALID_REQUEST'', js ''The Telegram authorization request is invalid or expired.''),
      (js ''TELEGRAM_BIND_FLOW_INVALID'', js ''This Telegram binding request has expired or has already been used.''),
      (js ''TELEGRAM_BIND_SESSION_INVALID'', js ''The login session that started this Telegram binding is no longer valid.''),
      (js ''TELEGRAM_BIND_ALREADY_BOUND'', js ''This Telegram account is already bound.''),
      (js ''TELEGRAM_BIND_USER_DELETED'', js ''This user account no longer exists.''),
      (js ''TELEGRAM_BIND_USER_DISABLED'', js ''This user account is disabled.''),
      (js ''TELEGRAM_BIND_INTERNAL_ERROR'', js ''Telegram binding failed. Please try again.'')]"

definition inherited_members :: "jstring list" where
  "inherited_members = map js [''constructor'', ''__defineGetter__'', ''__defineSetter__'', ''hasOwnProperty'',
     ''__lookupGetter__'', ''__lookupSetter__'', ''isPrototypeOf'', ''propertyIsEnumerable'', ''toString'',
     ''valueOf'', ''__proto__'', ''toLocaleString'']"

definition serverErrorPayload :: "jsval \<Rightarrow> jsval option" where
  "serverErrorPayload value =
     (if \<not> isRecord value then None
      else let response = get_prop value (js ''response'')
           in if isRecord response \<and> isRecord (get_prop response (js ''data''))
              then Some (get_prop response (js ''data'')) else Some value)"

definition getServerErrorMessageKey :: "jsval \<Rightarrow> message_key option" where
  "getServerErrorMessageKey value = (case serverErrorPayload value of
     None \<Rightarrow> None
   | Some payload \<Rightarrow> (case get_prop payload (js ''code'') of
       JStr code \<Rightarrow> (case map_of serverErrorMessageKeys code of
           Some k \<Rightarrow> Some (KeyText k)
         | None \<Rightarrow> if code \<in> set inherited_members then Some (InheritedMember code) else None)
     | _ \<Rightarrow> None))"

section \<open>Requests\<close>

record ApiRequestConfig =
  skipBusinessError :: bool
  skipErrorHandler :: bool
  disableDuplicate :: bool
  skipAuthRefresh :: bool
  authRetry :: bool
  acceptAuthRotation :: bool
  Authorization :: "jstring option"

datatype api_error = TransportError jsval | RotationError AuthRotationError | RefreshRejected jsval

datatype api_pc = InTransit | AwaitingRefresh | Fulfilled jsval | Rejected api_error

text \<open>
  A request: its configuration, its state, the token headers it was transmitted with so far, the
  key it is joined under, and the session it was started for.
\<close>

record api_request =
  config :: ApiRequestConfig
  api_pc :: api_pc
  transmissions :: "jstring option list"
  get_key :: "jstring option"
  get_session :: jstring

record page =
  store :: client
  toasts :: "jsval list"
  pathname :: jstring
  api_requests :: "api_request list"
  inFlightGet :: "(jstring \<times> nat) list"

definition initial_page :: "client \<Rightarrow> jstring \<Rightarrow> page" where
  "initial_page c here = \<lparr>store = c, toasts = [], pathname = here, api_requests = [], inFlightGet = []\<rparr>"

definition toast_error :: "jsval \<Rightarrow> page \<Rightarrow> page" where
  "toast_error v p = p\<lparr>toasts := toasts p @ [v]\<rparr>"

definition update_request :: "nat \<Rightarrow> (api_request \<Rightarrow> api_request) \<Rightarrow> page \<Rightarrow> page" where
  "update_request i f p = p\<lparr>api_requests := (api_requests p)[i := f (api_requests p ! i)]\<rparr>"

text \<open>The request interceptor: the current token replaces the header, if there is one.\<close>

definition request_interceptor :: "client \<Rightarrow> ApiRequestConfig \<Rightarrow> ApiRequestConfig" where
  "request_interceptor c cfg = (case accessToken (auth c) of
     Some tok \<Rightarrow> (if tok \<noteq> [] then cfg\<lparr>Authorization := Some (js ''Bearer '' @ tok)\<rparr> else cfg)
   | None \<Rightarrow> cfg)"

definition transmit :: "client \<Rightarrow> api_request \<Rightarrow> api_request" where
  "transmit c r = (let cfg = request_interceptor c (config r)
     in r\<lparr>config := cfg, api_pc := InTransit, transmissions := transmissions r @ [Authorization cfg]\<rparr>)"

definition start_request :: "ApiRequestConfig \<Rightarrow> jstring option \<Rightarrow> jstring \<Rightarrow> page \<Rightarrow> page" where
  "start_request cfg k s p = p\<lparr>api_requests := api_requests p @
     [transmit (store p) \<lparr>config = cfg, api_pc = InTransit, transmissions = [], get_key = k, get_session = s\<rparr>]\<rparr>"

definition sessionSID :: "client \<Rightarrow> jstring" where
  "sessionSID c = opt_or (session_sid (auth c)) (js ''anonymous'')"

definition request_key :: "jstring \<Rightarrow> jstring \<Rightarrow> jstring \<Rightarrow> jstring" where
  "request_key s url params = s @ [58] @ url @ [63] @ params"

text \<open>\<open>api.get\<close>: the number of the request that the caller waits for; \<open>params\<close> is its JSON text.\<close>

definition api_get :: "jstring \<Rightarrow> jstring \<Rightarrow> ApiRequestConfig \<Rightarrow> page \<Rightarrow> nat \<times> page" where
  "api_get url params cfg p =
     (let n = length (api_requests p); s = sessionSID (store p); k = request_key s url params
      in if disableDuplicate cfg then (n, start_request cfg None s p)
         else case map_of (inFlightGet p) k of
                Some i \<Rightarrow> (i, p)
              | None \<Rightarrow> (n, (start_request cfg (Some k) s p)\<lparr>inFlightGet := (k, n) # inFlightGet p\<rparr>))"

text \<open>A request settles, and \<open>finally\<close> takes it out of the requests that can be joined.\<close>

definition settle_request :: "nat \<Rightarrow> api_pc \<Rightarrow> page \<Rightarrow> page" where
  "settle_request i pc p =
     (let q = update_request i (\<lambda>r. r\<lparr>api_pc := pc\<rparr>) p
      in case get_key (api_requests p ! i) of
           Some k \<Rightarrow> q\<lparr>inFlightGet := filter (\<lambda>e. fst e \<noteq> k) (inFlightGet q)\<rparr>
         | None \<Rightarrow> q)"

definition redirectToSignIn :: "page \<Rightarrow> page" where
  "redirectToSignIn p = (if pathname p \<noteq> js ''/sign-in'' then p\<lparr>pathname := js ''/sign-in''\<rparr> else p)"

section \<open>Responses\<close>

definition business_error :: "(message_key \<Rightarrow> jsval) \<Rightarrow> jsval \<Rightarrow> jsval" where
  "business_error t d = (case getServerErrorMessageKey d of
     Some k \<Rightarrow> t k
   | None \<Rightarrow> js_or (get_prop d (js ''message'')) (t (KeyText (js ''Request failed''))))"

definition on_success :: "(message_key \<Rightarrow> jsval) \<Rightarrow> nat \<Rightarrow> jsval \<Rightarrow> page \<Rightarrow> page" where
  "on_success t i d p =
     (let cfg = config (api_requests p ! i); success = get_prop d (js ''success'');
          rotated = (if acceptAuthRotation cfg \<and> success = JBool True
                     then applyAuthRotation (get_prop d (js ''data'')) (store p) else Inr (store p))
      in case rotated of
           Inl err \<Rightarrow> settle_request i (Rejected (RotationError err)) p
         | Inr c \<Rightarrow>
             let p = p\<lparr>store := c\<rparr>;
                 p = (if \<not> skipBusinessError cfg \<and> success = JBool False
                      then toast_error (business_error t d) p else p)
             in settle_request i (Fulfilled d) p)"

definition session_expired :: "(message_key \<Rightarrow> jsval) \<Rightarrow> ApiRequestConfig \<Rightarrow> page \<Rightarrow> page" where
  "session_expired t cfg p =
     (if skipErrorHandler cfg then p else toast_error (t (KeyText (js ''Session expired!''))) p)"

definition error_message :: "(message_key \<Rightarrow> jsval) \<Rightarrow> jsval \<Rightarrow> jsval" where
  "error_message t err = (case getServerErrorMessageKey err of
     Some k \<Rightarrow> t k
   | None \<Rightarrow> js_or (get_prop (get_prop (get_prop err (js ''response'')) (js ''data'')) (js ''message''))
       (js_or (get_prop err (js ''message'')) (t (KeyText (js ''Request failed'')))))"

definition refused :: "jsval \<Rightarrow> bool" where
  "refused err \<longleftrightarrow> get_prop (get_prop err (js ''response'')) (js ''status'') = JNum (Num 401)"

definition on_failure :: "(message_key \<Rightarrow> jsval) \<Rightarrow> nat \<Rightarrow> jsval \<Rightarrow> page \<Rightarrow> page" where
  "on_failure t i err p =
     (let cfg = config (api_requests p ! i)
      in if refused err then
           if \<not> skipAuthRefresh cfg \<and> \<not> authRetry cfg
           then update_request i (\<lambda>r. r\<lparr>config := cfg\<lparr>authRetry := True\<rparr>, api_pc := AwaitingRefresh\<rparr>) p
           else if authRetry cfg
           then settle_request i (Rejected (TransportError err))
                  (redirectToSignIn (session_expired t cfg (p\<lparr>store := clearAuthentication False Complete (store p)\<rparr>)))
           else settle_request i (Rejected (TransportError err)) (session_expired t cfg p)
         else settle_request i (Rejected (TransportError err))
                (if skipErrorHandler cfg then p else toast_error (error_message t err) p))"

text \<open>The refresh that the request waits for ends, with an outcome or with an exception.\<close>

definition on_refreshed :: "(message_key \<Rightarrow> jsval) \<Rightarrow> nat \<Rightarrow> jsval \<Rightarrow> jsval + RefreshOutcome \<Rightarrow> page \<Rightarrow> page" where
  "on_refreshed t i err result p =
     (let cfg = config (api_requests p ! i); failed = settle_request i (Rejected (TransportError err))
      in case result of
           Inl e \<Rightarrow> settle_request i (Rejected (RefreshRejected e)) p
         | Inr (Authenticated b) \<Rightarrow> update_request i (transmit (store p)) p
         | Inr Anonymous \<Rightarrow> failed (redirectToSignIn (session_expired t cfg p))
         | Inr (OutOfSync s) \<Rightarrow> failed (redirectToSignIn (session_expired t cfg p))
         | Inr (TransientError e) \<Rightarrow> failed p)"

section \<open>All interleavings\<close>

text \<open>The rest of the program may change the store and the page at any time.\<close>

inductive page_step :: "page \<Rightarrow> page \<Rightarrow> bool" where
  step_get: "page_step p (snd (api_get url params cfg p))"
| step_request: "page_step p (start_request cfg None s p)"
| step_success: "i < length (api_requests p) \<Longrightarrow> api_pc (api_requests p ! i) = InTransit \<Longrightarrow>
    page_step p (on_success t i d p)"
| step_failure: "i < length (api_requests p) \<Longrightarrow> api_pc (api_requests p ! i) = InTransit \<Longrightarrow>
    page_step p (on_failure t i err p)"
| step_refreshed: "i < length (api_requests p) \<Longrightarrow> api_pc (api_requests p ! i) = AwaitingRefresh \<Longrightarrow>
    page_step p (on_refreshed t i err result p)"
| step_environment: "page_step p (p\<lparr>store := c, pathname := here\<rparr>)"

fun settled_pc :: "api_pc \<Rightarrow> bool" where
  "settled_pc InTransit = False"
| "settled_pc AwaitingRefresh = False"
| "settled_pc (Fulfilled d) = True"
| "settled_pc (Rejected e) = True"

text \<open>The key of a request begins with its session.\<close>

definition key_ok :: "jstring option \<Rightarrow> jstring \<Rightarrow> bool" where
  "key_ok k s = (case k of Some k \<Rightarrow> js_starts_with k (s @ [58]) | None \<Rightarrow> True)"

definition request_inv :: "api_request \<Rightarrow> bool" where
  "request_inv r \<longleftrightarrow> length (transmissions r) \<le> 2 \<and>
     (api_pc r = AwaitingRefresh \<longrightarrow> length (transmissions r) = 1 \<and> authRetry (config r)) \<and>
     (api_pc r = InTransit \<and> \<not> authRetry (config r) \<longrightarrow> length (transmissions r) = 1) \<and>
     key_ok (get_key r) (get_session r)"

definition page_ok :: "page \<Rightarrow> bool" where
  "page_ok p \<longleftrightarrow> list_all request_inv (api_requests p) \<and> distinct (map fst (inFlightGet p)) \<and>
     (\<forall>k i. (k, i) \<in> set (inFlightGet p) \<longrightarrow> i < length (api_requests p) \<and>
        get_key (api_requests p ! i) = Some k \<and> \<not> settled_pc (api_pc (api_requests p ! i)))"

lemma page_simps [simp]:
  "api_requests (toast_error v p) = api_requests p" "inFlightGet (toast_error v p) = inFlightGet p"
  "api_requests (redirectToSignIn p) = api_requests p" "inFlightGet (redirectToSignIn p) = inFlightGet p"
  "api_requests (session_expired t cfg p) = api_requests p" "inFlightGet (session_expired t cfg p) = inFlightGet p"
  "store (toast_error v p) = store p" "store (redirectToSignIn p) = store p" "store (session_expired t cfg p) = store p"
  by (simp_all add: toast_error_def redirectToSignIn_def session_expired_def)

lemma transmit_simps [simp]:
  "api_pc (transmit c r) = InTransit" "get_key (transmit c r) = get_key r" "get_session (transmit c r) = get_session r"
  "length (transmissions (transmit c r)) = Suc (length (transmissions r))"
  "authRetry (config (transmit c r)) = authRetry (config r)"
  by (simp_all add: transmit_def request_interceptor_def Let_def split: option.splits)

lemma page_ok_cong:
  "api_requests q = api_requests p \<Longrightarrow> inFlightGet q = inFlightGet p \<Longrightarrow> page_ok q = page_ok p"
  by (simp add: page_ok_def)

lemma ok_update:
  assumes "page_ok p" "i < length (api_requests p)" "request_inv (f (api_requests p ! i))"
    "get_key (f (api_requests p ! i)) = get_key (api_requests p ! i)" "\<not> settled_pc (api_pc (f (api_requests p ! i)))"
  shows "page_ok (update_request i f p)"
  using assms
  by (auto simp: page_ok_def update_request_def nth_list_update list_all_length)

lemma ok_settle:
  assumes "page_ok p" "i < length (api_requests p)" "settled_pc pc"
  shows "page_ok (settle_request i pc p)"
proof -
  let ?q = "settle_request i pc p"
  have r: "api_requests ?q = (api_requests p)[i := (api_requests p ! i)\<lparr>api_pc := pc\<rparr>]"
    by (simp add: settle_request_def update_request_def Let_def split: option.splits)
  have f: "set (inFlightGet ?q) \<subseteq> set (inFlightGet p)" "distinct (map fst (inFlightGet ?q))"
    "(k, i) \<notin> set (inFlightGet ?q)" for k
    using assms(1,2) by (auto simp: page_ok_def settle_request_def update_request_def Let_def distinct_map_filter
        split: option.splits)
  have v: "request_inv ((api_requests p ! i)\<lparr>api_pc := pc\<rparr>)"
    using assms by (auto simp: page_ok_def list_all_length request_inv_def)
  have "list_all request_inv (api_requests ?q)"
    using assms(1,2) v by (auto simp: r page_ok_def list_all_length nth_list_update)
  moreover have "j < length (api_requests ?q) \<and> get_key (api_requests ?q ! j) = Some k \<and>
      \<not> settled_pc (api_pc (api_requests ?q ! j))" if "(k, j) \<in> set (inFlightGet ?q)" for k j
  proof -
    have "j \<noteq> i" using that f(3) by auto
    moreover have "(k, j) \<in> set (inFlightGet p)" using that f(1) by auto
    ultimately show ?thesis using assms(1) by (auto simp: r page_ok_def)
  qed
  ultimately show ?thesis using f(2) by (simp add: page_ok_def)
qed

lemma ok_start:
  assumes "page_ok p" "key_ok k s"
  shows "page_ok (start_request cfg k s p)"
proof -
  have "request_inv (transmit (store p) \<lparr>config = cfg, api_pc = InTransit, transmissions = [], get_key = k, get_session = s\<rparr>)"
    using assms(2) by (simp add: request_inv_def)
  then show ?thesis using assms(1) by (fastforce simp: page_ok_def start_request_def nth_append)
qed

lemma ok_get: "page_ok p \<Longrightarrow> page_ok (snd (api_get url params cfg p))"
proof -
  assume ok: "page_ok p"
  define s where "s = sessionSID (store p)"
  define k where "k = request_key s url params"
  let ?q = "start_request cfg (Some k) s p"
  have q: "page_ok ?q" by (rule ok_start [OF ok]) (simp add: k_def key_ok_def request_key_def js_starts_with_prefix)
  have u: "inFlightGet ?q = inFlightGet p" "length (api_requests ?q) = Suc (length (api_requests p))"
    "get_key (api_requests ?q ! length (api_requests p)) = Some k"
    "api_pc (api_requests ?q ! length (api_requests p)) = InTransit"
    by (simp_all add: start_request_def)
  have "page_ok (?q\<lparr>inFlightGet := (k, length (api_requests p)) # inFlightGet p\<rparr>)" if "map_of (inFlightGet p) k = None"
    using q u that by (auto simp: page_ok_def map_of_eq_None_iff)
  then show ?thesis
    using ok ok_start [OF ok, of None s cfg]
    by (simp add: api_get_def key_ok_def Let_def s_def [symmetric] k_def [symmetric] split: option.splits)
qed

lemma ok_success: "page_ok p \<Longrightarrow> i < length (api_requests p) \<Longrightarrow> page_ok (on_success t i d p)"
  by (simp add: on_success_def Let_def ok_settle page_ok_cong [of "toast_error _ _"] page_ok_cong [of "p\<lparr>store := _\<rparr>" p]
      split: sum.splits)

lemma ok_failure:
  assumes "page_ok p" "i < length (api_requests p)" "api_pc (api_requests p ! i) = InTransit"
  shows "page_ok (on_failure t i err p)"
proof -
  have "request_inv (api_requests p ! i)" using assms by (simp add: page_ok_def list_all_length)
  then have "\<not> authRetry (config (api_requests p ! i)) \<Longrightarrow> page_ok (update_request i (\<lambda>r. r\<lparr>config :=
      (config (api_requests p ! i))\<lparr>authRetry := True\<rparr>, api_pc := AwaitingRefresh\<rparr>) p)"
    using assms by (intro ok_update) (auto simp: request_inv_def)
  moreover have "page_ok (settle_request i (Rejected e) q)"
    if "api_requests q = api_requests p" "inFlightGet q = inFlightGet p" for e q
    using that assms page_ok_cong [of q p] by (intro ok_settle) simp_all
  ultimately show ?thesis by (simp add: on_failure_def Let_def)
qed

lemma ok_refreshed:
  assumes "page_ok p" "i < length (api_requests p)" "api_pc (api_requests p ! i) = AwaitingRefresh"
    and "authRetry (config (api_requests p ! i))"
  shows "page_ok (on_refreshed t i err result p)"
proof -
  have "request_inv (api_requests p ! i)" using assms by (simp add: page_ok_def list_all_length)
  then have "page_ok (update_request i (transmit (store p)) p)"
    using assms by (intro ok_update) (auto simp: request_inv_def)
  moreover have "page_ok (settle_request i (Rejected e) q)"
    if "api_requests q = api_requests p" "inFlightGet q = inFlightGet p" for e q
    using that assms page_ok_cong [of q p] by (intro ok_settle) simp_all
  ultimately show ?thesis by (simp add: on_refreshed_def Let_def split: sum.splits RefreshOutcome.splits)
qed

lemma page_step_ok:
  assumes "page_ok p" "page_step p q"
  shows "page_ok q"
  using assms(2)
proof cases
  case (step_refreshed i t err result)
  then have "authRetry (config (api_requests p ! i))"
    using assms(1) by (auto simp: page_ok_def list_all_length request_inv_def)
  with step_refreshed show ?thesis using assms(1) by (simp add: ok_refreshed)
next
  case (step_environment c here)
  then show ?thesis using assms(1) page_ok_cong [of q p] by simp
qed (use assms(1) in \<open>simp_all add: ok_get ok_success ok_failure ok_start key_ok_def\<close>)

interpretation hc: transition_system page_step page_ok
  by unfold_locales (rule page_step_ok)

lemma reachable_page_ok: "reach page_step (initial_page c here) p \<Longrightarrow> page_ok p"
  by (erule hc.reach_good) (simp add: page_ok_def initial_page_def)

section \<open>Properties\<close>

text \<open>
  C9. A request is transmitted at most twice, whatever the server and the session do: the retry
  after a refused token never starts another retry.
\<close>

theorem request_transmitted_at_most_twice:
  assumes "reach page_step (initial_page c here) p" "i < length (api_requests p)"
  shows "length (transmissions (api_requests p ! i)) \<le> 2"
  using reachable_page_ok [OF assms(1)] assms(2) by (auto simp: page_ok_def list_all_length request_inv_def)

text \<open>
  C10. GET requests are joined within one session only: a caller is given an earlier request only
  while that request is unsettled and if it was started for the caller's session.  Session
  identifiers are assumed to contain no colon, the separator of the key.
\<close>

theorem joined_get_same_session:
  assumes "reach page_step (initial_page c here) p" "api_get url params cfg p = (i, q)"
    and "i < length (api_requests p)"
    and "58 \<notin> set (sessionSID (store p))" "58 \<notin> set (get_session (api_requests p ! i))"
  shows "q = p \<and> \<not> settled_pc (api_pc (api_requests p ! i)) \<and>
    get_session (api_requests p ! i) = sessionSID (store p)"
proof -
  define s where "s = sessionSID (store p)"
  define k where "k = request_key s url params"
  have m: "map_of (inFlightGet p) k = Some i" "q = p"
    using assms(2,3) by (auto simp: api_get_def Let_def s_def [symmetric] k_def [symmetric] split: if_splits option.splits)
  have ok: "page_ok p" using assms(1) by (rule reachable_page_ok)
  have r: "get_key (api_requests p ! i) = Some k" "\<not> settled_pc (api_pc (api_requests p ! i))"
    using ok map_of_SomeD [OF m(1)] by (auto simp: page_ok_def)
  have "request_inv (api_requests p ! i)" using ok assms(3) by (simp add: page_ok_def list_all_length)
  then obtain rest where "s @ [58] @ url @ [63] @ params = get_session (api_requests p ! i) @ [58] @ rest"
    by (auto simp: request_inv_def key_ok_def r(1) k_def request_key_def js_starts_with_prefix)
  then have "takeWhile (\<lambda>x. x \<noteq> 58) (s @ 58 # url @ [63] @ params) =
      takeWhile (\<lambda>x. x \<noteq> 58) (get_session (api_requests p ! i) @ 58 # rest)" by simp
  moreover have "takeWhile (\<lambda>x. x \<noteq> 58) (a @ 58 # b) = a" if "58 \<notin> set a" for a b :: jstring
    using that by (induction a) auto
  ultimately show ?thesis using assms(4,5) m(2) r(2) by (simp add: s_def)
qed

text \<open>
  A refused request is repeated with the new token exactly once, and a second refusal ends the
  session: the store is empty, the page is at the sign-in and the caller gets the error.
\<close>

theorem refused_request:
  assumes "i < length (api_requests p)" "refused err" "\<not> skipAuthRefresh (config (api_requests p ! i))"
    and "\<not> authRetry (config (api_requests p ! i))" "accessToken (auth c) = Some tok" "tok \<noteq> []"
  shows "let p1 = on_failure t i err p;
             p2 = on_refreshed t i err (Inr (Authenticated b)) (p1\<lparr>store := c\<rparr>);
             p3 = on_failure t i err p2
         in api_pc (api_requests p1 ! i) = AwaitingRefresh \<and>
            transmissions (api_requests p2 ! i) = transmissions (api_requests p ! i) @ [Some (js ''Bearer '' @ tok)] \<and>
            api_pc (api_requests p2 ! i) = InTransit \<and>
            api_pc (api_requests p3 ! i) = Rejected (TransportError err) \<and>
            user (auth (store p3)) = None \<and> accessToken (auth (store p3)) = None \<and> pathname p3 = js ''/sign-in''"
proof -
  define r where "r = api_requests p ! i"
  define p1 where "p1 = on_failure t i err p"
  define p2 where "p2 = on_refreshed t i err (Inr (Authenticated b)) (p1\<lparr>store := c\<rparr>)"
  define r1 where "r1 = r\<lparr>config := (config r)\<lparr>authRetry := True\<rparr>, api_pc := AwaitingRefresh\<rparr>"
  have p1: "p1 = p\<lparr>api_requests := (api_requests p)[i := r1]\<rparr>"
    using assms(2-4) by (simp add: p1_def on_failure_def update_request_def r_def r1_def)
  have p2: "p2 = p\<lparr>store := c, api_requests := (api_requests p)[i := transmit c r1]\<rparr>"
    using assms(1) by (simp add: p2_def p1 on_refreshed_def update_request_def)
  have h: "transmissions (transmit c r1) = transmissions r @ [Some (js ''Bearer '' @ tok)]"
    using assms(5,6) by (simp add: transmit_def request_interceptor_def r1_def)
  have a: "authRetry (config (transmit c r1))" by (simp add: r1_def)
  have p3: "on_failure t i err p2 = settle_request i (Rejected (TransportError err)) (redirectToSignIn
      (session_expired t (config (transmit c r1)) (p2\<lparr>store := clearAuthentication False Complete c\<rparr>)))"
    using assms(1,2) a by (simp add: on_failure_def p2)
  have q: "api_requests (settle_request i pc q) = (api_requests q)[i := (api_requests q ! i)\<lparr>api_pc := pc\<rparr>]"
    "store (settle_request i pc q) = store q" "pathname (settle_request i pc q) = pathname q" for pc q
    by (simp_all add: settle_request_def update_request_def Let_def split: option.splits)
  have s: "pathname (redirectToSignIn q) = js ''/sign-in''" for q by (simp add: redirectToSignIn_def)
  show ?thesis
    unfolding Let_def p1_def [symmetric] p2_def [symmetric] p3
    using assms(1) h by (simp add: p1 p2 q s r1_def r_def clearAuthentication_def reset_auth_def Let_def split: option.splits)
qed

text \<open>A page with one GET request, and the error of a refused token.\<close>

definition sample_config :: ApiRequestConfig where
  "sample_config = \<lparr>skipBusinessError = False, skipErrorHandler = False, disableDuplicate = False,
     skipAuthRefresh = False, authRetry = False, acceptAuthRotation = False, Authorization = None\<rparr>"

definition sample_client :: client where
  "sample_client = \<lparr>auth = initial_auth\<lparr>accessToken := Some (js ''t'')\<rparr>, authEpoch = 0, outbox = []\<rparr>"

definition sample_page :: page where
  "sample_page = snd (api_get (js ''/u'') (js ''{}'') sample_config (initial_page sample_client (js ''/'')))"

definition sample_refusal :: jsval where
  "sample_refusal = JObj [(js ''response'', JObj [(js ''status'', JNum (Num 401))])]"

lemma sample_reach: "reach page_step (initial_page sample_client (js ''/'')) sample_page"
  unfolding sample_page_def by (rule reach_one) (rule step_get)

lemma sample_page_eq:
  "api_requests sample_page = [transmit sample_client \<lparr>config = sample_config, api_pc = InTransit,
     transmissions = [], get_key = Some (request_key (js ''anonymous'') (js ''/u'') (js ''{}'')), get_session = js ''anonymous''\<rparr>]"
  "inFlightGet sample_page = [(request_key (js ''anonymous'') (js ''/u'') (js ''{}''), 0)]"
  "store sample_page = sample_client"
  by (simp_all add: sample_page_def api_get_def sample_config_def initial_page_def start_request_def Let_def
      sessionSID_def session_sid_def sample_client_def initial_auth_def)

lemma sample_refused: "refused sample_refusal"
  by (simp add: refused_def sample_refusal_def js_Cons)

lemma sample_sid: "sessionSID sample_client = js ''anonymous''"
  by (simp add: sessionSID_def session_sid_def sample_client_def initial_auth_def)

theorem request_transmitted_at_most_twice_witness:
  "length (transmissions (api_requests sample_page ! 0)) \<le> 2"
  by (rule request_transmitted_at_most_twice [OF sample_reach]) (simp add: sample_page_eq)

theorem joined_get_same_session_witness:
  "api_get (js ''/u'') (js ''{}'') sample_config sample_page = (0, sample_page) \<and>
   get_session (api_requests sample_page ! 0) = sessionSID (store sample_page)"
proof -
  have g: "api_get (js ''/u'') (js ''{}'') sample_config sample_page = (0, sample_page)"
    by (simp add: api_get_def Let_def sample_page_eq sample_sid) (simp add: sample_config_def)
  have "get_session (api_requests sample_page ! 0) = sessionSID (store sample_page)"
    using joined_get_same_session [OF sample_reach g] by (simp add: sample_page_eq sample_sid js_Cons)
  with g show ?thesis by simp
qed

theorem refused_request_witness:
  "pathname (on_failure (\<lambda>_. JNull) 0 sample_refusal (on_refreshed (\<lambda>_. JNull) 0 sample_refusal
     (Inr (Authenticated (as_bundle JNull)))
     ((on_failure (\<lambda>_. JNull) 0 sample_refusal sample_page)\<lparr>store := sample_client\<rparr>))) = js ''/sign-in''"
  using refused_request [of 0 sample_page sample_refusal sample_client "js ''t''" "\<lambda>_. JNull" "as_bundle JNull"]
  by (simp add: Let_def sample_page_eq sample_refused)
    (simp add: transmit_def request_interceptor_def sample_client_def sample_config_def js_Cons)

end
