(* ===== verification/Nav_Access.thy ===== *)
theory Nav_Access
  imports Auth_Store
begin

text \<open>
  What a visitor may see and an administrator may do: the header and sidebar modules
  (\<open>lib/nav-modules.ts\<close>), roles (\<open>lib/roles.ts\<close>) and administrator permissions
  (\<open>lib/admin-permissions.ts\<close>).  The local storage holds the cached status under one key; the
  answer of the status request is an argument, \<open>None\<close> for an exception.
\<close>

section \<open>Header modules\<close>

record ModuleAccess =
  enabled :: bool
  requireAuth :: bool

datatype HeaderNavModule = Rankings | Pricing

datatype nav_value = NavBool bool | NavAccess ModuleAccess

type_synonym HeaderNavModules = "(jstring \<times> nav_value) list"

definition open_access :: ModuleAccess where
  "open_access = \<lparr>enabled = True, requireAuth = False\<rparr>"

definition DEFAULT_HEADER_NAV_MODULES :: HeaderNavModules where
  "DEFAULT_HEADER_NAV_MODULES =
     [(js ''home'', NavBool True), (js ''console'', NavBool True), (js ''pricing'', NavAccess open_access),
      (js ''rankings'', NavAccess open_access), (js ''docs'', NavBool True), (js ''about'', NavBool True)]"

text \<open>
  \<open>toLowerCase\<close>, on the letters that matter: no character outside this range becomes a letter of
  \<open>true\<close> or \<open>false\<close>.
\<close>

definition lower_ascii :: "jstring \<Rightarrow> jstring" where
  "lower_ascii s = map (\<lambda>c. if 65 \<le> c \<and> c \<le> 90 then c + 32 else c) s"

definition parseHeaderNavBoolean :: "jsval \<Rightarrow> bool \<Rightarrow> bool" where
  "parseHeaderNavBoolean raw fallback = (case raw of
     JBool b \<Rightarrow> b
   | JNum x \<Rightarrow> (if x = Num 1 then True else if x = Num 0 then False else fallback)
   | JStr s \<Rightarrow>
       (let normalized = lower_ascii (js_trim s)
        in if normalized = js ''true'' \<or> normalized = js ''1'' then True
           else if normalized = js ''false'' \<or> normalized = js ''0'' then False
           else fallback)
   | _ \<Rightarrow> fallback)"

definition is_scalar :: "jsval \<Rightarrow> bool" where
  "is_scalar v \<longleftrightarrow> is_boolean v \<or> is_number v \<or> is_string v"

definition parseAccess :: "jsval \<Rightarrow> ModuleAccess \<Rightarrow> ModuleAccess" where
  "parseAccess raw fallback =
     (if is_scalar raw
      then \<lparr>enabled = parseHeaderNavBoolean raw (enabled fallback), requireAuth = requireAuth fallback\<rparr>
      else if truthy raw \<and> is_object raw
      then \<lparr>enabled = parseHeaderNavBoolean (get_prop raw (js ''enabled'')) (enabled fallback),
            requireAuth = parseHeaderNavBoolean (get_prop raw (js ''requireAuth'')) (requireAuth fallback)\<rparr>
      else fallback)"

definition parseHeaderNavRecord :: "jsval \<Rightarrow> jsval option" where
  "parseHeaderNavRecord raw =
     (if \<not> truthy raw \<or> js_trim (js_String raw) = [] then None
      else if is_object raw then Some raw
      else json_parse (js_String raw))"

text \<open>\<open>Object.entries\<close>: arrays and strings have their indices as keys, other scalars have none.\<close>

definition entries_of :: "jsval \<Rightarrow> (jstring \<times> jsval) list" where
  "entries_of v = (case v of
     JObj es \<Rightarrow> es
   | JArr xs \<Rightarrow> zip (map show_nat [0..<length xs]) xs
   | JStr s \<Rightarrow> zip (map show_nat [0..<length s]) (map (\<lambda>c. JStr [c]) s)
   | _ \<Rightarrow> [])"

text \<open>
  One entry of the loop.  Assigning a truth value to \<open>__proto__\<close> has no effect; members that every
  object inherits are no truth values, so they count like absent ones.
\<close>

definition nav_entry :: "HeaderNavModules \<Rightarrow> jstring \<times> jsval \<Rightarrow> HeaderNavModules" where
  "nav_entry result e =
     (let k = fst e; v = snd e
      in if k = js ''pricing'' \<or> k = js ''rankings'' then
           (case map_of result k of
              Some (NavAccess a) \<Rightarrow> AList.update k (NavAccess (parseAccess v a)) result
            | _ \<Rightarrow> result)
         else let fallback = (case map_of result k of Some (NavBool b) \<Rightarrow> Some b | _ \<Rightarrow> None)
              in if (fallback \<noteq> None \<or> is_scalar v) \<and> k \<noteq> js ''__proto__''
                 then AList.update k (NavBool (parseHeaderNavBoolean v (case fallback of Some b \<Rightarrow> b | None \<Rightarrow> True))) result
                 else result)"

definition parseHeaderNavModules :: "jsval \<Rightarrow> HeaderNavModules" where
  "parseHeaderNavModules raw = (case parseHeaderNavRecord raw of
     None \<Rightarrow> DEFAULT_HEADER_NAV_MODULES
   | Some parsed \<Rightarrow> if \<not> truthy parsed then DEFAULT_HEADER_NAV_MODULES
       else foldl nav_entry DEFAULT_HEADER_NAV_MODULES (entries_of parsed))"

definition parseHeaderNavModulesFromStatus :: "jsval \<Rightarrow> HeaderNavModules" where
  "parseHeaderNavModulesFromStatus status = parseHeaderNavModules (get_prop status (js ''HeaderNavModules''))"

definition getCachedStatus :: "(jstring \<Rightarrow> jstring option) \<Rightarrow> jsval" where
  "getCachedStatus st = (case st (js ''status'') of
     None \<Rightarrow> JNull
   | Some raw \<Rightarrow> if raw = [] then JNull else (case json_parse raw of Some v \<Rightarrow> v | None \<Rightarrow> JNull))"

definition cacheStatus ::
  "(jstring \<Rightarrow> bool) \<Rightarrow> jsval \<Rightarrow> (jstring \<Rightarrow> jstring option) \<Rightarrow> jstring \<Rightarrow> jstring option" where
  "cacheStatus accepts status st =
     (if \<not> truthy status then st
      else case json_stringify 0 status of
             Some s \<Rightarrow> (if accepts s then st(js ''status'' \<mapsto> s) else st)
           | None \<Rightarrow> st)"

definition nav_module_name :: "HeaderNavModule \<Rightarrow> jstring" where
  "nav_module_name m = (case m of Rankings \<Rightarrow> js ''rankings'' | Pricing \<Rightarrow> js ''pricing'')"

definition getModuleAccessFromStatus :: "jsval \<Rightarrow> HeaderNavModule \<Rightarrow> ModuleAccess" where
  "getModuleAccessFromStatus status m =
     (case map_of (parseHeaderNavModulesFromStatus status) (nav_module_name m) of
        Some (NavAccess a) \<Rightarrow> a
      | _ \<Rightarrow> open_access)"

definition getModuleAccess :: "HeaderNavModule \<Rightarrow> (jstring \<Rightarrow> jstring option) \<Rightarrow> ModuleAccess" where
  "getModuleAccess m st = getModuleAccessFromStatus (getCachedStatus st) m"

definition getFreshModuleAccess :: "(jstring \<Rightarrow> bool) \<Rightarrow> HeaderNavModule \<Rightarrow> jsval option \<Rightarrow>
    (jstring \<Rightarrow> jstring option) \<Rightarrow> ModuleAccess \<times> (jstring \<Rightarrow> jstring option)" where
  "getFreshModuleAccess accepts m answer st = (case answer of
     Some status \<Rightarrow> (getModuleAccessFromStatus status m, cacheStatus accepts status st)
   | None \<Rightarrow> (\<lparr>enabled = False, requireAuth = True\<rparr>, st))"

section \<open>Sidebar modules\<close>

definition isSidebarModuleEnabled :: "jstring \<Rightarrow> jstring \<Rightarrow> (jstring \<Rightarrow> jstring option) \<Rightarrow> bool" where
  "isSidebarModuleEnabled sect m st =
     (let status = getCachedStatus st; raw = get_prop status (js ''SidebarModulesAdmin'')
      in if \<not> truthy status then True
         else if \<not> truthy raw \<or> js_trim (js_String raw) = [] then True
         else case json_parse (js_String raw) of
                None \<Rightarrow> True
              | Some parsed \<Rightarrow>
                  let sectionConfig = get_prop parsed sect
                  in if \<not> truthy sectionConfig then True
                     else if get_prop sectionConfig (js ''enabled'') = JBool False then False
                     else if get_prop sectionConfig m = JBool False then False
                     else True)"

section \<open>Roles and administrator permissions\<close>

definition ROLE_GUEST :: rat where "ROLE_GUEST = 0"
definition ROLE_USER :: rat where "ROLE_USER = 1"
definition ROLE_ADMIN :: rat where "ROLE_ADMIN = 10"
definition ROLE_SUPER_ADMIN :: rat where "ROLE_SUPER_ADMIN = 100"

definition getRoleLabelKey :: "rat option \<Rightarrow> jstring" where
  "getRoleLabelKey role =
     (if role = Some ROLE_SUPER_ADMIN then js ''Super Admin''
      else if role = Some ROLE_ADMIN then js ''Admin''
      else if role = Some ROLE_USER then js ''User''
      else js ''Guest'')"

type_synonym AdminPermissionMatrix = "(jstring \<times> (jstring \<times> bool) list) list"

record PermissionActionDef =
  action :: jstring
  action_label_key :: jstring
  description_key :: jstring

record PermissionResourceDef =
  resource :: jstring
  resource_label_key :: jstring
  actions :: "PermissionActionDef list"

record PermissionRoleDef =
  role_key :: jstring
  role_name :: jstring
  built_in :: bool
  superuser :: bool
  grants :: AdminPermissionMatrix

record PermissionCatalog =
  resources :: "PermissionResourceDef list"
  roles :: "PermissionRoleDef list"

definition ADMIN_ROLE_KEY :: jstring where "ADMIN_ROLE_KEY = js ''admin''"

definition hasPermission :: "jsval \<Rightarrow> jstring \<Rightarrow> jstring \<Rightarrow> bool" where
  "hasPermission u res act =
     (if \<not> truthy u then False
      else if get_prop u (js ''role'') = JNum (Num ROLE_SUPER_ADMIN) then True
      else get_prop (get_prop (get_prop (get_prop u (js ''permissions'')) (js ''admin_permissions'')) res) act = JBool True)"

definition roleGrants :: "PermissionCatalog \<Rightarrow> jstring \<Rightarrow> AdminPermissionMatrix" where
  "roleGrants catalog k = (case find (\<lambda>r. role_key r = k) (roles catalog) of Some r \<Rightarrow> grants r | None \<Rightarrow> [])"

text \<open>\<open>m?.[r]?.[a]\<close>\<close>

definition granted :: "AdminPermissionMatrix \<Rightarrow> jstring \<Rightarrow> jstring \<Rightarrow> bool option" where
  "granted m r a = Option.bind (map_of m r) (\<lambda>acts. map_of acts a)"

definition permission_value :: "AdminPermissionMatrix option \<Rightarrow> AdminPermissionMatrix \<Rightarrow> jstring \<Rightarrow> jstring \<Rightarrow> bool" where
  "permission_value value baseline r a =
     (case Option.bind value (\<lambda>m. granted m r a) of Some b \<Rightarrow> b
      | None \<Rightarrow> (case granted baseline r a of Some b \<Rightarrow> b | None \<Rightarrow> False))"

definition normalizeAdminPermissions :: "AdminPermissionMatrix option \<Rightarrow> PermissionCatalog \<Rightarrow> AdminPermissionMatrix" where
  "normalizeAdminPermissions value catalog =
     (let baseline = roleGrants catalog ADMIN_ROLE_KEY
      in foldl (\<lambda>normalized res. AList.update (resource res)
           (foldl (\<lambda>acts act. AList.update (action act) (permission_value value baseline (resource res) (action act)) acts)
              [] (actions res)) normalized) [] (resources catalog))"

section \<open>Permissions: the matrix\<close>

text \<open>A loop that assigns a value computed from its key.\<close>

lemma map_of_foldl_update:
  "map_of (foldl (\<lambda>m x. AList.update (f x) (g x) m) m0 xs) k =
     (case find (\<lambda>x. f x = k) (rev xs) of Some x \<Rightarrow> Some (g x) | None \<Rightarrow> map_of m0 k)"
proof (induction xs rule: rev_induct)
  case (snoc x xs)
  then show ?case by (simp add: update_conv')
qed simp

definition catalog_resource :: "PermissionCatalog \<Rightarrow> jstring \<Rightarrow> PermissionResourceDef option" where
  "catalog_resource catalog r = find (\<lambda>res. resource res = r) (rev (resources catalog))"

lemma find_key: "find (\<lambda>x. f x = k) xs = Some y \<Longrightarrow> f y = k"
  by (induction xs) (auto split: if_splits)

lemma find_is_None: "find p xs = None \<longleftrightarrow> \<not> list_ex p xs"
  by (induction xs) auto

text \<open>The row of a resource in the completed matrix.\<close>

definition normalized_row ::
  "AdminPermissionMatrix option \<Rightarrow> PermissionCatalog \<Rightarrow> PermissionResourceDef \<Rightarrow> (jstring \<times> bool) list" where
  "normalized_row value catalog res = foldl (\<lambda>acts act. AList.update (action act)
     (permission_value value (roleGrants catalog ADMIN_ROLE_KEY) (resource res) (action act)) acts) [] (actions res)"

lemma normalize_rows:
  "normalizeAdminPermissions value catalog =
     foldl (\<lambda>m res. AList.update (resource res) (normalized_row value catalog res) m) [] (resources catalog)"
  unfolding normalizeAdminPermissions_def normalized_row_def Let_def ..

lemma map_of_normalize:
  "map_of (normalizeAdminPermissions value catalog) r = map_option (normalized_row value catalog) (catalog_resource catalog r)"
  unfolding normalize_rows map_of_foldl_update catalog_resource_def by (simp split: option.split)

lemma map_of_row:
  "map_of (normalized_row value catalog res) a =
     (if list_ex (\<lambda>act. action act = a) (actions res)
      then Some (permission_value value (roleGrants catalog ADMIN_ROLE_KEY) (resource res) a) else None)"
proof -
  have e: "list_ex (\<lambda>act. action act = a) (actions res) \<longleftrightarrow> find (\<lambda>act. action act = a) (rev (actions res)) \<noteq> None"
    unfolding find_is_None by simp
  show ?thesis
  proof (cases "find (\<lambda>act. action act = a) (rev (actions res))")
    case None
    then show ?thesis unfolding normalized_row_def map_of_foldl_update e by simp
  next
    case (Some act)
    then have "action act = a" by (rule find_key)
    with Some show ?thesis unfolding normalized_row_def map_of_foldl_update e by simp
  qed
qed

lemma granted_normalize:
  "granted (normalizeAdminPermissions value catalog) r a = (case catalog_resource catalog r of
     None \<Rightarrow> None
   | Some res \<Rightarrow> if list_ex (\<lambda>act. action act = a) (actions res)
       then Some (permission_value value (roleGrants catalog ADMIN_ROLE_KEY) r a) else None)"
proof (cases "catalog_resource catalog r")
  case (Some res)
  then have "resource res = r" unfolding catalog_resource_def by (rule find_key)
  with Some show ?thesis by (simp add: granted_def map_of_normalize map_of_row)
qed (simp add: granted_def map_of_normalize)

lemma permission_value_normalize:
  "granted (normalizeAdminPermissions value catalog) r a = Some b \<Longrightarrow>
   permission_value (Some (normalizeAdminPermissions value catalog)) base r a = b"
  by (simp add: permission_value_def)

text \<open>
  C33. The permission editor gets a complete matrix: every action of the catalog has the value that
  was stored for it; without one, it is granted exactly if the administrator's baseline grants it; nothing outside of the
  catalog is in it; and completing a completed matrix changes no permission.
\<close>

theorem normalizeAdminPermissions_complete:
  "granted (normalizeAdminPermissions value catalog) r a = (case catalog_resource catalog r of
     None \<Rightarrow> None
   | Some res \<Rightarrow> if list_ex (\<lambda>act. action act = a) (actions res)
       then Some (case Option.bind value (\<lambda>stored. granted stored r a) of
           Some b \<Rightarrow> b | None \<Rightarrow> granted (roleGrants catalog (js ''admin'')) r a = Some True)
       else None) \<and>
   granted (normalizeAdminPermissions (Some (normalizeAdminPermissions value catalog)) catalog) r a =
   granted (normalizeAdminPermissions value catalog) r a"
proof
  have v: "permission_value value (roleGrants catalog ADMIN_ROLE_KEY) r a = (case Option.bind value (\<lambda>stored. granted stored r a) of
      Some b \<Rightarrow> b | None \<Rightarrow> granted (roleGrants catalog (js ''admin'')) r a = Some True)"
    by (simp add: permission_value_def ADMIN_ROLE_KEY_def split: option.split)
  show "granted (normalizeAdminPermissions value catalog) r a = (case catalog_resource catalog r of
     None \<Rightarrow> None
   | Some res \<Rightarrow> if list_ex (\<lambda>act. action act = a) (actions res)
       then Some (case Option.bind value (\<lambda>stored. granted stored r a) of
           Some b \<Rightarrow> b | None \<Rightarrow> granted (roleGrants catalog (js ''admin'')) r a = Some True)
       else None)"
    unfolding granted_normalize v ..
  define n where "n = normalizeAdminPermissions value catalog"
  have g: "granted n r a = (case catalog_resource catalog r of
     None \<Rightarrow> None
   | Some res \<Rightarrow> if list_ex (\<lambda>act. action act = a) (actions res)
       then Some (permission_value value (roleGrants catalog ADMIN_ROLE_KEY) r a) else None)"
    unfolding n_def by (rule granted_normalize)
  have p: "permission_value (Some n) base r a = b" if "granted n r a = Some b" for base b
    using that unfolding n_def by (rule permission_value_normalize)
  have "granted (normalizeAdminPermissions (Some n) catalog) r a = granted n r a"
  proof (cases "granted n r a")
    case None
    then show ?thesis using g unfolding granted_normalize by (auto split: option.splits if_splits)
  next
    case (Some b)
    then show ?thesis using g p [OF Some] unfolding granted_normalize by (auto split: option.splits if_splits)
  qed
  then show "granted (normalizeAdminPermissions (Some (normalizeAdminPermissions value catalog)) catalog) r a =
      granted (normalizeAdminPermissions value catalog) r a" unfolding n_def .
qed

section \<open>Header modules: reading a configuration back\<close>

definition access_json :: "ModuleAccess \<Rightarrow> jsval" where
  "access_json a = JObj [(js ''enabled'', JBool (enabled a)), (js ''requireAuth'', JBool (requireAuth a))]"

definition nav_json :: "nav_value \<Rightarrow> jsval" where
  "nav_json v = (case v of NavBool b \<Rightarrow> JBool b | NavAccess a \<Rightarrow> access_json a)"

definition modules_json :: "HeaderNavModules \<Rightarrow> jsval" where
  "modules_json ms = JObj (map (\<lambda>(k, v). (k, nav_json v)) ms)"

definition has_access :: "jstring \<Rightarrow> bool" where
  "has_access k \<longleftrightarrow> k = js ''pricing'' \<or> k = js ''rankings''"

text \<open>The two modules with access rules have them, the others are switches.\<close>

definition well_formed_entry :: "jstring \<times> nav_value \<Rightarrow> bool" where
  "well_formed_entry e \<longleftrightarrow> fst e \<noteq> js ''__proto__'' \<and>
     (case snd e of NavAccess a \<Rightarrow> has_access (fst e) | NavBool b \<Rightarrow> \<not> has_access (fst e))"

definition well_formed_nav :: "HeaderNavModules \<Rightarrow> bool" where
  "well_formed_nav ms \<longleftrightarrow> list_all well_formed_entry ms \<and>
     map_of ms (js ''pricing'') \<noteq> None \<and> map_of ms (js ''rankings'') \<noteq> None"

lemma parseAccess_json [simp]: "parseAccess (access_json a) d = a"
  by (simp add: parseAccess_def access_json_def is_scalar_def is_boolean_def is_number_def is_string_def
      parseHeaderNavBoolean_def js_Cons)

lemma well_formed_update:
  "well_formed_nav ms \<Longrightarrow> well_formed_entry (k, v) \<Longrightarrow> well_formed_nav (AList.update k v ms)"
proof -
  assume w: "well_formed_nav ms" "well_formed_entry (k, v)"
  have "set (AList.update k v ms) \<subseteq> insert (k, v) (set ms)" by (induction ms) auto
  then show ?thesis using w by (auto simp: well_formed_nav_def list_all_iff update_conv')
qed

lemma nav_entry_json:
  assumes "well_formed_nav r" "well_formed_entry (k, v)"
  shows "nav_entry r (k, nav_json v) = AList.update k v r"
proof (cases v)
  case (NavBool b)
  then have "\<not> has_access k" "k \<noteq> js ''__proto__''" using assms(2) by (simp_all add: well_formed_entry_def)
  then show ?thesis
    by (simp add: NavBool nav_entry_def nav_json_def has_access_def is_scalar_def parseHeaderNavBoolean_def)
next
  case (NavAccess a)
  then have h: "has_access k" using assms(2) by (simp add: well_formed_entry_def)
  then obtain x where x: "map_of r k = Some x" using assms(1) by (auto simp: well_formed_nav_def has_access_def)
  then have "well_formed_entry (k, x)" using assms(1) map_of_SomeD [OF x] by (auto simp: well_formed_nav_def list_all_iff)
  then obtain a' where "x = NavAccess a'" using h by (cases x) (auto simp: well_formed_entry_def)
  with x h show ?thesis by (auto simp: NavAccess nav_entry_def nav_json_def has_access_def)
qed

lemma nav_entries_json:
  "well_formed_nav r \<Longrightarrow> list_all well_formed_entry ms \<Longrightarrow>
   foldl nav_entry r (map (\<lambda>(k, v). (k, nav_json v)) ms) = foldl (\<lambda>m e. AList.update (fst e) (snd e) m) r ms"
proof (induction ms arbitrary: r)
  case (Cons e ms)
  obtain k v where e: "e = (k, v)" by (cases e)
  have w: "well_formed_entry (k, v)" using Cons.prems(2) e by simp
  show ?case
    using Cons.IH [OF well_formed_update [OF Cons.prems(1) w]] Cons.prems nav_entry_json [OF Cons.prems(1) w]
    by (simp add: e)
qed simp

lemma default_well_formed: "well_formed_nav DEFAULT_HEADER_NAV_MODULES"
  by (simp add: well_formed_nav_def well_formed_entry_def has_access_def DEFAULT_HEADER_NAV_MODULES_def js_Cons)

lemma find_rev_distinct: "distinct (map fst ms) \<Longrightarrow>
  (case find (\<lambda>e. fst e = k) (rev ms) of Some e \<Rightarrow> Some (snd e) | None \<Rightarrow> d) =
  (case map_of ms k of Some v \<Rightarrow> Some v | None \<Rightarrow> d)"
proof -
  assume d: "distinct (map fst ms)"
  have f: "map_option snd (find (\<lambda>e. fst e = k) xs) = map_of xs k" for xs :: "('a \<times> 'b) list"
    by (induction xs) auto
  have "map_of (rev ms) = map_of ms" using d by (simp add: map_of_inject_set rev_map [symmetric])
  then have "map_option snd (find (\<lambda>e. fst e = k) (rev ms)) = map_of ms k" using f by simp
  then show ?thesis by (auto split: option.splits)
qed

lemma not_blank: "c \<in> set s \<Longrightarrow> \<not> is_ws c \<Longrightarrow> js_trim s \<noteq> []"
proof
  assume "c \<in> set s" "\<not> is_ws c" "js_trim s = []"
  moreover obtain a b where "s = a @ js_trim s @ b" "\<forall>c \<in> set a \<union> set b. is_ws c" using js_trim_decomp by blast
  ultimately show False by (metis Un_iff append_Nil set_append)
qed

lemma object_text_brace: "json_stringify g (JObj es) = Some s \<Longrightarrow> 123 \<in> set s"
  by (auto simp: json_stringify_def json_wrap_def Let_def split: if_splits option.splits)

text \<open>
  A saved header configuration is read back: from the JSON text of a configuration every module
  gets the configured value, and a module the configuration does not name its default.
\<close>

theorem parseHeaderNavModules_json:
  assumes "list_all well_formed_entry ms" "distinct (map fst ms)" "canonical (modules_json ms)"
    and "json_stringify g (modules_json ms) = Some s"
  shows "map_of (parseHeaderNavModules (JStr s)) k =
    (case map_of ms k of Some v \<Rightarrow> Some v | None \<Rightarrow> map_of DEFAULT_HEADER_NAV_MODULES k)"
proof -
  have p: "json_parse s = Some (modules_json ms)"
    using json_parse_stringify [OF assms(3), of g] assms(4) by auto
  have "123 \<in> set s" using assms(4) unfolding modules_json_def by (rule object_text_brace)
  then have b: "js_trim s \<noteq> []" by (rule not_blank) (simp add: is_ws_def)
  then have "s \<noteq> []" by auto
  with b p have "parseHeaderNavRecord (JStr s) = Some (modules_json ms)"
    by (simp add: parseHeaderNavRecord_def is_object_def)
  then have "parseHeaderNavModules (JStr s) =
      foldl (\<lambda>m e. AList.update (fst e) (snd e) m) DEFAULT_HEADER_NAV_MODULES ms"
    by (simp add: parseHeaderNavModules_def modules_json_def entries_of_def
        nav_entries_json [OF default_well_formed assms(1)])
  then show ?thesis
    by (simp only: map_of_foldl_update find_rev_distinct [OF assms(2)])
qed

text \<open>
  A sidebar module is hidden exactly if the cached administrator settings are readable and
  switch off the module or its whole section; anything missing or unreadable shows it.
\<close>

theorem isSidebarModuleEnabled_iff:
  "\<not> isSidebarModuleEnabled sect m st \<longleftrightarrow>
   (let raw = get_prop (getCachedStatus st) (js ''SidebarModulesAdmin'')
    in truthy raw \<and> js_trim (js_String raw) \<noteq> [] \<and>
       (\<exists>parsed. json_parse (js_String raw) = Some parsed \<and>
          (get_prop (get_prop parsed sect) (js ''enabled'') = JBool False \<or>
           get_prop (get_prop parsed sect) m = JBool False)))"
proof -
  have f: "\<not> truthy v \<Longrightarrow> get_prop v k = JUndef" for v k by (cases v) (simp_all add: get_prop_def)
  have g: "get_prop v k = JBool b \<Longrightarrow> truthy v" for v k b using f [of v k] by (cases "truthy v") simp_all
  define status where "status = getCachedStatus st"
  define raw where "raw = get_prop status (js ''SidebarModulesAdmin'')"
  have s: "truthy raw \<Longrightarrow> truthy status" using f [of status "js ''SidebarModulesAdmin''"] by (cases "truthy status") (simp_all add: raw_def)
  show ?thesis
    unfolding isSidebarModuleEnabled_def Let_def status_def [symmetric] raw_def [symmetric]
    using s by (auto simp: f dest: g split: option.splits)
qed

text \<open>A configuration with one switch, written as JSON.\<close>

theorem parseHeaderNavModules_json_witness:
  "map_of (parseHeaderNavModules (JStr (the (json_stringify 0 (modules_json [(js ''docs'', NavBool False)]))))) (js ''docs'')
     = Some (NavBool False)"
proof -
  have c: "canonical (modules_json [(js ''docs'', NavBool False)])"
    by (simp add: modules_json_def nav_json_def obj_of_def own_order_def is_index_key_def js_Cons is_digit_def unit16_def)
  obtain s where s: "json_stringify 0 (modules_json [(js ''docs'', NavBool False)]) = Some s"
    using json_parse_stringify [OF c] by blast
  have "map_of (parseHeaderNavModules (JStr s)) (js ''docs'') = Some (NavBool False)"
    using parseHeaderNavModules_json [OF _ _ c s, of "js ''docs''"]
    by (simp add: well_formed_entry_def has_access_def js_Cons)
  then show ?thesis by (simp add: s)
qed

end
