(* ===== verification/Ratio_Sync.thy ===== *)
theory Ratio_Sync
  imports JS_Value
begin

text \<open>
  Choosing prices from upstream channels (\<open>upstream-ratio-sync-helpers.ts\<close> of the system settings):
  which fields of a model can be chosen for a source, and the bookkeeping of what was chosen.
  Objects are association lists with the names of models, fields and sources as keys; a value is a
  number or a text, \<open>JUndef\<close> where there is none.
\<close>

section \<open>Fields\<close>

type_synonym RatioType = jstring

record RatioDifferenceEntry =
  current_value :: jsval
  upstreams :: "(jstring \<times> jsval) list"
  confidence :: "(jstring \<times> bool) list"

type_synonym ratio_types = "(RatioType \<times> RatioDifferenceEntry) list"

type_synonym resolution = "(RatioType \<times> jsval) list"

type_synonym ResolutionsMap = "(jstring \<times> resolution) list"

record ResolutionSelection =
  sel_model :: jstring
  sel_ratioType :: RatioType
  sel_value :: jsval
  sourceName :: jstring

record ResolutionRemoval =
  rem_model :: jstring
  rem_ratioType :: RatioType

definition RATIO_SYNC_FIELDS :: "RatioType list" where
  "RATIO_SYNC_FIELDS = map js [''model_ratio'', ''completion_ratio'', ''cache_ratio'', ''create_cache_ratio'',
     ''image_ratio'', ''audio_ratio'', ''audio_completion_ratio'']"

definition SYNC_FIELD_ORDER :: "RatioType list" where
  "SYNC_FIELD_ORDER = RATIO_SYNC_FIELDS @ map js [''model_price'', ''billing_mode'', ''billing_expr'']"

definition getOrderedRatioTypes :: "ratio_types \<Rightarrow> jstring option \<Rightarrow> RatioType list" where
  "getOrderedRatioTypes rts flt =
     (let ks = map fst rts;
          ordered = filter (\<lambda>f. f \<in> set ks) SYNC_FIELD_ORDER @ filter (\<lambda>f. f \<notin> set SYNC_FIELD_ORDER) ks
      in case flt of
           None \<Rightarrow> ordered
         | Some f \<Rightarrow> if f = [] \<or> f = js ''__all__'' then ordered else filter (\<lambda>x. x = f) ordered)"

text \<open>\<open>ratioTypes[field]?.upstreams?.[source]\<close>\<close>

definition upstream_value :: "ratio_types \<Rightarrow> RatioType \<Rightarrow> jstring \<Rightarrow> jsval" where
  "upstream_value rts f src = (case map_of rts f of
     None \<Rightarrow> JUndef
   | Some e \<Rightarrow> (case map_of (upstreams e) src of None \<Rightarrow> JUndef | Some v \<Rightarrow> v))"

definition isSelectableUpstreamValue :: "jsval \<Rightarrow> bool" where
  "isSelectableUpstreamValue v \<longleftrightarrow> v \<noteq> JNull \<and> v \<noteq> JUndef \<and> v \<noteq> JStr (js ''same'')"

definition getPreferredSyncField :: "ratio_types \<Rightarrow> RatioType \<Rightarrow> jstring \<Rightarrow> RatioType" where
  "getPreferredSyncField rts rt src =
     (let exprValue = upstream_value rts (js ''billing_expr'') src
      in if rt \<noteq> js ''billing_expr'' \<and> exprValue \<noteq> JNull \<and> exprValue \<noteq> JUndef \<and> exprValue \<noteq> JStr (js ''same'')
         then js ''billing_expr'' else rt)"

definition getVisibleRatioTypesForSource :: "ratio_types \<Rightarrow> jstring \<Rightarrow> jstring option \<Rightarrow> RatioType list" where
  "getVisibleRatioTypesForSource rts src flt =
     filter (\<lambda>rt. getPreferredSyncField rts rt src = rt) (getOrderedRatioTypes rts flt)"

definition getAlignedRatioTypes :: "ratio_types \<Rightarrow> jstring list \<Rightarrow> jstring option \<Rightarrow> RatioType list" where
  "getAlignedRatioTypes rts srcs flt =
     (let ordered = getOrderedRatioTypes rts flt
      in if srcs = [] then ordered
         else let visible = concat (map (\<lambda>src. getVisibleRatioTypesForSource rts src flt) srcs)
              in filter (\<lambda>rt. rt \<in> set visible) ordered)"

datatype category = CPrice | CRatio | CTiered

definition getBillingCategory :: "RatioType \<Rightarrow> category" where
  "getBillingCategory rt =
     (if rt = js ''model_price'' then CPrice
      else if rt = js ''billing_mode'' \<or> rt = js ''billing_expr'' then CTiered
      else CRatio)"

text \<open>The labels of the fields, by field.\<close>

definition RATIO_TYPE_OPTIONS :: "(RatioType \<times> jstring) list" where
  "RATIO_TYPE_OPTIONS =
     [(js ''model_ratio'', js ''Model ratio''),
      (js ''completion_ratio'', js ''Completion ratio''),
      (js ''cache_ratio'', js ''Cache ratio''),
      (js ''create_cache_ratio'', js ''Create cache ratio''),
      (js ''image_ratio'', js ''Image ratio''),
      (js ''audio_ratio'', js ''Audio ratio''),
      (js ''audio_completion_ratio'', js ''Audio completion ratio''),
      (js ''model_price'', js ''Fixed price''),
      (js ''billing_expr'', js ''Expression billing'')]"

definition getSyncFieldLabel :: "jstring \<Rightarrow> (jstring \<Rightarrow> jstring) \<Rightarrow> jstring" where
  "getSyncFieldLabel rt t = (case map_of RATIO_TYPE_OPTIONS rt of Some l \<Rightarrow> t l | None \<Rightarrow> rt)"

definition OFFICIAL_CHANNEL_NAME :: jstring where
  "OFFICIAL_CHANNEL_NAME = [23448, 26041, 20493, 29575, 39044, 35774]"

definition MODELS_DEV_PRESET_NAME :: jstring where
  "MODELS_DEV_PRESET_NAME = js ''models.dev '' @ [20215, 26684, 39044, 35774]"

definition getUpstreamDisplayName :: "jstring \<Rightarrow> jstring" where
  "getUpstreamDisplayName src =
     (if src = OFFICIAL_CHANNEL_NAME @ js ''(-100)'' then OFFICIAL_CHANNEL_NAME
      else if src = MODELS_DEV_PRESET_NAME @ js ''(-101)'' then MODELS_DEV_PRESET_NAME
      else src)"

section \<open>Selections\<close>

definition model_diffs :: "(jstring \<times> ratio_types) list \<Rightarrow> jstring \<Rightarrow> ratio_types" where
  "model_diffs differences m = (case map_of differences m of Some d \<Rightarrow> d | None \<Rightarrow> [])"

definition preferred_value :: "ratio_types \<Rightarrow> RatioType \<Rightarrow> ResolutionSelection \<Rightarrow> jsval" where
  "preferred_value md preferredType s =
     (if preferredType = sel_ratioType s then sel_value s
      else let v = upstream_value md preferredType (sourceName s)
           in if v = JUndef \<or> v = JNull then sel_value s else v)"

definition resolveResolutionSelection ::
  "(jstring \<times> ratio_types) list \<Rightarrow> ResolutionSelection \<Rightarrow> ResolutionSelection" where
  "resolveResolutionSelection differences s =
     (let md = model_diffs differences (sel_model s);
          preferredType = getPreferredSyncField md (sel_ratioType s) (sourceName s)
      in s\<lparr>sel_ratioType := preferredType, sel_value := preferred_value md preferredType s\<rparr>)"

text \<open>The key of a selection, \<open>model\u0000field\<close>, and the pruning of contradicting selections.\<close>

definition conflicting :: "category \<Rightarrow> RatioType \<Rightarrow> bool" where
  "conflicting cat rt \<longleftrightarrow> cat \<noteq> CTiered \<and> getBillingCategory rt \<noteq> CTiered \<and> getBillingCategory rt \<noteq> cat"

definition effective_step :: "(jstring \<times> ratio_types) list \<Rightarrow> (jstring \<times> ResolutionSelection) list \<Rightarrow>
    ResolutionSelection \<Rightarrow> (jstring \<times> ResolutionSelection) list" where
  "effective_step differences eff s =
     (let r = resolveResolutionSelection differences s; cat = getBillingCategory (sel_ratioType r);
          kept = filter (\<lambda>e. \<not> (sel_model (snd e) = sel_model r \<and> conflicting cat (sel_ratioType (snd e)))) eff
      in AList.update (sel_model r @ [0] @ sel_ratioType r) r kept)"

definition getEffectiveResolutionSelections ::
  "(jstring \<times> ratio_types) list \<Rightarrow> ResolutionSelection list \<Rightarrow> ResolutionSelection list" where
  "getEffectiveResolutionSelections differences ss = map snd (foldl (effective_step differences) [] ss)"

text \<open>What one selection does to the resolution of its model.\<close>

definition draft_step :: "(jstring \<times> ratio_types) list \<Rightarrow> ResolutionSelection \<Rightarrow> resolution \<Rightarrow> resolution" where
  "draft_step differences s d =
     (let md = model_diffs differences (sel_model s);
          finalType = getPreferredSyncField md (sel_ratioType s) (sourceName s);
          finalValue = preferred_value md finalType s;
          cat = getBillingCategory finalType;
          d1 = AList.update finalType finalValue (filter (\<lambda>e. \<not> conflicting cat (fst e)) d);
          modeVal = upstream_value md (js ''billing_mode'') (sourceName s);
          exprVal = upstream_value md (js ''billing_expr'') (sourceName s)
      in if cat = CTiered \<and> map_of differences (sel_model s) \<noteq> None
         then let d2 = (if isSelectableUpstreamValue modeVal then AList.update (js ''billing_mode'') modeVal d1
                        else if finalType = js ''billing_expr''
                        then AList.update (js ''billing_mode'') (JStr (js ''tiered_expr'')) d1 else d1)
              in if isSelectableUpstreamValue exprVal then AList.update (js ''billing_expr'') exprVal d2 else d2
         else d1)"

definition resolution_of :: "ResolutionsMap \<Rightarrow> jstring \<Rightarrow> resolution" where
  "resolution_of rs m = (case map_of rs m of Some d \<Rightarrow> d | None \<Rightarrow> [])"

definition getDraftModelResolution :: "ResolutionsMap \<Rightarrow> ResolutionsMap \<Rightarrow> jstring \<Rightarrow> resolution" where
  "getDraftModelResolution drafts rs m = (case map_of drafts m of Some d \<Rightarrow> d | None \<Rightarrow> resolution_of rs m)"

definition applyResolutionSelectionToDraft ::
  "ResolutionsMap \<Rightarrow> (jstring \<times> ratio_types) list \<Rightarrow> ResolutionsMap \<Rightarrow> ResolutionSelection \<Rightarrow> ResolutionsMap" where
  "applyResolutionSelectionToDraft rs differences drafts s =
     AList.update (sel_model s) (draft_step differences s (getDraftModelResolution drafts rs (sel_model s))) drafts"

text \<open>\<open>next[model] = draft\<close>, or the removal of an empty one.\<close>

definition put_draft :: "ResolutionsMap \<Rightarrow> jstring \<times> resolution \<Rightarrow> ResolutionsMap" where
  "put_draft nxt e = (if snd e = [] then AList.delete (fst e) nxt else AList.update (fst e) (snd e) nxt)"

definition applyResolutionSelections ::
  "ResolutionsMap \<Rightarrow> (jstring \<times> ratio_types) list \<Rightarrow> ResolutionSelection list \<Rightarrow> ResolutionsMap" where
  "applyResolutionSelections rs differences ss =
     (if ss = [] then rs
      else foldl put_draft rs (foldl (applyResolutionSelectionToDraft rs differences) [] ss))"

definition applyResolutionSelection ::
  "ResolutionsMap \<Rightarrow> (jstring \<times> ratio_types) list \<Rightarrow> ResolutionSelection \<Rightarrow> ResolutionsMap" where
  "applyResolutionSelection rs differences s = applyResolutionSelections rs differences [s]"

section \<open>Removals\<close>

definition remove_field :: "resolution \<Rightarrow> RatioType \<Rightarrow> resolution" where
  "remove_field d rt =
     (let d1 = AList.delete rt d;
          d2 = (if rt = js ''billing_expr'' then AList.delete (js ''billing_mode'') d1 else d1)
      in if rt = js ''billing_mode'' then AList.delete (js ''billing_expr'') d2 else d2)"

definition plan_add :: "(jstring \<times> RatioType list) list \<Rightarrow> ResolutionRemoval \<Rightarrow> (jstring \<times> RatioType list) list" where
  "plan_add plan r = AList.update (rem_model r)
     (set_add (case map_of plan (rem_model r) of Some rts \<Rightarrow> rts | None \<Rightarrow> []) (rem_ratioType r)) plan"

definition applyResolutionRemovalPlan :: "ResolutionsMap \<Rightarrow> (jstring \<times> RatioType list) list \<Rightarrow> ResolutionsMap" where
  "applyResolutionRemovalPlan rs plan =
     foldl (\<lambda>nxt e. case map_of rs (fst e) of
        None \<Rightarrow> nxt
      | Some current \<Rightarrow> put_draft nxt (fst e, foldl remove_field current (snd e))) rs plan"

definition applyResolutionRemovals :: "ResolutionsMap \<Rightarrow> ResolutionRemoval list \<Rightarrow> ResolutionsMap" where
  "applyResolutionRemovals rs removals =
     (if removals = [] then rs else applyResolutionRemovalPlan rs (foldl plan_add [] removals))"

definition deleteResolutionField :: "ResolutionsMap \<Rightarrow> jstring \<Rightarrow> RatioType \<Rightarrow> ResolutionsMap" where
  "deleteResolutionField rs m rt = applyResolutionRemovals rs [\<lparr>rem_model = m, rem_ratioType = rt\<rparr>]"

section \<open>Selections: one draft per model\<close>

lemma draft_step_nonempty: "draft_step differences s d \<noteq> []"
proof -
  have u: "AList.update k v xs \<noteq> []" for k v and xs :: resolution by (cases xs) auto
  show ?thesis by (simp add: draft_step_def Let_def u)
qed

definition selections_on :: "jstring \<Rightarrow> ResolutionSelection list \<Rightarrow> ResolutionSelection list" where
  "selections_on m ss = filter (\<lambda>s. sel_model s = m) ss"

lemma selections_on_simps [simp]:
  "selections_on m [] = []"
  "selections_on m (ss @ [s]) = selections_on m ss @ (if sel_model s = m then [s] else [])"
  by (simp_all add: selections_on_def)

definition draft_run :: "(jstring \<times> ratio_types) list \<Rightarrow> resolution \<Rightarrow> ResolutionSelection list \<Rightarrow> resolution" where
  "draft_run differences d ss = foldl (\<lambda>d s. draft_step differences s d) d ss"

lemma drafts_of:
  "map_of (foldl (applyResolutionSelectionToDraft rs differences) [] ss) m =
     (if selections_on m ss = [] then None
      else Some (draft_run differences (resolution_of rs m) (selections_on m ss)))"
proof (induction ss rule: rev_induct)
  case (snoc s ss)
  then show ?case
    by (auto simp: applyResolutionSelectionToDraft_def getDraftModelResolution_def update_conv' draft_run_def)
qed simp

lemma drafts_distinct: "distinct (map fst (foldl (applyResolutionSelectionToDraft rs differences) [] ss))"
  by (induction ss rule: rev_induct) (simp_all add: applyResolutionSelectionToDraft_def distinct_update)

lemma put_drafts:
  "distinct (map fst ds) \<Longrightarrow> resolution_of (foldl put_draft nxt ds) m =
     (case map_of ds m of Some d \<Rightarrow> d | None \<Rightarrow> resolution_of nxt m)"
proof (induction ds arbitrary: nxt)
  case (Cons e ds)
  have "resolution_of (put_draft nxt e) m = (if fst e = m then snd e else resolution_of nxt m)"
    by (auto simp: put_draft_def resolution_of_def update_conv' delete_conv' map_of_delete)
  moreover have "fst e = m \<Longrightarrow> map_of ds m = None" using Cons.prems by (auto simp: map_of_eq_None_iff)
  ultimately show ?case using Cons by (cases e) (auto split: option.splits)
qed simp

lemma resolution_apply:
  "resolution_of (applyResolutionSelections rs differences ss) m =
     draft_run differences (resolution_of rs m) (selections_on m ss)"
  by (simp add: applyResolutionSelections_def put_drafts [OF drafts_distinct] drafts_of draft_run_def)

text \<open>
  C24. Choosing many values at once is choosing them one after the other: for every model both ways
  leave the same resolution.
\<close>

theorem applyResolutionSelections_sequential:
  "resolution_of (applyResolutionSelections rs differences ss) m =
   resolution_of (foldl (\<lambda>r s. applyResolutionSelection r differences s) rs ss) m"
proof (induction ss rule: rev_induct)
  case (snoc s ss)
  then show ?case
    by (simp add: applyResolutionSelection_def resolution_apply draft_run_def selections_on_def)
qed (simp add: resolution_apply draft_run_def)

section \<open>No model has a price and a ratio\<close>

text \<open>Beside a fixed price stand at most the two fields of billing by expression.\<close>

definition consistent :: "resolution \<Rightarrow> bool" where
  "consistent d \<longleftrightarrow> (js ''model_price'' \<in> fst ` set d \<longrightarrow>
     fst ` set d \<subseteq> {js ''model_price'', js ''billing_mode'', js ''billing_expr''})"

text \<open>The same by pairs of fields and their categories.\<close>

definition compatible :: "RatioType \<Rightarrow> RatioType \<Rightarrow> bool" where
  "compatible a b \<longleftrightarrow> getBillingCategory a = CTiered \<or> getBillingCategory b = CTiered \<or>
     getBillingCategory a = getBillingCategory b"

lemma price_compatible: "compatible (js ''model_price'') b \<longleftrightarrow> b \<in> {js ''model_price'', js ''billing_mode'', js ''billing_expr''}"
  by (auto simp: compatible_def getBillingCategory_def)

lemma compatible_other: "a \<noteq> js ''model_price'' \<Longrightarrow> b \<noteq> js ''model_price'' \<Longrightarrow> compatible a b"
  by (simp add: compatible_def getBillingCategory_def)

lemma compatible_commute: "compatible a b \<longleftrightarrow> compatible b a"
  unfolding compatible_def by metis

lemma consistent_iff: "consistent d \<longleftrightarrow> (\<forall>a \<in> fst ` set d. \<forall>b \<in> fst ` set d. compatible a b)"
proof
  assume c: "consistent d"
  show "\<forall>a \<in> fst ` set d. \<forall>b \<in> fst ` set d. compatible a b"
  proof (intro ballI)
    fix a b assume ab: "a \<in> fst ` set d" "b \<in> fst ` set d"
    consider "a = js ''model_price''" | "b = js ''model_price''" | "a \<noteq> js ''model_price''" "b \<noteq> js ''model_price''" by blast
    then show "compatible a b"
    proof cases
      case 1
      then show ?thesis using c ab unfolding 1 price_compatible consistent_def by blast
    next
      case 2
      then show ?thesis using c ab unfolding 2 compatible_commute [of a] price_compatible consistent_def by blast
    qed (rule compatible_other)
  qed
next
  assume "\<forall>a \<in> fst ` set d. \<forall>b \<in> fst ` set d. compatible a b"
  then show "consistent d" unfolding consistent_def subset_iff price_compatible [symmetric] by blast
qed

lemma compatible_sym: "compatible a b \<Longrightarrow> compatible b a"
  unfolding compatible_def by metis

lemma compatible_refl: "compatible a a"
  unfolding compatible_def by simp

lemma keys_update: "fst ` set (AList.update k v d) = insert k (fst ` set d)"
  by (induction d) auto

lemma consistent_update:
  assumes "consistent d" "\<forall>a \<in> fst ` set d. compatible a k"
  shows "consistent (AList.update k v d)"
  unfolding consistent_iff keys_update
proof (intro ballI)
  fix a b
  assume "a \<in> insert k (fst ` set d)" "b \<in> insert k (fst ` set d)"
  moreover have "a \<in> fst ` set d \<Longrightarrow> b \<in> fst ` set d \<Longrightarrow> compatible a b"
    using assms(1) unfolding consistent_iff by blast
  moreover have "b \<in> fst ` set d \<Longrightarrow> compatible k b" using assms(2) by (blast intro: compatible_sym)
  ultimately show "compatible a b" using assms(2) compatible_refl by (metis insertE)
qed

lemma tiered_compatible:
  "compatible a (js ''billing_mode'')" "compatible a (js ''billing_expr'')"
  by (simp_all add: compatible_def getBillingCategory_def js_Cons)

lemma consistent_tiered:
  "consistent d \<Longrightarrow> consistent (AList.update (js ''billing_mode'') v d)"
  "consistent d \<Longrightarrow> consistent (AList.update (js ''billing_expr'') v d)"
  by (simp_all add: consistent_update tiered_compatible)

lemma consistent_draft_step: "consistent d \<Longrightarrow> consistent (draft_step differences s d)"
proof -
  assume d: "consistent d"
  have "consistent (AList.update k v (filter (\<lambda>e. \<not> conflicting (getBillingCategory k) (fst e)) d))" for k v
  proof (rule consistent_update)
    show "consistent (filter (\<lambda>e. \<not> conflicting (getBillingCategory k) (fst e)) d)"
    proof -
      have "fst ` set (filter (\<lambda>e. \<not> conflicting (getBillingCategory k) (fst e)) d) \<subseteq> fst ` set d" by auto
      then show ?thesis using d unfolding consistent_iff by blast
    qed
  qed (auto simp: conflicting_def compatible_def)
  note pruned = this
  define k where "k = getPreferredSyncField (model_diffs differences (sel_model s)) (sel_ratioType s) (sourceName s)"
  define d1 where "d1 = AList.update k (preferred_value (model_diffs differences (sel_model s)) k s)
    (filter (\<lambda>e. \<not> conflicting (getBillingCategory k) (fst e)) d)"
  have "consistent d1" unfolding d1_def by (rule pruned)
  then show ?thesis
    unfolding draft_step_def Let_def k_def [symmetric] d1_def [symmetric] by (simp add: consistent_tiered)
qed

lemma consistent_run: "consistent d \<Longrightarrow> consistent (draft_run differences d ss)"
  unfolding draft_run_def by (induction ss arbitrary: d) (simp_all add: consistent_draft_step)

lemma draft_step_chosen:
  "getPreferredSyncField (model_diffs differences (sel_model s)) (sel_ratioType s) (sourceName s) \<in> fst ` set (draft_step differences s d)"
  by (simp add: draft_step_def Let_def keys_update)

lemma apply_last:
  "sel_model s = m \<Longrightarrow> resolution_of (applyResolutionSelections rs differences (ss @ [s])) m =
     draft_step differences s (resolution_of (applyResolutionSelections rs differences ss) m)"
  by (simp add: resolution_apply draft_run_def)

text \<open>
  C25. Selections never mix two ways of billing: if beside a fixed price of a model no ratio was
  chosen, none is after any selections, in any order and from any sources.  And the field of the last
  selection, or the billing expression that its source has instead, is chosen.
\<close>

theorem applyResolutionSelections_consistent:
  assumes "consistent (resolution_of rs m)"
  shows "consistent (resolution_of (applyResolutionSelections rs differences (ss @ [s])) m) \<and>
    (sel_model s = m \<longrightarrow> getPreferredSyncField (model_diffs differences m) (sel_ratioType s) (sourceName s) \<in>
      fst ` set (resolution_of (applyResolutionSelections rs differences (ss @ [s])) m))"
proof (intro conjI impI)
  show "consistent (resolution_of (applyResolutionSelections rs differences (ss @ [s])) m)"
    by (simp only: resolution_apply consistent_run [OF assms])
  assume m: "sel_model s = m"
  show "getPreferredSyncField (model_diffs differences m) (sel_ratioType s) (sourceName s) \<in>
      fst ` set (resolution_of (applyResolutionSelections rs differences (ss @ [s])) m)"
    unfolding apply_last [OF m] using draft_step_chosen [of differences s] by (simp only: m)
qed

section \<open>Removals\<close>

text \<open>Removing one half of a billing expression removes the other.\<close>

definition removes :: "RatioType \<Rightarrow> RatioType \<Rightarrow> bool" where
  "removes rt f \<longleftrightarrow> f = rt \<or> (rt = js ''billing_expr'' \<and> f = js ''billing_mode'') \<or>
     (rt = js ''billing_mode'' \<and> f = js ''billing_expr'')"

lemma map_of_remove_field: "map_of (remove_field d rt) f = (if removes rt f then None else map_of d f)"
  by (auto simp: remove_field_def removes_def Let_def delete_conv' map_of_delete)

lemma map_of_remove_fields:
  "map_of (foldl remove_field d rts) f = (if list_ex (\<lambda>rt. removes rt f) rts then None else map_of d f)"
  by (induction rts arbitrary: d) (auto simp: map_of_remove_field)

lemma plan_of:
  "list_ex (\<lambda>rt. p rt) (case map_of (foldl plan_add [] rems) m of Some rts \<Rightarrow> rts | None \<Rightarrow> []) =
   list_ex (\<lambda>r. rem_model r = m \<and> p (rem_ratioType r)) rems"
proof (induction rems rule: rev_induct)
  case (snoc r rems)
  have a: "list_ex p (set_add xs x) \<longleftrightarrow> list_ex p xs \<or> p x" for xs x
    by (auto simp: set_add_def list_ex_iff)
  show ?case
  proof (cases "rem_model r = m")
    case True
    then show ?thesis using snoc by (simp add: plan_add_def update_conv' a)
  next
    case False
    then show ?thesis using snoc by (simp add: plan_add_def update_conv')
  qed
qed simp

lemma plan_distinct: "distinct (map fst (foldl plan_add [] rems))"
  by (induction rems rule: rev_induct) (simp_all add: plan_add_def distinct_update)

lemma resolution_plan:
  "distinct (map fst plan) \<Longrightarrow>
   resolution_of (foldl (\<lambda>nxt e. case map_of rs (fst e) of None \<Rightarrow> nxt
      | Some current \<Rightarrow> put_draft nxt (fst e, foldl remove_field current (snd e))) nxt plan) m =
   (case (map_of plan m, map_of rs m) of
      (Some rts, Some current) \<Rightarrow> foldl remove_field current rts
    | _ \<Rightarrow> resolution_of nxt m)"
proof (induction plan arbitrary: nxt)
  case (Cons e plan)
  have p: "resolution_of (put_draft nxt x) m = (if fst x = m then snd x else resolution_of nxt m)" for nxt x
    by (auto simp: put_draft_def resolution_of_def update_conv' delete_conv' map_of_delete)
  obtain k rts where e: "e = (k, rts)" by (cases e)
  have d: "distinct (map fst plan)" using Cons.prems by simp
  show ?case
  proof (cases "k = m")
    case True
    then have "map_of plan m = None" using Cons.prems e by (auto simp: map_of_eq_None_iff)
    then show ?thesis using True by (cases "map_of rs m") (simp_all add: e Cons.IH [OF d] p)
  next
    case False
    then show ?thesis by (cases "map_of rs k") (simp_all add: e Cons.IH [OF d] p split: option.split)
  qed
qed simp

text \<open>
  A removal takes away exactly the fields it names, together with the other half of a billing
  expression, of exactly the models it names, and keeps every other choice.
\<close>

theorem applyResolutionRemovals_exact:
  "map_of (resolution_of (applyResolutionRemovals rs rems) m) f =
     (if list_ex (\<lambda>r. rem_model r = m \<and> removes (rem_ratioType r) f) rems then None
      else map_of (resolution_of rs m) f)"
proof -
  let ?plan = "foldl plan_add [] rems"
  have r: "resolution_of (applyResolutionRemovals rs rems) m = (case (map_of ?plan m, map_of rs m) of
      (Some rts, Some current) \<Rightarrow> foldl remove_field current rts | _ \<Rightarrow> resolution_of rs m)"
    using resolution_plan [OF plan_distinct [of rems], where rs = rs and nxt = rs and m = m]
    by (simp add: applyResolutionRemovals_def applyResolutionRemovalPlan_def)
  show ?thesis
    unfolding plan_of [of "\<lambda>rt. removes rt f" rems m, symmetric] r
    by (cases "map_of ?plan m"; cases "map_of rs m") (simp_all add: map_of_remove_fields resolution_of_def)
qed

text \<open>A price chosen for a model that had a ratio.\<close>

theorem applyResolutionSelections_consistent_witness:
  "consistent (resolution_of (applyResolutionSelections [(js ''m'', [(js ''model_ratio'', JNum (Num 2))])] []
     [\<lparr>sel_model = js ''m'', sel_ratioType = js ''model_price'', sel_value = JNum (Num 3), sourceName = js ''s''\<rparr>]) (js ''m''))"
proof -
  have "consistent (resolution_of [(js ''m'', [(js ''model_ratio'', JNum (Num 2))])] (js ''m''))"
    by (simp add: resolution_of_def consistent_def)
  from applyResolutionSelections_consistent [OF this, of "[]" "[]"] show ?thesis by simp
qed

end
