(* ===== verification/Advanced_Custom.thy ===== *)
theory Advanced_Custom
  imports JS_Json "HOL-Library.Monad_Syntax"
begin

text \<open>
  The routes of an advanced custom channel (\<open>features/channels/lib/advanced-custom.ts\<close>): the tables
  of converters, paths and templates, reading and normalizing a configuration, and its validation.

  A configuration comes from a JSON text, so it is an arbitrary value and not one of its declared
  type.  Where the code calls a string method on something else it raises a TypeError; this is the
  result \<open>None\<close>, or \<open>Crash\<close> in the validation.  The URL parser of the browser is an argument
  (\<open>url\<close>): the host and the protocol of a URL, \<open>None\<close> if it raises.
\<close>

section \<open>Tables\<close>

definition CHANNEL_TYPE_ADVANCED_CUSTOM :: int where "CHANNEL_TYPE_ADVANCED_CUSTOM = 58"
definition ADVANCED_CUSTOM_MODEL_LIST_PATH :: jstring where "ADVANCED_CUSTOM_MODEL_LIST_PATH = js ''/v1/models''"
definition ADVANCED_CUSTOM_MODEL_LIST_LABEL :: jstring where "ADVANCED_CUSTOM_MODEL_LIST_LABEL = js ''OpenAI Models''"

text \<open>Value, label and short label of each converter.\<close>

definition ADVANCED_CUSTOM_CONVERTER_OPTIONS :: "(jstring \<times> jstring \<times> jstring) list" where
  "ADVANCED_CUSTOM_CONVERTER_OPTIONS =
     [(js ''none'', js ''Native forwarding'', js ''Native forwarding''),
      (js ''anthropic_messages_to_openai_chat_completions'', js ''Anthropic Messages to OpenAI Chat'', js ''To OpenAI Chat''),
      (js ''openai_chat_completions_to_anthropic_messages'', js ''OpenAI Chat to Anthropic Messages'', js ''To Anthropic Messages''),
      (js ''openai_chat_completions_to_openai_responses'', js ''OpenAI Chat to OpenAI Responses'', js ''To OpenAI Responses''),
      (js ''openai_responses_to_openai_chat_completions'', js ''OpenAI Responses to OpenAI Chat'', js ''To OpenAI Chat''),
      (js ''openai_responses_to_gemini_generate_content'', js ''OpenAI Responses to Gemini Generate Content'', js ''To Gemini Generate Content''),
      (js ''gemini_generate_content_to_openai_chat_completions'', js ''Gemini Generate Content to OpenAI Chat'', js ''To OpenAI Chat''),
      (js ''openai_chat_completions_to_gemini_generate_content'', js ''OpenAI Chat to Gemini Generate Content'', js ''To Gemini Generate Content'')]"

definition ADVANCED_CUSTOM_AUTH_MODE_OPTIONS :: "(jstring \<times> jstring) list" where
  "ADVANCED_CUSTOM_AUTH_MODE_OPTIONS =
     [(js ''default'', js ''Default Bearer''), (js ''none'', js ''No Auth''), (js ''header'', js ''Header''),
      (js ''query'', js ''Query'')]"

definition ADVANCED_CUSTOM_INCOMING_PATH_OPTIONS :: "(jstring \<times> jstring) list" where
  "ADVANCED_CUSTOM_INCOMING_PATH_OPTIONS =
     [(js ''/v1/chat/completions'', js ''OpenAI Chat''),
      (js ''/v1/responses'', js ''OpenAI Responses''),
      (js ''/v1/responses/compact'', js ''OpenAI Responses Compact''),
      (js ''/v1/alpha/search'', js ''OpenAI Alpha Search''),
      (ADVANCED_CUSTOM_MODEL_LIST_PATH, ADVANCED_CUSTOM_MODEL_LIST_LABEL),
      (js ''/v1/embeddings'', js ''OpenAI Embeddings''),
      (js ''/v1/images/generations'', js ''OpenAI Image Generations''),
      (js ''/v1/images/edits'', js ''OpenAI Image Edits''),
      (js ''/v1/completions'', js ''OpenAI Completions''),
      (js ''/v1/audio/speech'', js ''OpenAI Audio Speech''),
      (js ''/v1/audio/transcriptions'', js ''OpenAI Audio Transcriptions''),
      (js ''/v1/audio/translations'', js ''OpenAI Audio Translations''),
      (js ''/v1/rerank'', js ''OpenAI Rerank''),
      (js ''/v1/realtime'', js ''OpenAI Realtime''),
      (js ''/v1/messages'', js ''Claude Messages''),
      (js ''/v1beta/models/{model}:generateContent'', js ''Gemini Generate Content''),
      (js ''/v1beta/models/{model}:embedContent'', js ''Gemini Embed Content''),
      (js ''/v1beta/models/{model}:batchEmbedContents'', js ''Gemini Batch Embed Contents'')]"

definition ADVANCED_CUSTOM_ROUTE_SUMMARY_LABELS :: "(jstring \<times> jstring) list" where
  "ADVANCED_CUSTOM_ROUTE_SUMMARY_LABELS =
     [(js ''/v1/chat/completions'', js ''OpenAI Chat''),
      (ADVANCED_CUSTOM_MODEL_LIST_PATH, ADVANCED_CUSTOM_MODEL_LIST_LABEL)]"

definition ADVANCED_CUSTOM_MODEL_REGEX_PREFIX :: jstring where "ADVANCED_CUSTOM_MODEL_REGEX_PREFIX = js ''re:''"

definition openAIChatPath :: jstring where "openAIChatPath = js ''/v1/chat/completions''"
definition openAIResponsesPath :: jstring where "openAIResponsesPath = js ''/v1/responses''"
definition claudeMessagesPath :: jstring where "claudeMessagesPath = js ''/v1/messages''"
definition geminiGenerateContentPath :: jstring where
  "geminiGenerateContentPath = js ''/v1beta/models/{model}:generateContent''"

text \<open>Authentication as an object.\<close>

definition auth_object :: "jstring \<Rightarrow> jstring \<Rightarrow> jstring \<Rightarrow> jsval" where
  "auth_object ty nm v = JObj [(js ''type'', JStr ty), (js ''name'', JStr nm), (js ''value'', JStr v)]"

definition bearerHeaderAuth :: jsval where
  "bearerHeaderAuth = auth_object (js ''header'') (js ''Authorization'') (js ''Bearer {api_key}'')"

definition apiKeyHeaderAuth :: jsval where
  "apiKeyHeaderAuth = auth_object (js ''header'') (js ''x-api-key'') (js ''{api_key}'')"

definition geminiQueryAuth :: jsval where
  "geminiQueryAuth = auth_object (js ''query'') (js ''key'') (js ''{api_key}'')"

definition template_route :: "jstring \<Rightarrow> jstring \<Rightarrow> jstring \<Rightarrow> jsval \<Rightarrow> jsval" where
  "template_route incoming upstream converter au =
     JObj [(js ''incoming_path'', JStr incoming), (js ''upstream_path'', JStr upstream),
           (js ''converter'', JStr converter), (js ''auth'', au)]"

definition config_object_of :: "jsval list \<Rightarrow> jsval" where
  "config_object_of routes = JObj [(js ''advanced_routes'', JArr routes)]"

text \<open>Value, label and routes of each template.\<close>

definition ADVANCED_CUSTOM_TEMPLATE_OPTIONS :: "(jstring \<times> jstring \<times> jsval list) list" where
  "ADVANCED_CUSTOM_TEMPLATE_OPTIONS =
     [(js ''official_openai_chat'', js ''Official OpenAI Chat'',
        [template_route (js ''/v1/chat/completions'') (js ''/v1/chat/completions'') (js ''none'') bearerHeaderAuth]),
      (js ''official_openai_responses'', js ''Official OpenAI Responses'',
        [template_route (js ''/v1/responses'') (js ''/v1/responses'') (js ''none'') bearerHeaderAuth]),
      (js ''official_openai_embeddings'', js ''Official OpenAI Embeddings'',
        [template_route (js ''/v1/embeddings'') (js ''/v1/embeddings'') (js ''none'') bearerHeaderAuth]),
      (js ''official_openai_images'', js ''Official OpenAI Images'',
        [template_route (js ''/v1/images/generations'') (js ''/v1/images/generations'') (js ''none'') bearerHeaderAuth,
         template_route (js ''/v1/images/edits'') (js ''/v1/images/edits'') (js ''none'') bearerHeaderAuth]),
      (js ''official_claude_messages'', js ''Official Claude Messages'',
        [template_route (js ''/v1/messages'') (js ''/v1/messages'') (js ''none'') apiKeyHeaderAuth]),
      (js ''official_gemini_native'', js ''Official Gemini Native'',
        [template_route (js ''/v1beta/models/{model}:generateContent'') (js ''/v1beta/models/{model}:generateContent'') (js ''none'') geminiQueryAuth,
         template_route (js ''/v1beta/models/{model}:embedContent'') (js ''/v1beta/models/{model}:embedContent'') (js ''none'') geminiQueryAuth,
         template_route (js ''/v1beta/models/{model}:batchEmbedContents'') (js ''/v1beta/models/{model}:batchEmbedContents'') (js ''none'') geminiQueryAuth]),
      (js ''official_gemini_from_openai_chat'', js ''Official Gemini from OpenAI Chat'',
        [template_route (js ''/v1/chat/completions'') (js ''/v1beta/models/{model}:generateContent'') (js ''openai_chat_completions_to_gemini_generate_content'') geminiQueryAuth])]"

text \<open>\<open>JSON.parse(JSON.stringify(config))\<close>\<close>

definition cloneAdvancedCustomConfig :: "jsval \<Rightarrow> jsval option" where
  "cloneAdvancedCustomConfig config = Option.bind (json_stringify 0 config) json_parse"

definition getAdvancedCustomTemplateConfig :: "jstring \<Rightarrow> jsval option" where
  "getAdvancedCustomTemplateConfig templateKey =
     (let template = (case find (\<lambda>o'. fst o' = templateKey) ADVANCED_CUSTOM_TEMPLATE_OPTIONS of
            Some t \<Rightarrow> t | None \<Rightarrow> ADVANCED_CUSTOM_TEMPLATE_OPTIONS ! 0)
      in cloneAdvancedCustomConfig (config_object_of (snd (snd template))))"

definition createAdvancedCustomRoute :: jsval where
  "createAdvancedCustomRoute =
     JObj [(js ''incoming_path'', JStr openAIChatPath), (js ''upstream_path'', JStr openAIChatPath),
           (js ''converter'', JStr (js ''none''))]"

definition createAdvancedCustomConfig :: jsval where
  "createAdvancedCustomConfig = config_object_of [createAdvancedCustomRoute]"

section \<open>Converters and paths\<close>

definition isConverterPathAllowed :: "jstring \<Rightarrow> jstring \<Rightarrow> bool" where
  "isConverterPathAllowed incomingPath converter =
     (if converter = js ''none'' then True
      else if incomingPath = js ''/v1/alpha/search'' then False
      else if converter = js ''anthropic_messages_to_openai_chat_completions'' then incomingPath = js ''/v1/messages''
      else if converter \<in> {js ''openai_chat_completions_to_anthropic_messages'',
                            js ''openai_chat_completions_to_openai_responses'',
                            js ''openai_chat_completions_to_gemini_generate_content''}
      then incomingPath = js ''/v1/chat/completions''
      else if converter = js ''openai_responses_to_openai_chat_completions'' then incomingPath = js ''/v1/responses''
      else if converter = js ''openai_responses_to_gemini_generate_content'' then incomingPath = js ''/v1/responses''
      else js_includes incomingPath (js '':generateContent'') \<or> js_includes incomingPath (js '':streamGenerateContent''))"

definition isAdvancedCustomIncomingPathAllowed :: "jstring \<Rightarrow> jstring \<Rightarrow> bool" where
  "isAdvancedCustomIncomingPathAllowed incomingPath converter = isConverterPathAllowed incomingPath converter"

definition getAdvancedCustomIncomingPathOptions :: "jstring \<Rightarrow> (jstring \<times> jstring) list" where
  "getAdvancedCustomIncomingPathOptions converter =
     filter (\<lambda>o'. isConverterPathAllowed (fst o') converter) ADVANCED_CUSTOM_INCOMING_PATH_OPTIONS"

definition getDefaultAdvancedCustomIncomingPath :: "jstring \<Rightarrow> jstring" where
  "getDefaultAdvancedCustomIncomingPath converter = (case getAdvancedCustomIncomingPathOptions converter of
     [] \<Rightarrow> js ''/v1/chat/completions''
   | o' # _ \<Rightarrow> str_or (fst o') (js ''/v1/chat/completions''))"

definition getAdvancedCustomNativeAuth :: "jstring \<Rightarrow> jsval" where
  "getAdvancedCustomNativeAuth incomingPath =
     (if incomingPath = claudeMessagesPath then apiKeyHeaderAuth
      else if js_includes incomingPath (js '':generateContent'') \<or>
              js_includes incomingPath (js '':streamGenerateContent'') \<or>
              js_includes incomingPath (js '':embedContent'') \<or>
              js_includes incomingPath (js '':batchEmbedContents'')
      then geminiQueryAuth
      else bearerHeaderAuth)"

record AdvancedCustomConverterDefaults =
  default_upstream_path :: jstring
  default_auth :: jsval

definition getAdvancedCustomConverterDefaults :: "jstring \<Rightarrow> jstring \<Rightarrow> AdvancedCustomConverterDefaults" where
  "getAdvancedCustomConverterDefaults converter incomingPath =
     (let normalizedIncomingPath = str_or (js_trim incomingPath) (getDefaultAdvancedCustomIncomingPath converter)
      in if converter = js ''none''
         then \<lparr>default_upstream_path = normalizedIncomingPath, default_auth = getAdvancedCustomNativeAuth normalizedIncomingPath\<rparr>
         else if converter \<in> {js ''anthropic_messages_to_openai_chat_completions'',
                               js ''gemini_generate_content_to_openai_chat_completions'',
                               js ''openai_responses_to_openai_chat_completions''}
         then \<lparr>default_upstream_path = openAIChatPath, default_auth = bearerHeaderAuth\<rparr>
         else if converter = js ''openai_chat_completions_to_openai_responses''
         then \<lparr>default_upstream_path = openAIResponsesPath, default_auth = bearerHeaderAuth\<rparr>
         else if converter = js ''openai_chat_completions_to_anthropic_messages''
         then \<lparr>default_upstream_path = claudeMessagesPath, default_auth = apiKeyHeaderAuth\<rparr>
         else if converter \<in> {js ''openai_chat_completions_to_gemini_generate_content'',
                               js ''openai_responses_to_gemini_generate_content''}
         then \<lparr>default_upstream_path = geminiGenerateContentPath, default_auth = geminiQueryAuth\<rparr>
         else \<lparr>default_upstream_path = str_or normalizedIncomingPath openAIChatPath,
               default_auth = getAdvancedCustomNativeAuth normalizedIncomingPath\<rparr>)"

definition getAdvancedCustomUpstreamPathPlaceholder :: "jstring \<Rightarrow> jstring option \<Rightarrow> jstring" where
  "getAdvancedCustomUpstreamPathPlaceholder converter incomingPath =
     default_upstream_path (getAdvancedCustomConverterDefaults converter
       (case incomingPath of Some p \<Rightarrow> p | None \<Rightarrow> getDefaultAdvancedCustomIncomingPath converter))"

definition getAdvancedCustomConverterOptions :: "jstring \<Rightarrow> (jstring \<times> jstring \<times> jstring) list" where
  "getAdvancedCustomConverterOptions incomingPath =
     filter (\<lambda>o'. fst o' = js ''none'' \<or> isConverterPathAllowed (js_trim incomingPath) (fst o'))
       ADVANCED_CUSTOM_CONVERTER_OPTIONS"

definition getAdvancedCustomIncomingPathLabel :: "jstring \<Rightarrow> jstring" where
  "getAdvancedCustomIncomingPathLabel value = (case find (\<lambda>o'. fst o' = value) ADVANCED_CUSTOM_INCOMING_PATH_OPTIONS of
     Some o' \<Rightarrow> str_or (snd o') value | None \<Rightarrow> value)"

definition isAdvancedCustomConverter :: "jsval \<Rightarrow> bool" where
  "isAdvancedCustomConverter value \<longleftrightarrow> list_ex (\<lambda>o'. JStr (fst o') = value) ADVANCED_CUSTOM_CONVERTER_OPTIONS"

section \<open>Reading and normalizing\<close>

text \<open>\<open>v.trim()\<close>\<close>

definition trim_value :: "jsval \<Rightarrow> jstring option" where
  "trim_value v = (case v of JStr s \<Rightarrow> Some (js_trim s) | _ \<Rightarrow> None)"

definition getAdvancedCustomRouteUpstreamPath :: "jsval \<Rightarrow> jstring option" where
  "getAdvancedCustomRouteUpstreamPath route = trim_value (js_or (get_prop route (js ''upstream_path'')) (JStr []))"

definition normalizeAdvancedCustomRouteModels :: "jsval \<Rightarrow> jstring list option" where
  "normalizeAdvancedCustomRouteModels models = (case models of
     JArr xs \<Rightarrow> map_option (filter (\<lambda>m. m \<noteq> [])) (those (map trim_value xs))
   | _ \<Rightarrow> Some [])"

definition normalizeAdvancedCustomRoute :: "jsval \<Rightarrow> jsval option" where
  "normalizeAdvancedCustomRoute route =
     (if route = JNull \<or> route = JUndef then None
      else do {
        upstream \<leftarrow> getAdvancedCustomRouteUpstreamPath route;
        models \<leftarrow> normalizeAdvancedCustomRouteModels (get_prop route (js ''models''));
        let au = get_prop route (js ''auth'');
        Some (JObj (
          [(js ''incoming_path'', js_or (get_prop route (js ''incoming_path'')) (JStr [])),
           (js ''upstream_path'', JStr upstream),
           (js ''converter'', js_or (get_prop route (js ''converter'')) (JStr (js ''none'')))] @
          (if models \<noteq> [] then [(js ''models'', JArr (map JStr models))] else []) @
          (if truthy au
           then [(js ''auth'', JObj [(js ''type'', get_prop au (js ''type'')),
                   (js ''name'', js_or (get_prop au (js ''name'')) (JStr [])),
                   (js ''value'', js_or (get_prop au (js ''value'')) (JStr []))])]
           else [])))
      })"

definition normalized_routes :: "jsval \<Rightarrow> jsval list option" where
  "normalized_routes config = (case get_prop config (js ''advanced_routes'') of
     JArr rs \<Rightarrow> those (map normalizeAdvancedCustomRoute rs)
   | _ \<Rightarrow> Some [])"

definition normalizeAdvancedCustomConfig :: "jsval \<Rightarrow> jsval option" where
  "normalizeAdvancedCustomConfig config = map_option config_object_of (normalized_routes config)"

text \<open>Every exception on the way is caught; \<open>None\<close> is the result \<open>null\<close>.\<close>

definition parseAdvancedCustomConfig :: "jstring option \<Rightarrow> jsval option" where
  "parseAdvancedCustomConfig value = (case value of
     None \<Rightarrow> None
   | Some s \<Rightarrow> if js_trim s = [] then None
       else (case json_parse s of
               Some (JObj es) \<Rightarrow> normalizeAdvancedCustomConfig (JObj es)
             | _ \<Rightarrow> None))"

definition stringifyAdvancedCustomConfig :: "jsval \<Rightarrow> jstring option" where
  "stringifyAdvancedCustomConfig config = Option.bind (normalizeAdvancedCustomConfig config) (json_stringify 2)"

definition parseAdvancedCustomRouteModels :: "jstring \<Rightarrow> jstring list" where
  "parseAdvancedCustomRouteModels value = js_set (filter (\<lambda>m. m \<noteq> []) (map js_trim (js_split 44 value)))"

datatype AdvancedCustomModelRuleKind = ExactRule | RegexRule

definition getAdvancedCustomModelRuleKind :: "jstring \<Rightarrow> AdvancedCustomModelRuleKind" where
  "getAdvancedCustomModelRuleKind modelRule =
     (if js_starts_with modelRule ADVANCED_CUSTOM_MODEL_REGEX_PREFIX then RegexRule else ExactRule)"

definition getAdvancedCustomRegexModelPattern :: "jstring \<Rightarrow> jstring" where
  "getAdvancedCustomRegexModelPattern modelRule = drop (length ADVANCED_CUSTOM_MODEL_REGEX_PREFIX) modelRule"

section \<open>Validation\<close>

datatype validation = Valid | Invalid "nat option" jstring | Crash

record path_state =
  catchAllIndex :: "nat option"
  path_models :: "(jstring \<times> nat) list"

record validation_state =
  routeModelsByPath :: "(jstring \<times> path_state) list"
  modelListRouteIndex :: "nat option"

definition initial_validation :: validation_state where
  "initial_validation = \<lparr>routeModelsByPath = [], modelListRouteIndex = None\<rparr>"

text \<open>The loop over the models of a route, with the models seen in the route.\<close>

fun validate_models :: "nat \<Rightarrow> jstring list \<Rightarrow> (jstring \<times> nat) list \<Rightarrow> jstring list \<Rightarrow> jstring + (jstring \<times> nat) list" where
  "validate_models i seen ms [] = Inr ms"
| "validate_models i seen ms (m # rest) =
     (if getAdvancedCustomModelRuleKind m = RegexRule \<and> getAdvancedCustomRegexModelPattern m = []
      then Inl (js ''Model regex cannot be empty'')
      else if m \<in> set seen then Inl (js ''Duplicate model in route models'')
      else if map_of ms m \<noteq> None then Inl (js ''Route models must be unique for the same incoming path'')
      else validate_models i (m # seen) (AList.update m i ms) rest)"

definition validateAdvancedCustomRouteModels ::
  "nat \<Rightarrow> jstring \<Rightarrow> jstring list \<Rightarrow> (jstring \<times> path_state) list \<Rightarrow> jstring + (jstring \<times> path_state) list" where
  "validateAdvancedCustomRouteModels i incomingPath models byPath =
     (let state = (case map_of byPath incomingPath of Some s \<Rightarrow> s | None \<Rightarrow> \<lparr>catchAllIndex = None, path_models = []\<rparr>)
      in if models = [] then
           (if catchAllIndex state \<noteq> None
            then Inl (js ''Only one catch-all route is allowed for the same incoming path'')
            else Inr (AList.update incomingPath (state\<lparr>catchAllIndex := Some i\<rparr>) byPath))
         else if catchAllIndex state \<noteq> None
         then Inl (js ''Catch-all route must be last for the same incoming path'')
         else case validate_models i [] (path_models state) models of
                Inl e \<Rightarrow> Inl e
              | Inr ms \<Rightarrow> Inr (AList.update incomingPath (state\<lparr>path_models := ms\<rparr>) byPath))"

definition isFullHttpURLOrAbsolutePath :: "(jstring \<Rightarrow> (jstring \<times> jstring) option) \<Rightarrow> jstring \<Rightarrow> bool" where
  "isFullHttpURLOrAbsolutePath url value =
     (if js_starts_with value (js ''/'') then \<not> js_starts_with value (js ''//'')
      else case url value of
             Some (host, protocol) \<Rightarrow> host \<noteq> [] \<and> (protocol = js ''http:'' \<or> protocol = js ''https:'')
           | None \<Rightarrow> False)"

text \<open>\<open>!v?.trim()\<close>: \<open>None\<close> is a TypeError.\<close>

definition blank_value :: "jsval \<Rightarrow> bool option" where
  "blank_value v = (if v = JUndef \<or> v = JNull then Some True else map_option (\<lambda>s. s = []) (trim_value v))"

text \<open>The message of \<open>validateRouteAuth\<close>, empty for \<open>null\<close>.\<close>

definition validateRouteAuth :: "jsval \<Rightarrow> jstring option" where
  "validateRouteAuth au =
     (let ty = get_prop au (js ''type'')
      in if \<not> truthy au then Some []
         else if ty = JStr (js ''none'') then Some []
         else if ty \<noteq> JStr (js ''header'') \<and> ty \<noteq> JStr (js ''query'') then Some (js ''Auth type is invalid'')
         else do {
           nameBlank \<leftarrow> blank_value (get_prop au (js ''name''));
           if nameBlank then Some (js ''Auth name is required'')
           else do {
             valueBlank \<leftarrow> blank_value (get_prop au (js ''value''));
             Some (if valueBlank then js ''Auth value is required'' else [])
           }
         })"

text \<open>The special rules of the route that lists the models.\<close>

definition model_list_error :: "nat option \<Rightarrow> jstring list \<Rightarrow> jsval \<Rightarrow> jstring \<Rightarrow> jstring" where
  "model_list_error earlier models converter upstream =
     (if earlier \<noteq> None then js ''Only one OpenAI Models route is allowed''
      else if models \<noteq> [] then js ''OpenAI Models route does not support client model rules''
      else if converter \<noteq> JStr (js ''none'') then js ''OpenAI Models route must use native forwarding''
      else if js_includes upstream (js ''{model}'') then js ''OpenAI Models upstream path must not contain {model}''
      else [])"

text \<open>\<open>route.incoming_path?.trim() || ''\<close>\<close>

definition incoming_path_of :: "jsval \<Rightarrow> jstring option" where
  "incoming_path_of route =
     (let v = get_prop route (js ''incoming_path'')
      in if v = JUndef \<or> v = JNull then Some [] else trim_value v)"

definition converter_of :: "jsval \<Rightarrow> jsval" where
  "converter_of route = js_or (get_prop route (js ''converter'')) (JStr (js ''none''))"

text \<open>The checks after the models of the route.\<close>

definition validate_target :: "(jstring \<Rightarrow> (jstring \<times> jstring) option) \<Rightarrow> jstring \<Rightarrow> jstring \<Rightarrow> jsval \<Rightarrow> jsval \<Rightarrow> jstring option" where
  "validate_target url incomingPath upstreamPath converter au =
     (if upstreamPath = [] then Some (js ''Upstream path is required'')
      else if \<not> isFullHttpURLOrAbsolutePath url upstreamPath
      then Some (js ''Upstream path must be a full URL or a path starting with /'')
      else if \<not> isAdvancedCustomConverter converter then Some (js ''Converter is not registered'')
      else if \<not> (case converter of JStr c \<Rightarrow> isConverterPathAllowed incomingPath c | _ \<Rightarrow> False)
      then Some (js ''Converter does not match incoming path'')
      else validateRouteAuth au)"

definition validate_route :: "(jstring \<Rightarrow> (jstring \<times> jstring) option) \<Rightarrow> nat \<Rightarrow> validation_state \<Rightarrow> jsval
    \<Rightarrow> validation + validation_state" where
  "validate_route url i st route = (case (incoming_path_of route, getAdvancedCustomRouteUpstreamPath route,
       normalizeAdvancedCustomRouteModels (get_prop route (js ''models''))) of
     (Some incomingPath, Some upstreamPath, Some routeModels) \<Rightarrow>
       (let converter = converter_of route; is_list = (incomingPath = ADVANCED_CUSTOM_MODEL_LIST_PATH);
            list_err = (if is_list then model_list_error (modelListRouteIndex st) routeModels converter upstreamPath else []);
            invalid = (\<lambda>m. Inl (Invalid (Some i) m))
        in if incomingPath = [] then invalid (js ''Incoming path is required'')
           else if \<not> js_starts_with incomingPath (js ''/'') then invalid (js ''Incoming path must start with /'')
           else if js_includes incomingPath (js ''?'') then invalid (js ''Incoming path must not include query'')
           else if list_err \<noteq> [] then invalid list_err
           else case validateAdvancedCustomRouteModels i incomingPath routeModels (routeModelsByPath st) of
                  Inl m \<Rightarrow> invalid m
                | Inr byPath \<Rightarrow>
                    (case validate_target url incomingPath upstreamPath converter (get_prop route (js ''auth'')) of
                       None \<Rightarrow> Inl Crash
                     | Some m \<Rightarrow> if m \<noteq> [] then invalid m
                         else Inr \<lparr>routeModelsByPath = byPath,
                              modelListRouteIndex = (if is_list then Some i else modelListRouteIndex st)\<rparr>))
   | _ \<Rightarrow> Inl Crash)"

fun validate_routes :: "(jstring \<Rightarrow> (jstring \<times> jstring) option) \<Rightarrow> nat \<Rightarrow> validation_state \<Rightarrow> jsval list \<Rightarrow> validation" where
  "validate_routes url i st [] = Valid"
| "validate_routes url i st (r # rs) = (case validate_route url i st r of
     Inl v \<Rightarrow> v | Inr st' \<Rightarrow> validate_routes url (Suc i) st' rs)"

definition validateAdvancedCustomConfig :: "(jstring \<Rightarrow> (jstring \<times> jstring) option) \<Rightarrow> jsval option \<Rightarrow> validation" where
  "validateAdvancedCustomConfig url config = (case config of
     None \<Rightarrow> Invalid None (js ''Advanced custom configuration is required'')
   | Some c \<Rightarrow> (case normalized_routes c of
       None \<Rightarrow> Crash
     | Some [] \<Rightarrow> Invalid None (js ''Advanced custom configuration requires at least one route'')
     | Some rs \<Rightarrow> validate_routes url 0 initial_validation rs))"

text \<open>The answers for a form; \<open>None\<close> is a TypeError.\<close>

definition hasValidAdvancedCustomModelListRoute ::
  "(jstring \<Rightarrow> (jstring \<times> jstring) option) \<Rightarrow> jsval option \<Rightarrow> bool option" where
  "hasValidAdvancedCustomModelListRoute url config = (case config of
     None \<Rightarrow> Some False
   | Some c \<Rightarrow> (case validateAdvancedCustomConfig url config of
       Crash \<Rightarrow> None
     | Invalid i m \<Rightarrow> Some False
     | Valid \<Rightarrow> map_option (list_ex (\<lambda>r. incoming_path_of r = Some ADVANCED_CUSTOM_MODEL_LIST_PATH)) (normalized_routes c)))"

definition advancedCustomConfigUsesRelativeUpstreamPath :: "jsval option \<Rightarrow> bool option" where
  "advancedCustomConfigUsesRelativeUpstreamPath config = (case config of
     None \<Rightarrow> Some False
   | Some c \<Rightarrow> map_option (list_ex (\<lambda>r. case getAdvancedCustomRouteUpstreamPath r of
       Some u \<Rightarrow> js_starts_with u (js ''/'') | None \<Rightarrow> False)) (normalized_routes c))"

definition getAdvancedCustomRouteSummaryLabel :: "jsval \<Rightarrow> jstring option option" where
  "getAdvancedCustomRouteSummaryLabel route = (case incoming_path_of route of
     None \<Rightarrow> None
   | Some p \<Rightarrow> Some (if p = [] then None
       else Some (case map_of ADVANCED_CUSTOM_ROUTE_SUMMARY_LABELS p of
         Some l \<Rightarrow> l | None \<Rightarrow> getAdvancedCustomIncomingPathLabel p)))"

record AdvancedCustomStats =
  routeCount :: nat
  stats_valid :: bool
  routeTypeLabels :: "jstring list"

definition getAdvancedCustomStats :: "(jstring \<Rightarrow> (jstring \<times> jstring) option) \<Rightarrow> jstring option \<Rightarrow> AdvancedCustomStats option" where
  "getAdvancedCustomStats url value = (case parseAdvancedCustomConfig value of
     None \<Rightarrow> Some \<lparr>routeCount = 0, stats_valid = False, routeTypeLabels = []\<rparr>
   | Some config \<Rightarrow> do {
       routes \<leftarrow> normalized_routes config;
       labels \<leftarrow> those (map getAdvancedCustomRouteSummaryLabel routes);
       (case validateAdvancedCustomConfig url (normalizeAdvancedCustomConfig config) of
          Crash \<Rightarrow> None
        | v \<Rightarrow> Some \<lparr>routeCount = length routes, stats_valid = (v = Valid),
                      routeTypeLabels = js_set (filter (\<lambda>l. l \<noteq> []) (List.map_filter id labels))\<rparr>)
     })"

section \<open>Authentication modes\<close>

definition getAdvancedCustomAuthMode :: "jsval \<Rightarrow> jsval" where
  "getAdvancedCustomAuthMode route = js_or (get_prop (get_prop route (js ''auth'')) (js ''type'')) (JStr (js ''default''))"

definition buildAdvancedCustomAuth :: "jstring \<Rightarrow> jsval \<Rightarrow> jsval" where
  "buildAdvancedCustomAuth mode previousAuth =
     (let nm = get_prop previousAuth (js ''name''); v = get_prop previousAuth (js ''value'')
      in if mode = js ''default'' then JUndef
         else if mode = js ''none'' then JObj [(js ''type'', JStr (js ''none''))]
         else if mode = js ''header''
         then JObj [(js ''type'', JStr (js ''header'')), (js ''name'', js_or nm (JStr (js ''Authorization''))),
                    (js ''value'', js_or v (JStr (js ''Bearer {api_key}'')))]
         else JObj [(js ''type'', JStr (js ''query'')), (js ''name'', js_or nm (JStr (js ''api_key''))),
                    (js ''value'', js_or v (JStr (js ''{api_key}'')))])"

section \<open>What a valid configuration is\<close>

definition rule_ok :: "jstring \<Rightarrow> bool" where
  "rule_ok m \<longleftrightarrow> m \<noteq> ADVANCED_CUSTOM_MODEL_REGEX_PREFIX"

definition route_path :: "jsval \<Rightarrow> jstring" where
  "route_path r = (case incoming_path_of r of Some p \<Rightarrow> p | None \<Rightarrow> [])"

definition route_upstream :: "jsval \<Rightarrow> jstring" where
  "route_upstream r = (case getAdvancedCustomRouteUpstreamPath r of Some u \<Rightarrow> u | None \<Rightarrow> [])"

definition route_models :: "jsval \<Rightarrow> jstring list" where
  "route_models r = (case normalizeAdvancedCustomRouteModels (get_prop r (js ''models'')) of Some ms \<Rightarrow> ms | None \<Rightarrow> [])"

text \<open>The fields on which string methods are called hold strings.\<close>

definition readable_route :: "jsval \<Rightarrow> bool" where
  "readable_route r \<longleftrightarrow> incoming_path_of r \<noteq> None \<and> getAdvancedCustomRouteUpstreamPath r \<noteq> None \<and>
     normalizeAdvancedCustomRouteModels (get_prop r (js ''models'')) \<noteq> None"

definition nonblank_string :: "jsval \<Rightarrow> bool" where
  "nonblank_string v = (case v of JStr s \<Rightarrow> js_trim s \<noteq> [] | _ \<Rightarrow> False)"

definition auth_ok :: "jsval \<Rightarrow> bool" where
  "auth_ok au \<longleftrightarrow> \<not> truthy au \<or> get_prop au (js ''type'') = JStr (js ''none'') \<or>
     (get_prop au (js ''type'') \<in> {JStr (js ''header''), JStr (js ''query'')} \<and>
      nonblank_string (get_prop au (js ''name'')) \<and> nonblank_string (get_prop au (js ''value'')))"

definition converter_ok :: "jstring \<Rightarrow> jsval \<Rightarrow> bool" where
  "converter_ok p converter \<longleftrightarrow> isAdvancedCustomConverter converter \<and>
     (case converter of JStr c \<Rightarrow> isConverterPathAllowed p c | _ \<Rightarrow> False)"

definition route_ok :: "(jstring \<Rightarrow> (jstring \<times> jstring) option) \<Rightarrow> jsval \<Rightarrow> bool" where
  "route_ok url r \<longleftrightarrow> readable_route r \<and>
     js_starts_with (route_path r) (js ''/'') \<and> \<not> js_includes (route_path r) (js ''?'') \<and>
     (route_path r = ADVANCED_CUSTOM_MODEL_LIST_PATH \<longrightarrow> route_models r = [] \<and>
        converter_of r = JStr (js ''none'') \<and> \<not> js_includes (route_upstream r) (js ''{model}'')) \<and>
     list_all rule_ok (route_models r) \<and> distinct (route_models r) \<and>
     route_upstream r \<noteq> [] \<and> isFullHttpURLOrAbsolutePath url (route_upstream r) \<and>
     converter_ok (route_path r) (converter_of r) \<and> auth_ok (get_prop r (js ''auth''))"

text \<open>
  An earlier and a later route of the same path: the earlier one names its models, and they share
  none.  So a route for all models is the last of its path, and every model has one rule.
\<close>

definition apart :: "jsval \<Rightarrow> jsval \<Rightarrow> bool" where
  "apart a b \<longleftrightarrow> route_path a = route_path b \<longrightarrow>
     route_models a \<noteq> [] \<and> set (route_models a) \<inter> set (route_models b) = {}"

definition valid_routes :: "(jstring \<Rightarrow> (jstring \<times> jstring) option) \<Rightarrow> jsval list \<Rightarrow> bool" where
  "valid_routes url rs \<longleftrightarrow> rs \<noteq> [] \<and> list_all (route_ok url) rs \<and> sorted_wrt apart rs"

section \<open>The validation is exact\<close>

lemma regex_rule_empty:
  "getAdvancedCustomModelRuleKind m = RegexRule \<and> getAdvancedCustomRegexModelPattern m = [] \<longleftrightarrow> \<not> rule_ok m"
  by (auto simp: getAdvancedCustomModelRuleKind_def getAdvancedCustomRegexModelPattern_def rule_ok_def js_starts_with_prefix)

lemma validate_models_iff:
  "(\<exists>ms'. validate_models i seen ms xs = Inr ms') \<longleftrightarrow>
   list_all rule_ok xs \<and> distinct xs \<and> set xs \<inter> set seen = {} \<and> set xs \<inter> dom (map_of ms) = {}"
proof (induction xs arbitrary: seen ms)
  case (Cons x xs)
  show ?case
  proof (cases "rule_ok x \<and> x \<notin> set seen \<and> map_of ms x = None")
    case True
    then have "validate_models i seen ms (x # xs) = validate_models i (x # seen) (AList.update x i ms) xs"
      using regex_rule_empty [of x] by auto
    moreover have "dom (map_of (AList.update x i ms)) = insert x (dom (map_of ms))"
      by (simp add: update_conv')
    ultimately show ?thesis using True Cons.IH [of "x # seen" "AList.update x i ms"] by auto
  next
    case False
    then show ?thesis using regex_rule_empty [of x] by auto
  qed
qed simp

lemma validate_models_dom:
  "validate_models i seen ms xs = Inr ms' \<Longrightarrow> dom (map_of ms') = dom (map_of ms) \<union> set xs"
proof (induction xs arbitrary: seen ms)
  case (Cons x xs)
  have "validate_models i (x # seen) (AList.update x i ms) xs = Inr ms'"
    using Cons.prems by (auto split: if_splits)
  from Cons.IH [OF this] show ?case by (auto simp: update_conv')
qed simp

text \<open>What the state remembers of the routes before.\<close>

definition catch_all :: "(jstring \<times> path_state) list \<Rightarrow> jstring \<Rightarrow> bool" where
  "catch_all byPath p = (case map_of byPath p of Some s \<Rightarrow> catchAllIndex s \<noteq> None | None \<Rightarrow> False)"

definition known_models :: "(jstring \<times> path_state) list \<Rightarrow> jstring \<Rightarrow> jstring set" where
  "known_models byPath p = (case map_of byPath p of Some s \<Rightarrow> dom (map_of (path_models s)) | None \<Rightarrow> {})"

definition remembers :: "validation_state \<Rightarrow> jsval set \<Rightarrow> bool" where
  "remembers st R \<longleftrightarrow>
     (\<forall>p. catch_all (routeModelsByPath st) p \<longleftrightarrow> (\<exists>r \<in> R. route_path r = p \<and> route_models r = [])) \<and>
     (\<forall>p. known_models (routeModelsByPath st) p = (\<Union>r \<in> {r \<in> R. route_path r = p}. set (route_models r))) \<and>
     (modelListRouteIndex st \<noteq> None \<longleftrightarrow> (\<exists>r \<in> R. route_path r = ADVANCED_CUSTOM_MODEL_LIST_PATH))"

definition path_state_of :: "(jstring \<times> path_state) list \<Rightarrow> jstring \<Rightarrow> path_state" where
  "path_state_of byPath p = (case map_of byPath p of Some s \<Rightarrow> s | None \<Rightarrow> \<lparr>catchAllIndex = None, path_models = []\<rparr>)"

lemma path_state_view:
  "catch_all byPath p \<longleftrightarrow> catchAllIndex (path_state_of byPath p) \<noteq> None"
  "known_models byPath p = dom (map_of (path_models (path_state_of byPath p)))"
  by (auto simp: path_state_of_def catch_all_def known_models_def split: option.splits)

lemma path_state_update [simp]: "path_state_of (AList.update p s byPath) q = (if q = p then s else path_state_of byPath q)"
  by (simp add: path_state_of_def update_conv')

lemma validate_route_models_eq:
  "validateAdvancedCustomRouteModels i p [] byPath =
     (if catch_all byPath p then Inl (js ''Only one catch-all route is allowed for the same incoming path'')
      else Inr (AList.update p ((path_state_of byPath p)\<lparr>catchAllIndex := Some i\<rparr>) byPath))"
  "ms \<noteq> [] \<Longrightarrow> validateAdvancedCustomRouteModels i p ms byPath =
     (if catch_all byPath p then Inl (js ''Catch-all route must be last for the same incoming path'')
      else map_sum id (\<lambda>ms'. AList.update p ((path_state_of byPath p)\<lparr>path_models := ms'\<rparr>) byPath)
             (validate_models i [] (path_models (path_state_of byPath p)) ms))"
  unfolding validateAdvancedCustomRouteModels_def path_state_of_def [symmetric] path_state_view Let_def
  by (auto split: sum.splits)

lemma validate_route_models_iff:
  "(\<exists>b. validateAdvancedCustomRouteModels i p ms byPath = Inr b) \<longleftrightarrow>
   \<not> catch_all byPath p \<and> list_all rule_ok ms \<and> distinct ms \<and> set ms \<inter> known_models byPath p = {}"
proof (cases "ms = []")
  case False
  have "(\<exists>b. map_sum id f x = Inr b) \<longleftrightarrow> (\<exists>y. x = Inr y)" for f :: "(jstring \<times> nat) list \<Rightarrow> (jstring \<times> path_state) list"
      and x :: "jstring + (jstring \<times> nat) list"
    by (cases x) auto
  then show ?thesis
    using False validate_models_iff [of i "[]" "path_models (path_state_of byPath p)" ms]
    by (simp add: validate_route_models_eq path_state_view)
qed (simp add: validate_route_models_eq)

lemma validate_route_models_state:
  assumes "validateAdvancedCustomRouteModels i p ms byPath = Inr b"
  shows "catch_all b q \<longleftrightarrow> catch_all byPath q \<or> (q = p \<and> ms = [])"
    and "known_models b q = known_models byPath q \<union> (if q = p then set ms else {})"
proof -
  have c: "\<not> catch_all byPath p" using assms validate_route_models_iff [of i p ms byPath] by blast
  have "(catch_all b q \<longleftrightarrow> catch_all byPath q \<or> (q = p \<and> ms = [])) \<and>
      known_models b q = known_models byPath q \<union> (if q = p then set ms else {})"
  proof (cases "ms = []")
    case True
    then have "b = AList.update p ((path_state_of byPath p)\<lparr>catchAllIndex := Some i\<rparr>) byPath"
      using assms c by (simp add: validate_route_models_eq)
    then show ?thesis using True by (simp add: path_state_view)
  next
    case False
    then obtain ms' where m: "validate_models i [] (path_models (path_state_of byPath p)) ms = Inr ms'"
        "b = AList.update p ((path_state_of byPath p)\<lparr>path_models := ms'\<rparr>) byPath"
      using assms c
      by (cases "validate_models i [] (path_models (path_state_of byPath p)) ms") (auto simp: validate_route_models_eq)
    then show ?thesis using False c validate_models_dom [OF m(1)] by (simp add: path_state_view)
  qed
  then show "catch_all b q \<longleftrightarrow> catch_all byPath q \<or> (q = p \<and> ms = [])"
    and "known_models b q = known_models byPath q \<union> (if q = p then set ms else {})" by blast+
qed

lemma blank_value_string: "blank_value v = Some False \<longleftrightarrow> nonblank_string v"
  by (cases v) (auto simp: blank_value_def trim_value_def nonblank_string_def)

lemma validateRouteAuth_ok: "validateRouteAuth au = Some [] \<longleftrightarrow> auth_ok au"
proof -
  have n: "js ''Auth type is invalid'' \<noteq> []" "js ''Auth name is required'' \<noteq> []" "js ''Auth value is required'' \<noteq> []"
    by (simp_all add: js_Cons)
  have b: "(case blank_value v of None \<Rightarrow> False | Some x \<Rightarrow> \<not> x) \<longleftrightarrow> nonblank_string v" for v
    using blank_value_string [of v] by (auto split: option.splits)
  show ?thesis
    unfolding validateRouteAuth_def auth_ok_def Let_def
    using n b [of "get_prop au (js ''name'')"] b [of "get_prop au (js ''value'')"]
    by (auto split: option.splits simp: Option.bind_eq_Some_conv blank_value_string [symmetric])
qed

lemma validate_target_ok:
  "validate_target url p u converter au = Some [] \<longleftrightarrow>
   u \<noteq> [] \<and> isFullHttpURLOrAbsolutePath url u \<and> converter_ok p converter \<and> auth_ok au"
proof -
  have n: "js ''Upstream path is required'' \<noteq> []" "js ''Upstream path must be a full URL or a path starting with /'' \<noteq> []"
    "js ''Converter is not registered'' \<noteq> []" "js ''Converter does not match incoming path'' \<noteq> []"
    by (simp_all add: js_Cons)
  then show ?thesis
    by (auto simp: validate_target_def converter_ok_def validateRouteAuth_ok)
qed

lemma model_list_ok:
  "model_list_error e ms converter u = [] \<longleftrightarrow>
   e = None \<and> ms = [] \<and> converter = JStr (js ''none'') \<and> \<not> js_includes u (js ''{model}'')"
  by (simp add: model_list_error_def js_Cons)

lemma remembers_initial: "remembers initial_validation {}"
  by (simp add: remembers_def initial_validation_def catch_all_def known_models_def)

lemma readable_fields:
  "readable_route r \<Longrightarrow> incoming_path_of r = Some (route_path r) \<and>
     getAdvancedCustomRouteUpstreamPath r = Some (route_upstream r) \<and>
     normalizeAdvancedCustomRouteModels (get_prop r (js ''models'')) = Some (route_models r)"
  by (auto simp: readable_route_def route_path_def route_upstream_def route_models_def)

lemma slash_not_empty: "js_starts_with p (js ''/'') \<Longrightarrow> p \<noteq> []"
  by (auto simp: js_Cons)

text \<open>The chain of checks of one route.\<close>

lemma validate_route_Inr:
  assumes "readable_route r"
  shows "validate_route url i st r = Inr st' \<longleftrightarrow>
    js_starts_with (route_path r) (js ''/'') \<and> \<not> js_includes (route_path r) (js ''?'') \<and>
    (route_path r = ADVANCED_CUSTOM_MODEL_LIST_PATH \<longrightarrow>
       model_list_error (modelListRouteIndex st) (route_models r) (converter_of r) (route_upstream r) = []) \<and>
    validate_target url (route_path r) (route_upstream r) (converter_of r) (get_prop r (js ''auth'')) = Some [] \<and>
    (\<exists>b. validateAdvancedCustomRouteModels i (route_path r) (route_models r) (routeModelsByPath st) = Inr b \<and>
       st' = \<lparr>routeModelsByPath = b, modelListRouteIndex =
         (if route_path r = ADVANCED_CUSTOM_MODEL_LIST_PATH then Some i else modelListRouteIndex st)\<rparr>)"
proof -
  define tgt where "tgt = validate_target url (route_path r) (route_upstream r) (converter_of r) (get_prop r (js ''auth''))"
  define lst where "lst = model_list_error (modelListRouteIndex st) (route_models r) (converter_of r) (route_upstream r)"
  define mdl where "mdl = validateAdvancedCustomRouteModels i (route_path r) (route_models r) (routeModelsByPath st)"
  define isl where "isl = (route_path r = ADVANCED_CUSTOM_MODEL_LIST_PATH)"
  show ?thesis
    using readable_fields [OF assms] slash_not_empty [of "route_path r"]
    unfolding validate_route_def Let_def
    by (simp add: tgt_def [symmetric] lst_def [symmetric] mdl_def [symmetric] isl_def [symmetric])
      (auto simp: tgt_def split: sum.splits option.splits if_splits)
qed

lemma result_ex:
  "(\<exists>y. A \<and> B \<and> C \<and> D \<and> (\<exists>b. P b \<and> y = f b)) \<longleftrightarrow> A \<and> B \<and> C \<and> D \<and> (\<exists>b. P b)"
  by blast

text \<open>One route is accepted exactly if it is right by itself and apart from all routes before it.\<close>

lemma validate_route_accepts:
  assumes "remembers st R" "\<forall>q \<in> R. route_ok url q"
  shows "(\<exists>st'. validate_route url i st r = Inr st') \<longleftrightarrow> route_ok url r \<and> (\<forall>q \<in> R. apart q r)"
proof (cases "readable_route r")
  case False
  then have "validate_route url i st r = Inl Crash"
    by (auto simp: validate_route_def readable_route_def split: option.splits)
  then show ?thesis using False by (simp add: route_ok_def)
next
  case True
  have models: "(\<exists>b. validateAdvancedCustomRouteModels i (route_path r) (route_models r) (routeModelsByPath st) = Inr b) \<longleftrightarrow>
      list_all rule_ok (route_models r) \<and> distinct (route_models r) \<and> (\<forall>q \<in> R. apart q r)"
    unfolding validate_route_models_iff using assms(1) by (auto simp: remembers_def apart_def)
  have first: "route_path r = ADVANCED_CUSTOM_MODEL_LIST_PATH \<Longrightarrow> \<forall>q \<in> R. apart q r \<Longrightarrow> modelListRouteIndex st = None"
    using assms unfolding remembers_def apart_def route_ok_def by metis
  have "(\<exists>st'. validate_route url i st r = Inr st') \<longleftrightarrow>
      js_starts_with (route_path r) (js ''/'') \<and> \<not> js_includes (route_path r) (js ''?'') \<and>
      (route_path r = ADVANCED_CUSTOM_MODEL_LIST_PATH \<longrightarrow>
         model_list_error (modelListRouteIndex st) (route_models r) (converter_of r) (route_upstream r) = []) \<and>
      validate_target url (route_path r) (route_upstream r) (converter_of r) (get_prop r (js ''auth'')) = Some [] \<and>
      (\<exists>b. validateAdvancedCustomRouteModels i (route_path r) (route_models r) (routeModelsByPath st) = Inr b)"
    unfolding validate_route_Inr [OF True] by (rule result_ex)
  also have "\<dots> \<longleftrightarrow> route_ok url r \<and> (\<forall>q \<in> R. apart q r)"
    unfolding models model_list_ok validate_target_ok route_ok_def
    by (rule iffI; elim conjE; intro conjI impI) (use first True in simp_all)
  finally show ?thesis .
qed

lemma validate_route_remembers:
  assumes "remembers st R" "validate_route url i st r = Inr st'"
  shows "remembers st' (insert r R)"
proof -
  have "readable_route r"
    using assms(2) by (auto simp: validate_route_def readable_route_def split: option.splits)
  then obtain b where m: "validateAdvancedCustomRouteModels i (route_path r) (route_models r) (routeModelsByPath st) = Inr b"
    and st': "st' = \<lparr>routeModelsByPath = b, modelListRouteIndex =
         (if route_path r = ADVANCED_CUSTOM_MODEL_LIST_PATH then Some i else modelListRouteIndex st)\<rparr>"
    using assms(2) validate_route_Inr by blast
  show ?thesis
    unfolding remembers_def st'
    using assms(1) validate_route_models_state [OF m]
    by (auto simp: remembers_def)
qed

lemma validate_route_rejects: "validate_route url i st r = Inl v \<Longrightarrow> v \<noteq> Valid"
  by (auto simp: validate_route_def Let_def split: option.splits sum.splits if_splits)

lemma validate_routes_iff:
  "remembers st R \<Longrightarrow> \<forall>q \<in> R. route_ok url q \<Longrightarrow>
   validate_routes url i st rs = Valid \<longleftrightarrow>
     list_all (route_ok url) rs \<and> sorted_wrt apart rs \<and> (\<forall>q \<in> R. \<forall>r \<in> set rs. apart q r)"
proof (induction rs arbitrary: i st R)
  case (Cons r rs)
  show ?case
  proof (cases "validate_route url i st r")
    case (Inl v)
    then have "\<not> (route_ok url r \<and> (\<forall>q \<in> R. apart q r))"
      using validate_route_accepts [OF Cons.prems, of i r] by auto
    then show ?thesis using Inl validate_route_rejects [OF Inl] by auto
  next
    case (Inr st')
    then have ok: "route_ok url r" "\<forall>q \<in> R. apart q r"
      using validate_route_accepts [OF Cons.prems, of i r] by auto
    have "validate_routes url (Suc i) st' rs = Valid \<longleftrightarrow>
        list_all (route_ok url) rs \<and> sorted_wrt apart rs \<and> (\<forall>q \<in> insert r R. \<forall>r \<in> set rs. apart q r)"
      using ok(1) Cons.prems(2) by (intro Cons.IH validate_route_remembers [OF Cons.prems(1) Inr]) auto
    then show ?thesis using Inr ok by auto
  qed
qed simp

text \<open>
  C16. The validation is exact: a configuration is accepted if and only if it can be read, has a
  route, every route is right by itself, and among the routes of a path the one for all models is
  the last and no two name the same model.
\<close>

theorem validateAdvancedCustomConfig_exact:
  "validateAdvancedCustomConfig url (Some c) = Valid \<longleftrightarrow>
   (\<exists>rs. normalized_routes c = Some rs \<and> valid_routes url rs)"
proof (cases "normalized_routes c")
  case None
  then show ?thesis by (simp add: validateAdvancedCustomConfig_def)
next
  case (Some rs)
  have "validate_routes url 0 initial_validation rs = Valid \<longleftrightarrow> list_all (route_ok url) rs \<and> sorted_wrt apart rs"
    using validate_routes_iff [OF remembers_initial, of url 0 rs] by simp
  then show ?thesis using Some
    by (cases rs) (simp_all add: validateAdvancedCustomConfig_def valid_routes_def del: validate_routes.simps(2) sorted_wrt.simps(2) list.pred_inject(2))
qed

section \<open>Configurations of the declared type\<close>

definition optional_string :: "jsval \<Rightarrow> bool" where
  "optional_string v \<longleftrightarrow> v = JUndef \<or> is_string v"

definition optional_choice :: "jstring list \<Rightarrow> jsval \<Rightarrow> bool" where
  "optional_choice cs v \<longleftrightarrow> v = JUndef \<or> list_ex (\<lambda>c. v = JStr c) cs"

definition AdvancedCustomRouteAuth :: "jsval \<Rightarrow> bool" where
  "AdvancedCustomRouteAuth au \<longleftrightarrow> is_object au \<and>
     optional_choice [js ''none'', js ''header'', js ''query''] (get_prop au (js ''type'')) \<and>
     optional_string (get_prop au (js ''name'')) \<and> optional_string (get_prop au (js ''value''))"

definition string_array :: "jsval \<Rightarrow> bool" where
  "string_array v = (case v of JArr xs \<Rightarrow> list_all is_string xs | _ \<Rightarrow> False)"

definition AdvancedCustomRoute :: "jsval \<Rightarrow> bool" where
  "AdvancedCustomRoute r \<longleftrightarrow> is_object r \<and>
     optional_string (get_prop r (js ''incoming_path'')) \<and> optional_string (get_prop r (js ''upstream_path'')) \<and>
     optional_choice (map fst ADVANCED_CUSTOM_CONVERTER_OPTIONS) (get_prop r (js ''converter'')) \<and>
     (get_prop r (js ''models'') = JUndef \<or> string_array (get_prop r (js ''models''))) \<and>
     (get_prop r (js ''auth'') = JUndef \<or> AdvancedCustomRouteAuth (get_prop r (js ''auth'')))"

definition AdvancedCustomConfig :: "jsval \<Rightarrow> bool" where
  "AdvancedCustomConfig c \<longleftrightarrow> is_object c \<and>
     (case get_prop c (js ''advanced_routes'') of
        JUndef \<Rightarrow> True | JArr rs \<Rightarrow> list_all AdvancedCustomRoute rs | _ \<Rightarrow> False)"

lemma optional_string_or: "optional_string v \<Longrightarrow> \<exists>s. js_or v (JStr []) = JStr s"
  by (cases v) (auto simp: optional_string_def is_string_def js_or_def)

lemma js_or_idem: "js_or (js_or v d) d = js_or v d"
  by (simp add: js_or_def)

lemma trim_strings: "list_all is_string xs \<Longrightarrow> \<exists>ss. those (map trim_value xs) = Some ss"
  by (induction xs) (auto simp: is_string_def trim_value_def split: jsval.splits)

lemma models_typed:
  "v = JUndef \<or> string_array v \<Longrightarrow> \<exists>ms. normalizeAdvancedCustomRouteModels v = Some ms"
  using trim_strings by (cases v) (fastforce simp: string_array_def normalizeAdvancedCustomRouteModels_def)+

text \<open>The fields of a normalized route.\<close>

definition normalized_auth :: "jsval \<Rightarrow> jsval" where
  "normalized_auth au = JObj [(js ''type'', get_prop au (js ''type'')),
     (js ''name'', js_or (get_prop au (js ''name'')) (JStr [])), (js ''value'', js_or (get_prop au (js ''value'')) (JStr []))]"

lemma normalized_auth_fields [simp]:
  "get_prop (normalized_auth au) (js ''type'') = get_prop au (js ''type'')"
  "get_prop (normalized_auth au) (js ''name'') = js_or (get_prop au (js ''name'')) (JStr [])"
  "get_prop (normalized_auth au) (js ''value'') = js_or (get_prop au (js ''value'')) (JStr [])"
  "truthy (normalized_auth au)" "is_object (normalized_auth au)" "normalized_auth au \<noteq> JUndef"
  by (simp_all add: normalized_auth_def get_prop_def js_Cons is_object_def)

definition normalized_route :: "jsval \<Rightarrow> jstring \<Rightarrow> jstring list \<Rightarrow> jsval" where
  "normalized_route r u ms = JObj (
     [(js ''incoming_path'', js_or (get_prop r (js ''incoming_path'')) (JStr [])),
      (js ''upstream_path'', JStr u), (js ''converter'', converter_of r)] @
     (if ms \<noteq> [] then [(js ''models'', JArr (map JStr ms))] else []) @
     (if truthy (get_prop r (js ''auth'')) then [(js ''auth'', normalized_auth (get_prop r (js ''auth'')))] else []))"

lemma normalized_route_fields [simp]:
  "get_prop (normalized_route r u ms) (js ''incoming_path'') = js_or (get_prop r (js ''incoming_path'')) (JStr [])"
  "get_prop (normalized_route r u ms) (js ''upstream_path'') = JStr u"
  "get_prop (normalized_route r u ms) (js ''converter'') = converter_of r"
  "get_prop (normalized_route r u ms) (js ''models'') = (if ms \<noteq> [] then JArr (map JStr ms) else JUndef)"
  "get_prop (normalized_route r u ms) (js ''auth'') =
     (if truthy (get_prop r (js ''auth'')) then normalized_auth (get_prop r (js ''auth'')) else JUndef)"
  "is_object (normalized_route r u ms)" "normalized_route r u ms \<noteq> JUndef" "normalized_route r u ms \<noteq> JNull"
  by (simp_all add: normalized_route_def get_prop_def js_Cons is_object_def)

lemma normalizeAdvancedCustomRoute_eq:
  "normalizeAdvancedCustomRoute r = Some r' \<longleftrightarrow> r \<noteq> JNull \<and> r \<noteq> JUndef \<and>
     (\<exists>u ms. getAdvancedCustomRouteUpstreamPath r = Some u \<and>
        normalizeAdvancedCustomRouteModels (get_prop r (js ''models'')) = Some ms \<and> r' = normalized_route r u ms)"
  unfolding normalizeAdvancedCustomRoute_def normalized_route_def normalized_auth_def converter_of_def Let_def
  by (auto simp: Option.bind_eq_Some_conv)

lemma normalized_fields_fixed:
  assumes "normalizeAdvancedCustomRouteModels v = Some ms"
  shows "normalizeAdvancedCustomRouteModels (if ms \<noteq> [] then JArr (map JStr ms) else JUndef) = Some ms"
proof -
  have a: "those (map trim_value xs) = Some ss \<Longrightarrow> list_all (\<lambda>s. js_trim s = s) ss" for xs ss
    by (induction xs arbitrary: ss) (auto simp: trim_value_def split: jsval.splits option.splits)
  have b: "list_all (\<lambda>s. js_trim s = s \<and> s \<noteq> []) ms"
    using assms a by (cases v) (fastforce simp: normalizeAdvancedCustomRouteModels_def list_all_iff)+
  have "list_all (\<lambda>s. js_trim s = s) ms \<Longrightarrow> those (map trim_value (map JStr ms)) = Some ms"
    by (induction ms) (auto simp: trim_value_def)
  moreover have "filter (\<lambda>m. m \<noteq> []) ms = ms" using b by (auto simp: list_all_iff)
  ultimately show ?thesis using b by (auto simp: normalizeAdvancedCustomRouteModels_def list_all_iff)
qed

lemma upstream_fixed:
  "getAdvancedCustomRouteUpstreamPath r = Some u \<Longrightarrow> js_trim u = u"
  by (auto simp: getAdvancedCustomRouteUpstreamPath_def trim_value_def split: jsval.splits)

lemma normalizeAdvancedCustomRoute_idem:
  assumes "normalizeAdvancedCustomRoute r = Some r'"
  shows "normalizeAdvancedCustomRoute r' = Some r'"
proof -
  obtain u ms where r: "getAdvancedCustomRouteUpstreamPath r = Some u"
      "normalizeAdvancedCustomRouteModels (get_prop r (js ''models'')) = Some ms" and r': "r' = normalized_route r u ms"
    using assms by (auto simp: normalizeAdvancedCustomRoute_eq)
  have "getAdvancedCustomRouteUpstreamPath r' = Some u"
    using upstream_fixed [OF r(1)] r' by (simp add: getAdvancedCustomRouteUpstreamPath_def js_or_def trim_value_def)
  moreover have "normalizeAdvancedCustomRouteModels (get_prop r' (js ''models'')) = Some ms"
    using normalized_fields_fixed [OF r(2)] r' by simp
  moreover have "normalized_auth (normalized_auth au) = normalized_auth au" for au
    unfolding normalized_auth_def [of "normalized_auth au"] normalized_auth_fields js_or_idem
    by (simp add: normalized_auth_def)
  then have "normalized_route r' u ms = r'"
    unfolding r' normalized_route_def [of "normalized_route r u ms"] converter_of_def [of "normalized_route r u ms"]
    by (simp add: js_or_idem converter_of_def) (simp add: normalized_route_def converter_of_def)
  ultimately show ?thesis using r' by (simp add: normalizeAdvancedCustomRoute_eq)
qed

lemma normalizeAdvancedCustomRoute_typed:
  assumes "AdvancedCustomRoute r"
  shows "\<exists>r'. normalizeAdvancedCustomRoute r = Some r' \<and> AdvancedCustomRoute r' \<and> readable_route r'"
proof -
  have t: "is_object r" "optional_string (get_prop r (js ''incoming_path''))" "optional_string (get_prop r (js ''upstream_path''))"
      "optional_choice (map fst ADVANCED_CUSTOM_CONVERTER_OPTIONS) (get_prop r (js ''converter''))"
      "get_prop r (js ''models'') = JUndef \<or> string_array (get_prop r (js ''models''))"
      "get_prop r (js ''auth'') = JUndef \<or> AdvancedCustomRouteAuth (get_prop r (js ''auth''))"
    using assms unfolding AdvancedCustomRoute_def by blast+
  obtain s where s: "js_or (get_prop r (js ''upstream_path'')) (JStr []) = JStr s" using optional_string_or [OF t(3)] by blast
  obtain p where p: "js_or (get_prop r (js ''incoming_path'')) (JStr []) = JStr p" using optional_string_or [OF t(2)] by blast
  obtain ms where ms: "normalizeAdvancedCustomRouteModels (get_prop r (js ''models'')) = Some ms"
    using models_typed [OF t(5)] by blast
  define r' where "r' = normalized_route r (js_trim s) ms"
  have n: "normalizeAdvancedCustomRoute r = Some r'"
    using s ms t(1) by (auto simp: normalizeAdvancedCustomRoute_eq r'_def getAdvancedCustomRouteUpstreamPath_def trim_value_def is_object_def)
  have c: "optional_choice (map fst ADVANCED_CUSTOM_CONVERTER_OPTIONS) (converter_of r)"
    using t(4) by (auto simp: optional_choice_def converter_of_def js_or_def ADVANCED_CUSTOM_CONVERTER_OPTIONS_def)
  have au: "AdvancedCustomRouteAuth (normalized_auth au)" if "AdvancedCustomRouteAuth au" for au
    using that optional_string_or [of "get_prop au (js ''name'')"] optional_string_or [of "get_prop au (js ''value'')"]
    by (auto simp: AdvancedCustomRouteAuth_def optional_string_def is_string_def)
  have "AdvancedCustomRoute r'"
    using t(6) c p au
    by (auto simp: AdvancedCustomRoute_def r'_def optional_string_def is_string_def string_array_def list_all_iff)
  moreover have "readable_route r'"
    using p normalized_fields_fixed [OF ms]
    by (auto simp: readable_route_def incoming_path_of_def r'_def getAdvancedCustomRouteUpstreamPath_def js_or_def trim_value_def
        split: if_splits)
  ultimately show ?thesis using n by blast
qed

lemma normalized_routes_typed:
  assumes "list_all AdvancedCustomRoute rs"
  shows "\<exists>rs'. those (map normalizeAdvancedCustomRoute rs) = Some rs' \<and> list_all AdvancedCustomRoute rs' \<and> list_all readable_route rs'"
  using assms
proof (induction rs)
  case (Cons r rs)
  then obtain r' rs' where "normalizeAdvancedCustomRoute r = Some r'" "AdvancedCustomRoute r'" "readable_route r'"
      "those (map normalizeAdvancedCustomRoute rs) = Some rs'" "list_all AdvancedCustomRoute rs'" "list_all readable_route rs'"
    using normalizeAdvancedCustomRoute_typed [of r] by auto
  then show ?case by simp
qed simp

lemma those_fixed: "those (map f xs) = Some ys \<Longrightarrow> (\<And>x y. f x = Some y \<Longrightarrow> f y = Some y) \<Longrightarrow> those (map f ys) = Some ys"
  by (induction xs arbitrary: ys) (auto split: option.splits)

lemma get_prop_config_object [simp]: "get_prop (config_object_of rs) (js ''advanced_routes'') = JArr rs"
  by (simp add: config_object_of_def get_prop_def)

lemma normalizeAdvancedCustomConfig_idem:
  assumes "normalizeAdvancedCustomConfig c = Some n"
  shows "normalizeAdvancedCustomConfig n = Some n"
proof -
  obtain rs where rs: "normalized_routes c = Some rs" "n = config_object_of rs"
    using assms by (auto simp: normalizeAdvancedCustomConfig_def)
  have "those (map normalizeAdvancedCustomRoute rs) = Some rs"
    using rs(1) those_fixed normalizeAdvancedCustomRoute_idem
    by (auto simp: normalized_routes_def split: jsval.splits)
  then show ?thesis using rs(2) by (simp add: normalizeAdvancedCustomConfig_def normalized_routes_def)
qed

text \<open>A route whose authentication is typed is never a crash of the validation.\<close>

lemma validate_route_typed:
  assumes "AdvancedCustomRoute r" "readable_route r"
  shows "validate_route url i st r \<noteq> Inl Crash"
proof -
  have b: "optional_string v \<Longrightarrow> blank_value v \<noteq> None" for v
    by (cases v) (auto simp: optional_string_def is_string_def blank_value_def trim_value_def)
  have "validateRouteAuth (get_prop r (js ''auth'')) \<noteq> None"
    using assms(1) b [of "get_prop (get_prop r (js ''auth'')) (js ''name'')"] b [of "get_prop (get_prop r (js ''auth'')) (js ''value'')"]
    unfolding AdvancedCustomRoute_def AdvancedCustomRouteAuth_def validateRouteAuth_def Let_def by auto
  then obtain m where "validate_target url (route_path r) (route_upstream r) (converter_of r) (get_prop r (js ''auth'')) = Some m"
    by (force simp: validate_target_def)
  then show ?thesis
    using readable_fields [OF assms(2)] by (auto simp: validate_route_def Let_def split: sum.split)
qed

lemma validate_routes_typed:
  "list_all AdvancedCustomRoute rs \<Longrightarrow> list_all readable_route rs \<Longrightarrow> validate_routes url i st rs \<noteq> Crash"
proof (induction rs arbitrary: i st)
  case (Cons r rs)
  then show ?case using validate_route_typed [of r url i st] by (auto split: sum.split)
qed simp

text \<open>
  C17. Type safety.  A configuration of the declared type is normalized to one of the declared type,
  and its validation ends with an answer and not with a TypeError.
\<close>

theorem AdvancedCustomConfig_type_safe:
  assumes "AdvancedCustomConfig c"
  shows "\<exists>n. normalizeAdvancedCustomConfig c = Some n \<and> AdvancedCustomConfig n \<and>
    validateAdvancedCustomConfig url (Some c) \<noteq> Crash"
proof -
  obtain rs where rs: "normalized_routes c = Some rs" "list_all AdvancedCustomRoute rs" "list_all readable_route rs"
    using assms normalized_routes_typed by (auto simp: AdvancedCustomConfig_def normalized_routes_def split: jsval.splits)
  have "AdvancedCustomConfig (config_object_of rs)"
    using rs(2) by (simp add: AdvancedCustomConfig_def) (simp add: config_object_of_def)
  moreover have "validateAdvancedCustomConfig url (Some c) \<noteq> Crash"
    using rs(1) validate_routes_typed [OF rs(2,3)]
    by (cases rs) (simp_all add: validateAdvancedCustomConfig_def del: validate_routes.simps(2))
  ultimately show ?thesis using rs(1) by (auto simp: normalizeAdvancedCustomConfig_def)
qed

theorem AdvancedCustomConfig_type_safe_witness:
  "\<exists>n. normalizeAdvancedCustomConfig (config_object_of [JObj [(js ''models'', JArr [JStr (js '' gpt-4o '')]),
       (js ''auth'', JObj [(js ''type'', JStr (js ''header''))])]]) = Some n \<and> AdvancedCustomConfig n \<and>
     validateAdvancedCustomConfig (\<lambda>_. None) (Some (config_object_of [JObj [(js ''models'', JArr [JStr (js '' gpt-4o '')]),
       (js ''auth'', JObj [(js ''type'', JStr (js ''header''))])]])) \<noteq> Crash"
  by (rule AdvancedCustomConfig_type_safe)
    (simp add: AdvancedCustomConfig_def AdvancedCustomRoute_def AdvancedCustomRouteAuth_def config_object_of_def
      get_prop_def is_object_def optional_string_def optional_choice_def string_array_def is_string_def js_Cons)

section \<open>Text and configuration\<close>

text \<open>
  What \<open>stringifyAdvancedCustomConfig\<close> writes, \<open>parseAdvancedCustomConfig\<close> reads back as the
  normalized configuration.
\<close>

theorem parse_stringifyAdvancedCustomConfig:
  assumes "normalizeAdvancedCustomConfig c = Some n" "canonical n"
  shows "\<exists>t. stringifyAdvancedCustomConfig c = Some t \<and> parseAdvancedCustomConfig (Some t) = Some n"
proof -
  obtain t where t: "json_stringify 2 n = Some t" "json_parse t = Some n"
    using json_parse_stringify [OF assms(2)] by blast
  obtain es where "n = JObj es" using assms(1) by (auto simp: normalizeAdvancedCustomConfig_def config_object_of_def)
  moreover have "js_trim t \<noteq> []" using json_parse_blank t(2) by auto
  ultimately show ?thesis
    using t assms(1) normalizeAdvancedCustomConfig_idem [OF assms(1)]
    by (auto simp: stringifyAdvancedCustomConfig_def parseAdvancedCustomConfig_def)
qed

lemma createAdvancedCustomConfig_canonical: "canonical createAdvancedCustomConfig"
  by (simp add: createAdvancedCustomConfig_def createAdvancedCustomRoute_def config_object_of_def openAIChatPath_def
      js_Cons unit16_def obj_of_def own_order_def is_index_key_def is_digit_def)

lemma createAdvancedCustomConfig_normal: "normalizeAdvancedCustomConfig createAdvancedCustomConfig = Some createAdvancedCustomConfig"
  by (simp add: normalizeAdvancedCustomConfig_def createAdvancedCustomConfig_def normalized_routes_def config_object_of_def
      normalizeAdvancedCustomRoute_def createAdvancedCustomRoute_def getAdvancedCustomRouteUpstreamPath_def
      normalizeAdvancedCustomRouteModels_def openAIChatPath_def get_prop_def js_or_def trim_value_def js_Cons
      trim_defs is_ws_def)

theorem parse_stringifyAdvancedCustomConfig_witness:
  "\<exists>t. stringifyAdvancedCustomConfig createAdvancedCustomConfig = Some t \<and>
     parseAdvancedCustomConfig (Some t) = Some createAdvancedCustomConfig"
  by (rule parse_stringifyAdvancedCustomConfig [OF createAdvancedCustomConfig_normal createAdvancedCustomConfig_canonical])

text \<open>
  A text may hold values of other types.  \<open>parseAdvancedCustomConfig\<close> accepts a number as the incoming
  path, and the validation and the statistics of the channel card then raise a TypeError.
\<close>

lemma untyped_path_crashes:
  assumes "json_parse t = Some (config_object_of [JObj [(js ''incoming_path'', JNum (Num 5))]])"
  shows "parseAdvancedCustomConfig (Some t) \<noteq> None" "getAdvancedCustomStats url (Some t) = None"
proof -
  define r where "r = JObj [(js ''incoming_path'', JNum (Num 5)), (js ''upstream_path'', JStr []), (js ''converter'', JStr (js ''none''))]"
  have n: "normalizeAdvancedCustomConfig (config_object_of [JObj [(js ''incoming_path'', JNum (Num 5))]]) = Some (config_object_of [r])"
    by (simp add: normalizeAdvancedCustomConfig_def normalized_routes_def r_def config_object_of_def normalizeAdvancedCustomRoute_def
        getAdvancedCustomRouteUpstreamPath_def normalizeAdvancedCustomRouteModels_def get_prop_def js_or_def trim_value_def js_Cons)
  have "js_trim t \<noteq> []" using assms json_parse_blank by auto
  with assms n have p: "parseAdvancedCustomConfig (Some t) = Some (config_object_of [r])"
    by (simp add: parseAdvancedCustomConfig_def config_object_of_def)
  moreover have "getAdvancedCustomRouteSummaryLabel r = None"
    by (simp add: getAdvancedCustomRouteSummaryLabel_def incoming_path_of_def r_def get_prop_def trim_value_def)
  moreover have "normalized_routes (config_object_of [r]) = Some [r]"
    using normalizeAdvancedCustomConfig_idem [OF n]
    by (auto simp: normalizeAdvancedCustomConfig_def config_object_of_def)
  ultimately show "parseAdvancedCustomConfig (Some t) \<noteq> None" "getAdvancedCustomStats url (Some t) = None"
    by (simp_all add: getAdvancedCustomStats_def)
qed

section \<open>What the form proposes is valid\<close>

lemma native_auth_ok: "auth_ok (getAdvancedCustomNativeAuth p)"
  by (simp add: auth_ok_def getAdvancedCustomNativeAuth_def apiKeyHeaderAuth_def geminiQueryAuth_def bearerHeaderAuth_def
      auth_object_def get_prop_def nonblank_string_def js_Cons trim_defs is_ws_def)

lemma fixed_auth_ok: "auth_ok apiKeyHeaderAuth" "auth_ok geminiQueryAuth" "auth_ok bearerHeaderAuth"
  by (simp_all add: auth_ok_def apiKeyHeaderAuth_def geminiQueryAuth_def bearerHeaderAuth_def
      auth_object_def get_prop_def nonblank_string_def js_Cons trim_defs is_ws_def)

lemmas default_auth_defs = apiKeyHeaderAuth_def geminiQueryAuth_def bearerHeaderAuth_def

definition default_auths :: "jsval list" where
  "default_auths = [apiKeyHeaderAuth, geminiQueryAuth, bearerHeaderAuth]"

lemma default_auths_ok: "au \<in> set default_auths \<Longrightarrow> auth_ok au"
  using fixed_auth_ok by (auto simp: default_auths_def)

lemma default_auths_normal: "au \<in> set default_auths \<Longrightarrow> truthy au \<and> normalized_auth au = au"
  by (auto simp: default_auths_def default_auth_defs auth_object_def normalized_auth_def get_prop_def js_or_def js_Cons)

lemma template_route_fields [simp]:
  "get_prop (template_route p u k au) (js ''incoming_path'') = JStr p"
  "get_prop (template_route p u k au) (js ''upstream_path'') = JStr u"
  "get_prop (template_route p u k au) (js ''converter'') = JStr k"
  "get_prop (template_route p u k au) (js ''models'') = JUndef"
  "get_prop (template_route p u k au) (js ''auth'') = au"
  "template_route p u k au \<noteq> JUndef" "template_route p u k au \<noteq> JNull"
  by (simp_all add: template_route_def get_prop_def js_Cons)

lemma template_route_view [simp]:
  "incoming_path_of (template_route p u k au) = Some (js_trim p)"
  "getAdvancedCustomRouteUpstreamPath (template_route p u k au) = Some (js_trim u)"
  "normalizeAdvancedCustomRouteModels JUndef = Some []"
  "k \<noteq> [] \<Longrightarrow> converter_of (template_route p u k au) = JStr k"
  by (simp_all add: incoming_path_of_def getAdvancedCustomRouteUpstreamPath_def normalizeAdvancedCustomRouteModels_def
      converter_of_def js_or_def trim_value_def)

lemma template_route_normal:
  assumes "js_trim u = u" "k \<noteq> []" "au \<in> set default_auths"
  shows "normalizeAdvancedCustomRoute (template_route p u k au) = Some (template_route p u k au)"
  unfolding normalizeAdvancedCustomRoute_eq
  using assms default_auths_normal [OF assms(3)]
  by (simp add: normalized_route_def js_or_def) (simp add: template_route_def)

lemma template_route_ok:
  assumes "js_trim p = p" "js_starts_with p (js ''/'')" "\<not> js_includes p (js ''?'')"
    and "js_trim u = u" "js_starts_with u (js ''/'')" "\<not> js_starts_with u (js ''//'')"
    and "k \<in> set (map fst ADVANCED_CUSTOM_CONVERTER_OPTIONS)" "isConverterPathAllowed p k" "k \<noteq> []"
    and "p = ADVANCED_CUSTOM_MODEL_LIST_PATH \<Longrightarrow> k = js ''none'' \<and> \<not> js_includes u (js ''{model}'')"
    and "au \<in> set default_auths"
  shows "route_ok url (template_route p u k au)"
proof -
  have "isAdvancedCustomConverter (JStr k)"
    using assms(7) by (auto simp: isAdvancedCustomConverter_def list_ex_iff)
  moreover have "route_path (template_route p u k au) = p" "route_upstream (template_route p u k au) = u"
      "route_models (template_route p u k au) = []"
    using assms(1,4) by (simp_all add: route_path_def route_upstream_def route_models_def)
  ultimately show ?thesis
    using assms default_auths_ok slash_not_empty [OF assms(5)]
    by (auto simp add: route_ok_def readable_route_def converter_ok_def isFullHttpURLOrAbsolutePath_def)
qed

lemma routes_valid_iff:
  assumes "rs \<noteq> []" "list_all (\<lambda>r. normalizeAdvancedCustomRoute r = Some r) rs" "distinct (map route_path rs)"
  shows "validateAdvancedCustomConfig url (Some (config_object_of rs)) = Valid \<longleftrightarrow> list_all (route_ok url) rs"
proof -
  have "those (map normalizeAdvancedCustomRoute rs) = Some rs" using assms(2) by (induction rs) auto
  then have n: "normalized_routes (config_object_of rs) = Some rs" by (simp add: normalized_routes_def)
  have "sorted_wrt apart rs" using assms(3) by (induction rs) (auto simp: apart_def)
  then have "validate_routes url 0 initial_validation rs = Valid \<longleftrightarrow> list_all (route_ok url) rs"
    using validate_routes_iff [OF remembers_initial, of url 0 rs] by simp
  with n assms(1) show ?thesis
    by (cases rs) (simp_all add: validateAdvancedCustomConfig_def del: validate_routes.simps(2))
qed

lemmas routes_valid = routes_valid_iff [THEN iffD2]

lemma models_path_native: "isConverterPathAllowed ADVANCED_CUSTOM_MODEL_LIST_PATH k \<Longrightarrow> k = js ''none''"
  by (auto simp: isConverterPathAllowed_def ADVANCED_CUSTOM_MODEL_LIST_PATH_def js_Cons js_eval split: if_splits)

lemma models_path_upstream: "\<not> js_includes ADVANCED_CUSTOM_MODEL_LIST_PATH (js ''{model}'')"
  by (simp add: ADVANCED_CUSTOM_MODEL_LIST_PATH_def js_Cons js_eval)

lemma native_auth_default: "getAdvancedCustomNativeAuth p \<in> set default_auths"
  by (simp add: getAdvancedCustomNativeAuth_def default_auths_def)

lemma default_target:
  assumes "k \<in> set (map fst ADVANCED_CUSTOM_CONVERTER_OPTIONS)" "js_trim p = p" "js_starts_with p (js ''/'')"
    and "d = getAdvancedCustomConverterDefaults k p"
  shows "js_trim (default_upstream_path d) = default_upstream_path d" "js_starts_with (default_upstream_path d) (js ''/'')"
    "default_auth d \<in> set default_auths" "k = js ''none'' \<Longrightarrow> default_upstream_path d = p"
    "js_starts_with (default_upstream_path d) (js ''//'') \<longleftrightarrow> k = js ''none'' \<and> js_starts_with p (js ''//'')"
proof -
  have p: "str_or p q = p" for q using slash_not_empty [OF assms(3)] by (simp add: str_or_def)
  have f: "js_trim q = q \<and> js_starts_with q (js ''/'') \<and> \<not> js_starts_with q (js ''//'')"
    if "q \<in> {openAIChatPath, openAIResponsesPath, claudeMessagesPath, geminiGenerateContentPath}" for q
    using that by (auto simp: openAIChatPath_def openAIResponsesPath_def claudeMessagesPath_def geminiGenerateContentPath_def
        js_Cons trim_defs is_ws_def)
  show n: "default_upstream_path d = p" if "k = js ''none''"
    using that by (simp add: assms(4) getAdvancedCustomConverterDefaults_def assms(2) p Let_def)
  have c: "default_upstream_path d \<in> {openAIChatPath, openAIResponsesPath, claudeMessagesPath, geminiGenerateContentPath}" if "k \<noteq> js ''none''"
    using assms(1) that unfolding assms(4)
    by (auto simp add: getAdvancedCustomConverterDefaults_def ADVANCED_CUSTOM_CONVERTER_OPTIONS_def Let_def)
  show "js_trim (default_upstream_path d) = default_upstream_path d" "js_starts_with (default_upstream_path d) (js ''/'')"
      "js_starts_with (default_upstream_path d) (js ''//'') \<longleftrightarrow> k = js ''none'' \<and> js_starts_with p (js ''//'')"
    using assms(2,3) n f [OF c] by (cases "k = js ''none''"; simp)+
  show "default_auth d \<in> set default_auths"
    using native_auth_default by (simp add: assms(4) getAdvancedCustomConverterDefaults_def assms(2) p default_auths_def Let_def)
qed



definition plain_template :: "jsval \<Rightarrow> bool" where
  "plain_template r \<longleftrightarrow> (\<forall>url. route_ok url r) \<and> normalizeAdvancedCustomRoute r = Some r"

lemma plain_templateI:
  assumes "js_trim p = p" "js_starts_with p (js ''/'')" "\<not> js_includes p (js ''?'')"
    and "js_trim u = u" "js_starts_with u (js ''/'')" "\<not> js_starts_with u (js ''//'')"
    and "k \<in> set (map fst ADVANCED_CUSTOM_CONVERTER_OPTIONS)" "isConverterPathAllowed p k" "k \<noteq> []"
    and "p \<noteq> ADVANCED_CUSTOM_MODEL_LIST_PATH" "au \<in> set default_auths"
  shows "plain_template (template_route p u k au)"
  using template_route_ok [OF assms(1-9) _ assms(11)] template_route_normal [OF assms(4,9,11)] assms(10)
  by (simp add: plain_template_def)

lemmas template_eval = ADVANCED_CUSTOM_CONVERTER_OPTIONS_def isConverterPathAllowed_def
  ADVANCED_CUSTOM_MODEL_LIST_PATH_def default_auths_def js_Cons trim_defs is_ws_def js_eval

lemma templates_plain:
  "list_all (\<lambda>t. list_all plain_template (snd (snd t))) ADVANCED_CUSTOM_TEMPLATE_OPTIONS"
  unfolding ADVANCED_CUSTOM_TEMPLATE_OPTIONS_def list.pred_inject snd_conv
  by (intro conjI TrueI plain_templateI) (simp_all add: template_eval)

lemma templates_apart:
  "list_all (\<lambda>t. snd (snd t) \<noteq> [] \<and> distinct (map route_path (snd (snd t)))) ADVANCED_CUSTOM_TEMPLATE_OPTIONS"
  by (simp add: ADVANCED_CUSTOM_TEMPLATE_OPTIONS_def route_path_def js_Cons trim_defs is_ws_def)

text \<open>Every template is valid, too.\<close>

lemma templates_valid:
  "list_all (\<lambda>t. validateAdvancedCustomConfig url (Some (config_object_of (snd (snd t)))) = Valid) ADVANCED_CUSTOM_TEMPLATE_OPTIONS"
  using templates_plain templates_apart
  unfolding list_all_iff plain_template_def by (auto intro!: routes_valid simp: list_all_iff)

text \<open>The mode of an authentication that was built for a mode.\<close>

lemma auth_mode_roundtrip:
  assumes "mode \<in> set (map fst ADVANCED_CUSTOM_AUTH_MODE_OPTIONS)"
  shows "getAdvancedCustomAuthMode (JObj [(js ''auth'', buildAdvancedCustomAuth mode previousAuth)]) = JStr mode"
  using assms
  by (auto simp: ADVANCED_CUSTOM_AUTH_MODE_OPTIONS_def getAdvancedCustomAuthMode_def buildAdvancedCustomAuth_def get_prop_def
      js_or_def js_Cons Let_def)

end
