(* ===== verification/JS_Regex.thy ===== *)
theory JS_Regex
  imports Prelude
begin

text \<open>
  The regular expressions of the language, as far as the sources use them: character classes,
  sequence, ordered choice, greedy repetition, captures, references to captures, the assertions
  \<open>^\<close>, \<open>$\<close> and \<open>\b\<close>.

  A matcher state is the text before the position, reversed, the text after it, and the captures.
  \<open>matches\<close> lists all ways to match in the order in which the backtracking matcher of the standard
  tries them, so its first element is the match the matcher finds.  A repetition stops at an
  iteration that consumes nothing, as the standard demands; the captures inside a repetition are
  not reset, which makes no difference as no expression of the sources captures inside one.
\<close>

section \<open>Matcher\<close>

datatype re = Eps | Cls "jchar \<Rightarrow> bool" | Seq re re | Alt re re | Star re | Cap nat re | Ref nat
  | AtStart | AtEnd | WordBound

type_synonym re_captures = "nat \<rightharpoonup> jstring"
type_synonym re_state = "jstring \<times> jstring \<times> re_captures"

definition re_rest :: "re_state \<Rightarrow> jstring" where "re_rest st = fst (snd st)"
definition re_caps :: "re_state \<Rightarrow> re_captures" where "re_caps st = snd (snd st)"

definition is_word :: "jchar \<Rightarrow> bool" where
  "is_word c \<longleftrightarrow> 48 \<le> c \<and> c \<le> 57 \<or> 65 \<le> c \<and> c \<le> 90 \<or> 97 \<le> c \<and> c \<le> 122 \<or> c = 95"

definition word_at :: "jstring \<Rightarrow> bool" where
  "word_at s = (case s of [] \<Rightarrow> False | c # _ \<Rightarrow> is_word c)"

text \<open>Repetition; at most as many iterations as there are characters left.\<close>

fun star_iter :: "(re_state \<Rightarrow> re_state list) \<Rightarrow> nat \<Rightarrow> re_state \<Rightarrow> re_state list" where
  "star_iter f 0 st = [st]"
| "star_iter f (Suc n) st =
     concat (map (star_iter f n) (filter (\<lambda>st'. length (re_rest st') < length (re_rest st)) (f st))) @ [st]"

definition advance :: "jstring \<Rightarrow> re_state \<Rightarrow> re_state list" where
  "advance w st = (case st of (l, r, c) \<Rightarrow>
     if js_starts_with r w then [(rev w @ l, drop (length w) r, c)] else [])"

primrec matches :: "re \<Rightarrow> re_state \<Rightarrow> re_state list" where
  "matches Eps st = [st]"
| "matches (Cls p) st = (case st of (l, x # r, c) \<Rightarrow> if p x then [(x # l, r, c)] else [] | _ \<Rightarrow> [])"
| "matches (Seq a b) st = concat (map (matches b) (matches a st))"
| "matches (Alt a b) st = matches a st @ matches b st"
| "matches (Star a) st = star_iter (matches a) (length (re_rest st)) st"
| "matches (Cap n a) st =
     map (\<lambda>st'. (fst st', re_rest st',
         (re_caps st')(n \<mapsto> take (length (re_rest st) - length (re_rest st')) (re_rest st)))) (matches a st)"
| "matches (Ref n) st = (case re_caps st n of None \<Rightarrow> [st] | Some w \<Rightarrow> advance w st)"
| "matches AtStart st = (if fst st = [] then [st] else [])"
| "matches AtEnd st = (if re_rest st = [] then [st] else [])"
| "matches WordBound st = (if word_at (fst st) \<noteq> word_at (re_rest st) then [st] else [])"

text \<open>\<open>s.match(r)\<close> of an expression without the flag \<open>g\<close>, from a position on.\<close>

fun re_search :: "re \<Rightarrow> jstring \<Rightarrow> jstring \<Rightarrow> re_state option" where
  "re_search r l s = (case matches r (l, s, Map.empty) of
     st # _ \<Rightarrow> Some st
   | [] \<Rightarrow> (case s of [] \<Rightarrow> None | x # s' \<Rightarrow> re_search r (x # l) s'))"

declare re_search.simps [simp del]

definition re_match :: "re \<Rightarrow> jstring \<Rightarrow> re_captures option" where
  "re_match r s = map_option re_caps (re_search r [] s)"

text \<open>
  The loop \<open>while ((m = r.exec(s)) !== null)\<close> of an expression with the flag \<open>g\<close>: the captures of
  all its rounds.  An empty match does not move \<open>lastIndex\<close>, so the loop never ends; then the result
  is \<open>None\<close>.
\<close>

function re_exec_all :: "re \<Rightarrow> jstring \<Rightarrow> jstring \<Rightarrow> re_captures list option" where
  "re_exec_all r l s = (case re_search r l s of
     None \<Rightarrow> Some []
   | Some st \<Rightarrow> if length (re_rest st) < length s
       then map_option (\<lambda>ms. re_caps st # ms) (re_exec_all r (fst st) (re_rest st))
       else None)"
  by pat_completeness auto
termination by (relation "measure (\<lambda>(r, l, s). length s)") auto

declare re_exec_all.simps [simp del]

section \<open>Derived forms\<close>

definition lit :: "jstring \<Rightarrow> re" where
  "lit w = foldr (\<lambda>x r. Seq (Cls (\<lambda>y. y = x)) r) w Eps"

definition re_plus :: "re \<Rightarrow> re" where "re_plus a = Seq a (Star a)"
definition opt :: "re \<Rightarrow> re" where "opt a = Alt a Eps"
definition seqs :: "re list \<Rightarrow> re" where "seqs rs = foldr Seq rs Eps"

fun alts :: "re list \<Rightarrow> re" where
  "alts [] = Cls (\<lambda>_. False)"
| "alts [a] = a"
| "alts (a # as) = Alt a (alts as)"

definition ws_star :: re where "ws_star = Star (Cls is_ws)"

text \<open>\<open>^...$\<close>\<close>

definition anchored :: "re list \<Rightarrow> re" where
  "anchored rs = Seq AtStart (Seq (seqs rs) AtEnd)"

section \<open>What a match consumes\<close>

text \<open>Every match consumes a prefix of the text and moves it to the text before the position.\<close>

definition consumes :: "re_state \<Rightarrow> re_state \<Rightarrow> jstring \<Rightarrow> bool" where
  "consumes st st' w \<longleftrightarrow> re_rest st = w @ re_rest st' \<and> fst st' = rev w @ fst st"

lemma consumes_refl: "consumes st st []"
  by (simp add: consumes_def)

lemma consumes_trans: "consumes st st' v \<Longrightarrow> consumes st' st'' w \<Longrightarrow> consumes st st'' (v @ w)"
  by (auto simp: consumes_def)

lemma star_iter_consumes:
  "(\<And>st st'. st' \<in> set (f st) \<Longrightarrow> \<exists>w. consumes st st' w) \<Longrightarrow> st' \<in> set (star_iter f n st) \<Longrightarrow> \<exists>w. consumes st st' w"
proof (induction n arbitrary: st)
  case (Suc n)
  show ?case
  proof (cases "st' = st")
    case False
    then obtain m where "m \<in> set (f st)" "st' \<in> set (star_iter f n m)" using Suc.prems(2) by auto
    then show ?thesis using Suc.prems(1) Suc.IH [OF Suc.prems(1)] consumes_trans by meson
  qed (use consumes_refl in blast)
next
  case 0
  then have "st' = st" by simp
  then show ?case using consumes_refl by blast
qed

lemma matches_consumes: "st' \<in> set (matches a st) \<Longrightarrow> \<exists>w. consumes st st' w"
proof (induction a arbitrary: st st')
  case (Seq a b)
  then obtain m where "m \<in> set (matches a st)" "st' \<in> set (matches b m)" by auto
  then show ?case using Seq.IH consumes_trans by meson
next
  case (Star a)
  then show ?case using star_iter_consumes [of "matches a"] by auto
next
  case (Cap n a)
  then obtain m where "m \<in> set (matches a st)" "fst st' = fst m" "re_rest st' = re_rest m"
    by (auto simp: re_rest_def)
  then show ?case using Cap.IH by (auto simp: consumes_def)
next
  case (Ref n)
  then show ?case
    by (cases st) (auto simp: advance_def consumes_def re_rest_def js_starts_with_prefix split: option.splits if_splits)
next
  case (Cls p)
  then show ?case by (cases st) (auto simp: consumes_def re_rest_def split: list.splits if_splits)
qed (auto split: if_splits intro: consumes_refl)

lemma matches_Cap:
  "(l', r', c') \<in> set (matches (Cap n a) (l, r, c)) \<longleftrightarrow>
   (\<exists>w c0. (l', r', c0) \<in> set (matches a (l, r, c)) \<and> r = w @ r' \<and> l' = rev w @ l \<and> c' = c0(n \<mapsto> w))"
proof
  assume "(l', r', c') \<in> set (matches (Cap n a) (l, r, c))"
  then obtain c0 where m: "(l', r', c0) \<in> set (matches a (l, r, c))" "c' = c0(n \<mapsto> take (length r - length r') r)"
    by (auto simp: re_rest_def re_caps_def)
  obtain w where "r = w @ r'" "l' = rev w @ l" using matches_consumes [OF m(1)] by (auto simp: consumes_def re_rest_def)
  with m show "\<exists>w c0. (l', r', c0) \<in> set (matches a (l, r, c)) \<and> r = w @ r' \<and> l' = rev w @ l \<and> c' = c0(n \<mapsto> w)"
    by auto
next
  assume "\<exists>w c0. (l', r', c0) \<in> set (matches a (l, r, c)) \<and> r = w @ r' \<and> l' = rev w @ l \<and> c' = c0(n \<mapsto> w)"
  then show "(l', r', c') \<in> set (matches (Cap n a) (l, r, c))"
    by (force simp: re_rest_def re_caps_def)
qed

lemma matches_Seq:
  "st' \<in> set (matches (Seq a b) st) \<longleftrightarrow>
   (\<exists>l r c. (l, r, c) \<in> set (matches a st) \<and> st' \<in> set (matches b (l, r, c)))"
  by (auto simp: Bex_def split_paired_Ex)

lemma matches_lit: "matches (lit w) st = advance w st"
proof (induction w arbitrary: st)
  case (Cons x w)
  show ?case using Cons by (cases st) (auto simp: lit_def advance_def split: list.split)
qed (auto simp: lit_def advance_def)

text \<open>The greedy repetition of a class, longest match first.\<close>

lemma star_iter_Cls:
  "length r \<le> n \<Longrightarrow> star_iter (matches (Cls p)) n (l, r, c) =
     map (\<lambda>k. (rev (take k r) @ l, drop k r, c)) (rev [0..<Suc (length (takeWhile p r))])"
proof (induction n arbitrary: l r)
  case (Suc n)
  show ?case
  proof (cases r)
    case (Cons x xs)
    show ?thesis
    proof (cases "p x")
      case True
      have "star_iter (matches (Cls p)) (Suc n) (l, r, c) = star_iter (matches (Cls p)) n (x # l, xs, c) @ [(l, r, c)]"
        using True Cons by (simp add: re_rest_def)
      also have "\<dots> = map (\<lambda>k. (rev (take k xs) @ x # l, drop k xs, c)) (rev [0..<Suc (length (takeWhile p xs))]) @ [(l, r, c)]"
        using Suc.IH [of xs "x # l"] Suc.prems Cons by (simp del: matches.simps upt_Suc)
      also have "map (\<lambda>k. (rev (take k xs) @ x # l, drop k xs, c)) (rev [0..<Suc (length (takeWhile p xs))]) =
          map (\<lambda>k. (rev (take k r) @ l, drop k r, c)) (rev (map Suc [0..<Suc (length (takeWhile p xs))]))"
        using Cons by (simp add: rev_map o_def del: upt_Suc)
      also have "rev (map Suc [0..<Suc (length (takeWhile p xs))]) = rev [1..<Suc (length (takeWhile p r))]"
        using Cons True by (simp add: map_Suc_upt del: upt_Suc)
      also have "map (\<lambda>k. (rev (take k r) @ l, drop k r, c)) (rev [1..<Suc (length (takeWhile p r))]) @ [(l, r, c)] =
          map (\<lambda>k. (rev (take k r) @ l, drop k r, c)) (rev [0..<Suc (length (takeWhile p r))])"
        by (simp add: upt_conv_Cons [of 0] del: upt_Suc)
      finally show ?thesis .
    qed (use Cons in \<open>simp add: re_rest_def\<close>)
  qed (simp add: re_rest_def)
qed simp

lemma matches_Star_Cls:
  "matches (Star (Cls p)) (l, r, c) =
     map (\<lambda>k. (rev (take k r) @ l, drop k r, c)) (rev [0..<Suc (length (takeWhile p r))])"
  using star_iter_Cls [of r "length r"] by (simp add: re_rest_def del: upt_Suc)

section \<open>The declarative reading\<close>

text \<open>
  \<open>lang a c w c'\<close>: the expression, started with the captures \<open>c\<close>, matches the text \<open>w\<close> and ends with
  the captures \<open>c'\<close>.  Assertions look at the text around \<open>w\<close> and have no such reading.
\<close>

inductive star_lang :: "(re_captures \<Rightarrow> jstring \<Rightarrow> re_captures \<Rightarrow> bool) \<Rightarrow> re_captures \<Rightarrow> jstring \<Rightarrow> re_captures \<Rightarrow> bool"
  for L :: "re_captures \<Rightarrow> jstring \<Rightarrow> re_captures \<Rightarrow> bool" where
  star_lang_Nil: "star_lang L c [] c"
| star_lang_append: "L c u m \<Longrightarrow> u \<noteq> [] \<Longrightarrow> star_lang L m v c' \<Longrightarrow> star_lang L c (u @ v) c'"

primrec lang :: "re \<Rightarrow> re_captures \<Rightarrow> jstring \<Rightarrow> re_captures \<Rightarrow> bool" where
  "lang Eps c w c' = (w = [] \<and> c' = c)"
| "lang (Cls p) c w c' = (\<exists>x. w = [x] \<and> p x \<and> c' = c)"
| "lang (Seq a b) c w c' = (\<exists>u v m. w = u @ v \<and> lang a c u m \<and> lang b m v c')"
| "lang (Alt a b) c w c' = (lang a c w c' \<or> lang b c w c')"
| "lang (Star a) c w c' = star_lang (lang a) c w c'"
| "lang (Cap n a) c w c' = (\<exists>m. lang a c w m \<and> c' = m(n \<mapsto> w))"
| "lang (Ref n) c w c' = (c' = c \<and> (case c n of None \<Rightarrow> w = [] | Some x \<Rightarrow> w = x))"
| "lang AtStart c w c' = False"
| "lang AtEnd c w c' = False"
| "lang WordBound c w c' = False"

primrec context_free :: "re \<Rightarrow> bool" where
  "context_free Eps = True"
| "context_free (Cls p) = True"
| "context_free (Seq a b) = (context_free a \<and> context_free b)"
| "context_free (Alt a b) = (context_free a \<and> context_free b)"
| "context_free (Star a) = context_free a"
| "context_free (Cap n a) = context_free a"
| "context_free (Ref n) = True"
| "context_free AtStart = False"
| "context_free AtEnd = False"
| "context_free WordBound = False"

definition reads_as :: "(re_state \<Rightarrow> re_state list) \<Rightarrow> (re_captures \<Rightarrow> jstring \<Rightarrow> re_captures \<Rightarrow> bool) \<Rightarrow> bool" where
  "reads_as f L \<longleftrightarrow> (\<forall>l r c l' r' c'. (l', r', c') \<in> set (f (l, r, c)) \<longleftrightarrow> (\<exists>w. r = w @ r' \<and> l' = rev w @ l \<and> L c w c'))"

lemma reads_asD:
  "reads_as f L \<Longrightarrow> (l', r', c') \<in> set (f (l, r, c)) \<longleftrightarrow> (\<exists>w. r = w @ r' \<and> l' = rev w @ l \<and> L c w c')"
  unfolding reads_as_def by blast

lemma reads_as_star:
  assumes "reads_as f L"
  shows "length r \<le> n \<Longrightarrow> (l', r', c') \<in> set (star_iter f n (l, r, c)) \<longleftrightarrow>
    (\<exists>w. r = w @ r' \<and> l' = rev w @ l \<and> star_lang L c w c')"
proof (induction n arbitrary: l r c)
  case 0
  then show ?case by (auto intro: star_lang_Nil elim: star_lang.cases)
next
  case (Suc n)
  show ?case
  proof
    assume "(l', r', c') \<in> set (star_iter f (Suc n) (l, r, c))"
    then consider "(l', r', c') = (l, r, c)"
      | l1 r1 c1 where "(l1, r1, c1) \<in> set (f (l, r, c))" "length r1 < length r" "(l', r', c') \<in> set (star_iter f n (l1, r1, c1))"
      by (auto simp: re_rest_def)
    then show "\<exists>w. r = w @ r' \<and> l' = rev w @ l \<and> star_lang L c w c'"
    proof cases
      case 1
      then show ?thesis by (auto intro: star_lang_Nil)
    next
      case 2
      obtain u where u: "r = u @ r1" "l1 = rev u @ l" "L c u c1" using 2(1) reads_asD [OF assms] by blast
      obtain v where v: "r1 = v @ r'" "l' = rev v @ l1" "star_lang L c1 v c'"
        using Suc.IH [of r1 l1 c1] 2(2,3) Suc.prems by auto
      have "u \<noteq> []" using u(1) 2(2) by auto
      then have "star_lang L c (u @ v) c'" using u(3) v(3) by (intro star_lang_append)
      then show ?thesis using u v by (intro exI [of _ "u @ v"]) simp
    qed
  next
    assume "\<exists>w. r = w @ r' \<and> l' = rev w @ l \<and> star_lang L c w c'"
    then obtain w where w: "r = w @ r'" "l' = rev w @ l" "star_lang L c w c'" by blast
    from w(3) show "(l', r', c') \<in> set (star_iter f (Suc n) (l, r, c))"
    proof cases
      case star_lang_Nil
      then show ?thesis using w by simp
    next
      case (star_lang_append u m v)
      have "(rev u @ l, v @ r', m) \<in> set (f (l, r, c))"
        using reads_asD [OF assms] w(1) star_lang_append(1,2) by auto
      moreover have "(l', r', c') \<in> set (star_iter f n (rev u @ l, v @ r', m))"
      proof -
        have "0 < length u" using star_lang_append(3) by blast
        moreover have "length u + length (v @ r') \<le> Suc n" using star_lang_append(1) w(1) Suc.prems by simp
        ultimately have "length (v @ r') \<le> n" by linarith
        then show ?thesis using Suc.IH [of "v @ r'" "rev u @ l" m] star_lang_append w by auto
      qed
      moreover have "length (v @ r') < length r" using star_lang_append(1,3) w(1) by simp
      ultimately show ?thesis by (force simp: re_rest_def)
    qed
  qed
qed

text \<open>The matcher finds exactly the matches of the declarative reading.\<close>

theorem matches_lang:
  "context_free a \<Longrightarrow> (l', r', c') \<in> set (matches a (l, r, c)) \<longleftrightarrow> (\<exists>w. r = w @ r' \<and> l' = rev w @ l \<and> lang a c w c')"
proof (induction a arbitrary: l r c l' r' c')
  case (Cls p)
  then show ?case by (auto split: list.splits)
next
  case (Seq a b)
  have "(l', r', c') \<in> set (matches (Seq a b) (l, r, c)) \<longleftrightarrow>
      (\<exists>l1 r1 c1. (l1, r1, c1) \<in> set (matches a (l, r, c)) \<and> (l', r', c') \<in> set (matches b (l1, r1, c1)))"
    by (rule matches_Seq)
  also have "\<dots> \<longleftrightarrow> (\<exists>u v m. r = u @ v @ r' \<and> l' = rev v @ rev u @ l \<and> lang a c u m \<and> lang b m v c')"
    using Seq by auto
  also have "\<dots> \<longleftrightarrow> (\<exists>w. r = w @ r' \<and> l' = rev w @ l \<and> lang (Seq a b) c w c')"
    by (force simp del: append_assoc simp: append_assoc [symmetric])
  finally show ?case .
next
  case (Star a)
  then have "reads_as (matches a) (lang a)" unfolding reads_as_def by simp
  then show ?case using reads_as_star [of "matches a" "lang a" r "length r"] by (simp add: re_rest_def)
next
  case (Cap n a)
  then show ?case unfolding matches_Cap by auto
next
  case (Ref n)
  then show ?case by (auto simp: advance_def re_caps_def js_starts_with_prefix split: option.splits)
qed auto

lemma lang_lit [simp]: "lang (lit x) c w c' \<longleftrightarrow> w = x \<and> c' = c"
  by (induction x arbitrary: w) (auto simp: lit_def)

lemma star_lang_Cls: "star_lang (lang (Cls p)) c w c' \<longleftrightarrow> (\<forall>x \<in> set w. p x) \<and> c' = c"
proof
  assume "star_lang (lang (Cls p)) c w c'"
  then show "(\<forall>x \<in> set w. p x) \<and> c' = c" by (induction rule: star_lang.induct) auto
next
  assume "(\<forall>x \<in> set w. p x) \<and> c' = c"
  then have "(\<forall>x \<in> set w. p x)" "c' = c" by auto
  then show "star_lang (lang (Cls p)) c w c'"
  proof (induction w)
    case (Cons x w)
    then have "star_lang (lang (Cls p)) c w c" "lang (Cls p) c [x] c" by (auto simp del: lang.simps) auto
    then show ?case using star_lang_append [of "lang (Cls p)" c "[x]" c w c] Cons.prems by (simp del: lang.simps)
  qed (auto intro: star_lang_Nil)
qed

lemma lang_Star_Cls [simp]: "lang (Star (Cls p)) c w c' \<longleftrightarrow> (\<forall>x \<in> set w. p x) \<and> c' = c"
  using star_lang_Cls [of p] by simp

lemma lang_plus_Cls [simp]: "lang (re_plus (Cls p)) c w c' \<longleftrightarrow> w \<noteq> [] \<and> (\<forall>x \<in> set w. p x) \<and> c' = c"
  unfolding re_plus_def lang.simps(3) lang_Star_Cls by (cases w) (auto, metis append_Cons append_Nil)

lemma lang_opt [simp]: "lang (opt a) c w c' \<longleftrightarrow> lang a c w c' \<or> w = [] \<and> c' = c"
  by (simp add: opt_def)

lemma lang_alts: "as \<noteq> [] \<Longrightarrow> lang (alts as) c w c' \<longleftrightarrow> (\<exists>a \<in> set as. lang a c w c')"
  by (induction as rule: alts.induct) auto

lemma lang_seqs_Nil [simp]: "lang (seqs []) c w c' \<longleftrightarrow> w = [] \<and> c' = c"
  by (simp add: seqs_def)

lemma lang_seqs_Cons [simp]: "lang (seqs (a # as)) c w c' \<longleftrightarrow> (\<exists>u v m. w = u @ v \<and> lang a c u m \<and> lang (seqs as) m v c')"
  by (simp add: seqs_def)

lemma context_free_derived [simp]:
  "context_free (lit x)" "context_free (re_plus a) = context_free a" "context_free (opt a) = context_free a"
  "context_free (seqs as) = list_all context_free as" "context_free (alts as) = list_all context_free as"
proof -
  show "context_free (lit x)" by (induction x) (simp_all add: lit_def)
  show "context_free (re_plus a) = context_free a" by (simp add: re_plus_def)
  show "context_free (opt a) = context_free a" by (simp add: opt_def)
  show "context_free (seqs as) = list_all context_free as" by (induction as) (simp_all add: seqs_def)
  show "context_free (alts as) = list_all context_free as" by (induction as rule: alts.induct) simp_all
qed

section \<open>Anchored expressions\<close>

text \<open>The captures of all ways to match a whole text.\<close>

definition full_captures :: "re list \<Rightarrow> jstring \<Rightarrow> re_captures set" where
  "full_captures rs s = {c. \<exists>l. (l, [], c) \<in> set (matches (seqs rs) ([], s, Map.empty))}"

lemma re_search_started: "l \<noteq> [] \<Longrightarrow> re_search (Seq AtStart r) l s = None"
proof (induction s arbitrary: l)
  case Nil
  then show ?case by (subst re_search.simps) simp
next
  case (Cons x s)
  then show ?case by (subst re_search.simps) simp
qed

lemma re_match_anchored:
  "re_match (anchored rs) s =
     (case filter (\<lambda>st. re_rest st = []) (matches (seqs rs) ([], s, Map.empty)) of
        [] \<Rightarrow> None | st # _ \<Rightarrow> Some (re_caps st))"
proof -
  have "concat (map (matches AtEnd) ms) = filter (\<lambda>st. re_rest st = []) ms" for ms
    by (induction ms) auto
  then have "matches (anchored rs) ([], s, Map.empty) =
      filter (\<lambda>st. re_rest st = []) (matches (seqs rs) ([], s, Map.empty))"
    by (simp add: anchored_def del: matches.simps(9))
  then show ?thesis
    unfolding re_match_def re_search.simps [of "anchored rs" "[]"]
    using re_search_started [of _ "Seq (seqs rs) AtEnd"]
    by (auto simp: anchored_def split: list.split)
qed

lemma re_match_anchored_None: "re_match (anchored rs) s = None \<longleftrightarrow> full_captures rs s = {}"
proof -
  have "re_match (anchored rs) s = None \<longleftrightarrow> filter (\<lambda>st. re_rest st = []) (matches (seqs rs) ([], s, Map.empty)) = []"
    unfolding re_match_anchored by (auto split: list.split)
  then show ?thesis by (auto simp: full_captures_def filter_empty_conv re_rest_def)
qed

lemma re_match_anchored_Some:
  assumes "re_match (anchored rs) s = Some c"
  shows "c \<in> full_captures rs s"
proof -
  define ms where "ms = filter (\<lambda>st. re_rest st = []) (matches (seqs rs) ([], s, Map.empty))"
  obtain st sts where ms: "ms = st # sts" and c: "c = re_caps st"
    using assms unfolding re_match_anchored ms_def [symmetric] by (auto split: list.splits)
  have "st \<in> set ms" using ms by simp
  then have "st \<in> set (matches (seqs rs) ([], s, Map.empty))" "re_rest st = []" by (auto simp: ms_def)
  moreover obtain l r d where "st = (l, r, d)" by (cases st)
  ultimately show ?thesis using c by (auto simp: full_captures_def re_rest_def re_caps_def)
qed

lemma re_match_anchored_unique:
  assumes "c \<in> full_captures rs s" "\<And>c'. c' \<in> full_captures rs s \<Longrightarrow> c' = c"
  shows "re_match (anchored rs) s = Some c"
proof (cases "re_match (anchored rs) s")
  case None
  then show ?thesis using assms(1) re_match_anchored_None by blast
next
  case (Some d)
  then show ?thesis using assms(2) re_match_anchored_Some by blast
qed

lemma full_captures_lang:
  "list_all context_free rs \<Longrightarrow> c \<in> full_captures rs s \<longleftrightarrow> lang (seqs rs) Map.empty s c"
  unfolding full_captures_def using matches_lang [of "seqs rs"] by simp

declare matches.simps [simp del] lang.simps(5) [simp del]

section \<open>The match that is found\<close>

text \<open>The first success of the matcher, and how it is composed.\<close>

definition best :: "re \<Rightarrow> re_state \<Rightarrow> re_state option" where
  "best a st = (case matches a st of [] \<Rightarrow> None | x # _ \<Rightarrow> Some x)"

lemma best_None: "best a st = None \<longleftrightarrow> matches a st = []"
  by (simp add: best_def split: list.split)

lemma concat_first:
  "(\<And>y. y \<in> set ys \<Longrightarrow> f y = []) \<Longrightarrow> f x = z # zs \<Longrightarrow> concat (map f (ys @ x # ws)) = z # zs @ concat (map f ws)"
  by (induction ys) auto

lemma best_Seq_skip:
  assumes "matches a st = ys @ x # zs" "\<And>y. y \<in> set ys \<Longrightarrow> matches b y = []" "best b x = Some z"
  shows "best (Seq a b) st = Some z"
proof -
  obtain zs' where "matches b x = z # zs'" using assms(3) by (auto simp: best_def split: list.splits)
  then have "concat (map (matches b) (ys @ x # zs)) = z # zs' @ concat (map (matches b) zs)"
    using assms(2) by (intro concat_first)
  then have "matches (Seq a b) st = z # zs' @ concat (map (matches b) zs)" unfolding matches.simps assms(1) .
  then show ?thesis by (simp add: best_def)
qed

lemma best_Seq: "best a st = Some x \<Longrightarrow> best b x = Some z \<Longrightarrow> best (Seq a b) st = Some z"
proof -
  assume a: "best a st = Some x" and b: "best b x = Some z"
  obtain xs where "matches a st = [] @ x # xs" using a by (auto simp: best_def split: list.splits)
  then show ?thesis using best_Seq_skip [of a st "[]" x xs b z] b by simp
qed

lemma seqs_Cons: "seqs (a # as) = Seq a (seqs as)"
  by (simp add: seqs_def)

lemma best_seqs: "best a st = Some x \<Longrightarrow> best (seqs as) x = Some z \<Longrightarrow> best (seqs (a # as)) st = Some z"
  by (simp add: seqs_Cons best_Seq)

lemma best_seqs_skip:
  "matches a st = ys @ x # zs \<Longrightarrow> (\<And>y. y \<in> set ys \<Longrightarrow> matches (seqs as) y = []) \<Longrightarrow> best (seqs as) x = Some z \<Longrightarrow>
   best (seqs (a # as)) st = Some z"
  unfolding seqs_Cons by (rule best_Seq_skip)

lemma best_seqs_Nil: "best (seqs []) st = Some st"
  by (simp add: best_def seqs_def matches.simps)

lemma best_lit: "best (lit w) (l, w @ r, c) = Some (rev w @ l, r, c)"
  by (simp add: best_def matches_lit advance_def js_starts_with_prefix)

lemma matches_lit_fail: "\<not> js_starts_with r w \<Longrightarrow> matches (lit w) (l, r, c) = []"
  by (simp add: matches_lit advance_def)

lemma best_Star_Cls:
  assumes "\<forall>x \<in> set u. p x" "r = [] \<or> \<not> p (hd r)"
  shows "best (Star (Cls p)) (l, u @ r, c) = Some (rev u @ l, r, c)"
proof -
  have "takeWhile p (u @ r) = u" using assms by (cases r) (auto simp: takeWhile_append)
  then show ?thesis by (simp add: best_def matches_Star_Cls)
qed

lemma best_plus_Cls:
  assumes "u \<noteq> []" "\<forall>x \<in> set u. p x" "r = [] \<or> \<not> p (hd r)"
  shows "best (re_plus (Cls p)) (l, u @ r, c) = Some (rev u @ l, r, c)"
proof -
  obtain x v where u: "u = x # v" using assms(1) by (cases u) auto
  have "best (Cls p) (l, u @ r, c) = Some (x # l, v @ r, c)" using assms(2) u by (simp add: best_def matches.simps)
  moreover have "best (Star (Cls p)) (x # l, v @ r, c) = Some (rev v @ x # l, r, c)"
    using assms(2,3) u by (intro best_Star_Cls) auto
  ultimately show ?thesis unfolding re_plus_def using u by (simp add: best_Seq)
qed

lemma best_Cap:
  assumes "best a (l, w @ r, c) = Some (rev w @ l, r, c')"
  shows "best (Cap n a) (l, w @ r, c) = Some (rev w @ l, r, c'(n \<mapsto> w))"
  using assms by (auto simp: best_def matches.simps re_rest_def re_caps_def split: list.splits)

lemma best_opt: "best a st = Some x \<Longrightarrow> best (opt a) st = Some x"
  by (auto simp: best_def opt_def matches.simps split: list.splits)

lemma best_opt_none: "matches a st = [] \<Longrightarrow> best (opt a) st = Some st"
  by (simp add: best_def opt_def matches.simps)

lemma star_iter_fuel: "length (re_rest st) \<le> n \<Longrightarrow> star_iter f n st = star_iter f (length (re_rest st)) st"
proof (induction n arbitrary: st rule: less_induct)
  case (less n)
  show ?case
  proof (cases "length (re_rest st)")
    case 0
    then have "filter (\<lambda>st'. length (re_rest st') < length (re_rest st)) xs = []" for xs by simp
    then show ?thesis using 0 by (cases n) simp_all
  next
    case (Suc k)
    then obtain m where n: "n = Suc m" using less.prems by (cases n) auto
    have "star_iter f m y = star_iter f k y" if "length (re_rest y) < length (re_rest st)" for y
      using less.IH [of m y] less.IH [of k y] that Suc n less.prems by simp
    then have "map (star_iter f m) (filter (\<lambda>st'. length (re_rest st') < length (re_rest st)) (f st)) =
        map (star_iter f k) (filter (\<lambda>st'. length (re_rest st') < length (re_rest st)) (f st))" by simp
    then show ?thesis unfolding n Suc star_iter.simps by (simp only: Suc)
  qed
qed

lemma best_Star_stop: "matches a st = [] \<Longrightarrow> best (Star a) st = Some st"
  by (cases "length (re_rest st)") (simp_all add: best_def matches.simps)

lemma best_Star_step:
  assumes "best a st = Some x" "length (re_rest x) < length (re_rest st)" "best (Star a) x = Some z"
  shows "best (Star a) st = Some z"
proof -
  obtain xs where m: "matches a st = x # xs" using assms(1) by (auto simp: best_def split: list.splits)
  obtain k where k: "length (re_rest st) = Suc k" using assms(2) by (cases "length (re_rest st)") auto
  obtain zs where "star_iter (matches a) (length (re_rest x)) x = z # zs" using assms(3) by (auto simp: best_def matches.simps split: list.splits)
  then have "star_iter (matches a) k x = z # zs" using star_iter_fuel [of x k "matches a"] assms(2) k by simp
  then show ?thesis using m assms(2) by (simp add: best_def matches.simps k)
qed

section \<open>Searching\<close>

lemma re_search_here: "best r (l, s, Map.empty) = Some st \<Longrightarrow> re_search r l s = Some st"
  by (subst re_search.simps) (auto simp: best_def split: list.splits)

lemma re_search_skip: "matches r (l, x # s, Map.empty) = [] \<Longrightarrow> re_search r l (x # s) = re_search r (x # l) s"
  by (subst re_search.simps) simp

lemma re_search_end: "matches r (l, [], Map.empty) = [] \<Longrightarrow> re_search r l [] = None"
  by (subst re_search.simps) simp

lemma re_exec_all_step:
  assumes "re_search r l s = Some (l', s', c)" "length s' < length s"
  shows "re_exec_all r l s = map_option (\<lambda>ms. c # ms) (re_exec_all r l' s')"
  using assms by (subst re_exec_all.simps) (simp add: re_rest_def re_caps_def)

lemma re_exec_all_none: "re_search r l s = None \<Longrightarrow> re_exec_all r l s = Some []"
  by (subst re_exec_all.simps) simp

text \<open>An expression that always consumes something, and the end of the loop over its matches.\<close>

primrec consuming :: "re \<Rightarrow> bool" where
  "consuming Eps = False"
| "consuming (Cls p) = True"
| "consuming (Seq a b) = (consuming a \<or> consuming b)"
| "consuming (Alt a b) = (consuming a \<and> consuming b)"
| "consuming (Star a) = False"
| "consuming (Cap n a) = consuming a"
| "consuming (Ref n) = False"
| "consuming AtStart = False"
| "consuming AtEnd = False"
| "consuming WordBound = False"

lemma matches_shorter: "st' \<in> set (matches a st) \<Longrightarrow> length (re_rest st') \<le> length (re_rest st)"
  using matches_consumes [of st' a st] by (auto simp: consumes_def)

lemma consuming_shorter: "consuming a \<Longrightarrow> st' \<in> set (matches a st) \<Longrightarrow> length (re_rest st') < length (re_rest st)"
proof (induction a arbitrary: st st')
  case (Cls p)
  then show ?case by (cases st) (auto simp: matches.simps re_rest_def split: list.splits if_splits)
next
  case (Seq a b)
  then obtain m where m: "m \<in> set (matches a st)" "st' \<in> set (matches b m)" by (auto simp: matches.simps)
  then show ?case
    using Seq.prems(1) Seq.IH(1) [OF _ m(1)] Seq.IH(2) [OF _ m(2)] matches_shorter [OF m(1)] matches_shorter [OF m(2)] by auto
qed (auto simp: matches.simps re_rest_def)

lemma consuming_lit: "w \<noteq> [] \<Longrightarrow> consuming (lit w)"
  by (cases w) (simp_all add: lit_def)

lemma consuming_seqs: "list_ex consuming as \<Longrightarrow> consuming (seqs as)"
  by (induction as) (auto simp: seqs_def)

lemma re_search_shorter: "consuming r \<Longrightarrow> re_search r l s = Some st \<Longrightarrow> length (re_rest st) < length s"
proof (induction s arbitrary: l)
  case Nil
  then have "st \<in> set (matches r (l, [], Map.empty))" by (subst (asm) re_search.simps) (auto split: list.splits)
  then show ?case using consuming_shorter [OF Nil.prems(1)] by (fastforce simp: re_rest_def)
next
  case (Cons x s)
  show ?case
  proof (cases "matches r (l, x # s, Map.empty)")
    case Nil
    then show ?thesis using Cons.IH [OF Cons.prems(1), of "x # l"] Cons.prems(2) by (simp add: re_search_skip)
  next
    case (Cons y ys)
    then have "st \<in> set (matches r (l, x # s, Map.empty))" using \<open>re_search r l (x # s) = Some st\<close> by (subst (asm) re_search.simps) simp
    then show ?thesis using consuming_shorter [OF Cons.prems(1)] by (fastforce simp: re_rest_def)
  qed
qed

theorem re_exec_all_ends: "consuming r \<Longrightarrow> \<exists>ms. re_exec_all r l s = Some ms"
proof (induction "length s" arbitrary: l s rule: less_induct)
  case less
  show ?case
  proof (cases "re_search r l s")
    case (Some st)
    obtain ms where "re_exec_all r (fst st) (re_rest st) = Some ms"
      using less(1) [OF re_search_shorter [OF less(2) Some] less(2)] by blast
    then show ?thesis using Some re_search_shorter [OF less(2) Some] by (subst re_exec_all.simps) simp
  qed (simp add: re_exec_all_none)
qed

section \<open>Blanks and failing parts\<close>

lemma best_ws_none: "r = [] \<or> \<not> is_ws (hd r) \<Longrightarrow> best ws_star (l, r, c) = Some (l, r, c)"
  using best_Star_Cls [of "[]" is_ws r l c] by (simp add: ws_star_def)

lemma best_ws_one: "r = [] \<or> \<not> is_ws (hd r) \<Longrightarrow> best ws_star (l, js '' '' @ r, c) = Some (rev (js '' '') @ l, r, c)"
  using best_Star_Cls [of "js '' ''" is_ws r l c] by (simp add: ws_star_def js_Cons is_ws_def)

lemma ws_fail: "r = [] \<or> \<not> is_ws (hd r) \<Longrightarrow> matches ws_star (l, r, c) = [(l, r, c)]"
  by (cases r) (auto simp: ws_star_def matches_Star_Cls)

lemma seqs_fail: "matches a st = [x] \<Longrightarrow> matches (seqs as) x = [] \<Longrightarrow> matches (seqs (a # as)) st = []"
  by (simp add: seqs_Cons matches.simps)

lemma seqs_fail_first: "matches a st = [] \<Longrightarrow> matches (seqs (a # as)) st = []"
  by (simp add: seqs_Cons matches.simps)

lemma plus_fail: "r = [] \<or> \<not> p (hd r) \<Longrightarrow> matches (re_plus (Cls p)) (l, r, c) = []"
  by (cases r) (auto simp: re_plus_def matches.simps)

text \<open>A blank that does not lead to the text \<open>w\<close>.\<close>

lemma ws_lit_fail:
  assumes "\<not> js_starts_with r w" "\<not> js_starts_with (js '' '' @ r) w" "r = [] \<or> \<not> is_ws (hd r)"
  shows "matches (seqs (ws_star # lit w # as)) (l, js '' '' @ r, c) = []"
proof -
  have "takeWhile is_ws (js '' '' @ r) = js '' ''" using assms(3) by (cases r) (auto simp: js_Cons is_ws_def)
  then have "matches ws_star (l, js '' '' @ r, c) = [(rev (js '' '') @ l, r, c), (l, js '' '' @ r, c)]"
    by (simp add: ws_star_def matches_Star_Cls js_Cons)
  then show ?thesis using assms(1,2) by (simp add: seqs_Cons matches.simps matches_lit_fail)
qed

lemma re_exec_all_skip:
  assumes "consuming r" "matches r (l, x # s, Map.empty) = []"
  shows "re_exec_all r l (x # s) = re_exec_all r (x # l) s"
proof -
  have e: "re_search r l (x # s) = re_search r (x # l) s" by (rule re_search_skip [OF assms(2)])
  show ?thesis
  proof (cases "re_search r (x # l) s")
    case None
    then show ?thesis using e by (simp add: re_exec_all_none)
  next
    case (Some st)
    have "length (re_rest st) < length s" by (rule re_search_shorter [OF assms(1) Some])
    then show ?thesis using Some e re_exec_all.simps [of r l "x # s"] re_exec_all.simps [of r "x # l" s] by simp
  qed
qed

lemma matches_hd: "best a st = Some x \<Longrightarrow> \<exists>xs. matches a st = x # xs"
  by (auto simp: best_def split: list.splits)

lemma re_match_best: "best (seqs rs) ([], s, Map.empty) = Some (l, [], c) \<Longrightarrow> re_match (anchored rs) s = Some c"
  unfolding re_match_anchored by (auto simp: best_def re_rest_def re_caps_def split: list.splits)

lemma ex_append: "P u v \<Longrightarrow> \<exists>u' v'. u @ v = u' @ v' \<and> P u' v'"
  by blast

end
