(* ===== verification/Billing_Expr.thy ===== *)
theory Billing_Expr
  imports JS_Regex JS_Json
begin

text \<open>
  The request rules of a billing expression (\<open>features/pricing/lib/billing-expr.ts\<close>): a billing
  expression is multiplied with factors \<open>(condition ? multiplier : 1)\<close>.  The editor prints rule
  groups as such factors, reads them back, and separates them from the expression of the tiers.

  The regular expressions are terms of \<open>JS_Regex\<close>.  \<open>Raises\<close> is an exception: \<open>JSON.parse\<close> is called on
  string literals that the expressions accept but JSON does not.
\<close>

section \<open>Constants and data\<close>

definition SOURCE_PARAM :: jstring where "SOURCE_PARAM = js ''param''"
definition SOURCE_HEADER :: jstring where "SOURCE_HEADER = js ''header''"
definition SOURCE_TIME :: jstring where "SOURCE_TIME = js ''time''"

definition MATCH_EQ :: jstring where "MATCH_EQ = js ''eq''"
definition MATCH_CONTAINS :: jstring where "MATCH_CONTAINS = js ''contains''"
definition MATCH_GT :: jstring where "MATCH_GT = js ''gt''"
definition MATCH_GTE :: jstring where "MATCH_GTE = js ''gte''"
definition MATCH_LT :: jstring where "MATCH_LT = js ''lt''"
definition MATCH_LTE :: jstring where "MATCH_LTE = js ''lte''"
definition MATCH_EXISTS :: jstring where "MATCH_EXISTS = js ''exists''"
definition MATCH_RANGE :: jstring where "MATCH_RANGE = js ''range''"

lemmas match_defs = MATCH_EQ_def MATCH_CONTAINS_def MATCH_GT_def MATCH_GTE_def MATCH_LT_def MATCH_LTE_def
  MATCH_EXISTS_def MATCH_RANGE_def

definition TIME_FUNCS :: "jstring list" where
  "TIME_FUNCS = [js ''hour'', js ''minute'', js ''weekday'', js ''month'', js ''day'']"

text \<open>Value and label of the time zones that are offered.\<close>

definition COMMON_TIMEZONES :: "(jstring \<times> jstring) list" where
  "COMMON_TIMEZONES =
     [(js ''Asia/Shanghai'', js ''UTC+8 Shanghai (Asia/Shanghai)''), (js ''UTC'', js ''UTC''),
      (js ''America/New_York'', js ''UTC-5 New York (America/New_York)''),
      (js ''America/Los_Angeles'', js ''UTC-8 Los Angeles (America/Los_Angeles)''),
      (js ''America/Chicago'', js ''UTC-6 Chicago (America/Chicago)''), (js ''Europe/London'', js ''UTC+0 London (Europe/London)''),
      (js ''Europe/Berlin'', js ''UTC+1 Berlin (Europe/Berlin)''), (js ''Asia/Tokyo'', js ''UTC+9 Tokyo (Asia/Tokyo)''),
      (js ''Asia/Singapore'', js ''UTC+8 Singapore (Asia/Singapore)''), (js ''Asia/Seoul'', js ''UTC+9 Seoul (Asia/Seoul)''),
      (js ''Australia/Sydney'', js ''UTC+10 Sydney (Australia/Sydney)'')]"

datatype RequestCondition =
  TimeCondition (timeFunc: jstring) (timezone: jstring) (mode: jstring) (cond_value: jstring)
    (rangeStart: jstring) (rangeEnd: jstring)
| ParamHeaderCondition (cond_source: jstring) (path: jstring) (mode: jstring) (cond_value: jstring)

record RequestRuleGroup =
  conditions :: "RequestCondition list"
  multiplier :: jstring
  conditionText :: "jstring option"
  matched :: "bool option"

record RequestRuleTrace =
  trace_cond :: jstring
  trace_multiplier :: jsnum
  trace_matched :: bool

datatype 'a outcome = Raises | Returns 'a

section \<open>Regular expressions\<close>

text \<open>\<open>[\d.eE+-]\<close>, \<open>[^"]\<close> and \<open>.\<close>\<close>

definition num_char :: "jchar \<Rightarrow> bool" where
  "num_char c \<longleftrightarrow> is_digit c \<or> c = 46 \<or> c = 101 \<or> c = 69 \<or> c = 43 \<or> c = 45"

definition not_quote :: "jchar \<Rightarrow> bool" where "not_quote c \<longleftrightarrow> c \<noteq> 34"

definition dot :: "jchar \<Rightarrow> bool" where "dot c \<longleftrightarrow> c \<noteq> 10 \<and> c \<noteq> 13 \<and> c \<noteq> 8232 \<and> c \<noteq> 8233"

definition num_run :: re where "num_run = re_plus (Cls num_char)"
definition name_run :: re where "name_run = re_plus (Cls not_quote)"

definition numeric_literal :: "re list" where
  "numeric_literal =
     [opt (lit [45]),
      Alt (seqs [re_plus (Cls is_digit), opt (lit [46]), Star (Cls is_digit)]) (seqs [lit [46], re_plus (Cls is_digit)]),
      opt (seqs [Cls (\<lambda>c. c = 101 \<or> c = 69), opt (Cls (\<lambda>c. c = 43 \<or> c = 45)), re_plus (Cls is_digit)])]"

definition NUMERIC_LITERAL_REGEX :: re where "NUMERIC_LITERAL_REGEX = anchored numeric_literal"

definition is_numeric_literal :: "jstring \<Rightarrow> bool" where
  "is_numeric_literal s \<longleftrightarrow> re_match NUMERIC_LITERAL_REGEX s \<noteq> None"

definition time_name :: re where "time_name = alts (map lit TIME_FUNCS)"

text \<open>\<open>("\<close> and \<open>")\<close> around a name\<close>

definition open_name :: jstring where "open_name = js ''('' @ [34]"
definition close_name :: jstring where "close_name = [34] @ js '')''"

definition time_range :: "re list" where
  "time_range = [Cap 1 time_name, lit open_name, Cap 2 name_run, lit (close_name @ js '' >= ''), Cap 3 num_run, lit (js '' || ''),
     Ref 1, lit open_name, Ref 2, lit (close_name @ js '' < ''), Cap 4 num_run]"

definition time_compare :: "re list" where
  "time_compare = [Cap 1 time_name, lit open_name, Cap 2 name_run, lit (close_name @ js '' ''),
     Cap 3 (alts [lit (js ''==''), lit (js ''>=''), lit (js ''<'')]), lit (js '' ''), Cap 4 num_run]"

definition header_exists :: "re list" where
  "header_exists = [lit (js ''header'' @ open_name), Cap 1 name_run, lit (close_name @ js '' != '' @ [34, 34])]"

definition param_exists :: "re list" where
  "param_exists = [lit (js ''param'' @ open_name), Cap 1 name_run, lit (close_name @ js '' != nil'')]"

text \<open>\<open>"(?:[^"\\]|\\.)*"\<close>\<close>

definition string_literal :: re where
  "string_literal = seqs [lit [34], Star (Alt (Cls (\<lambda>c. c \<noteq> 34 \<and> c \<noteq> 92)) (Seq (lit [92]) (Cls dot))), lit [34]]"

definition header_has :: "re list" where
  "header_has = [lit (js ''has(header'' @ open_name), Cap 1 name_run, lit (close_name @ js '', ''),
     Cap 2 string_literal, lit (js '')'')]"

definition param_has :: "re list" where
  "param_has = [lit (js ''param'' @ open_name), Cap 1 name_run, lit (close_name @ js '' != nil && has(param'' @ open_name),
     Cap 2 name_run, lit (close_name @ js '', ''), Cap 3 string_literal, lit (js '')'')]"

definition param_compare :: "re list" where
  "param_compare = [lit (js ''param'' @ open_name), Cap 1 name_run, lit (close_name @ js '' != nil && param'' @ open_name),
     Cap 2 name_run, lit (close_name @ js '' ''), Cap 3 (alts [lit (js ''>''), lit (js ''>=''), lit (js ''<''), lit (js ''<='')]),
     lit (js '' ''), Cap 4 num_run]"

definition value_equals :: "re list" where
  "value_equals = [Cap 1 (alts [lit (js ''param''), lit (js ''header'')]), lit open_name, Cap 2 name_run,
     lit (close_name @ js '' == ''), Cap 3 (re_plus (Cls dot))]"

text \<open>With the flag \<open>s\<close>, so \<open>.\<close> is any character.\<close>

definition rule_factor :: "re list" where
  "rule_factor = [lit (js ''(''), Cap 1 (re_plus (Cls (\<lambda>_. True))), lit (js '' ? ''), Cap 2 num_run, lit (js '' : 1)'')]"

section \<open>Reading rules\<close>

text \<open>
  The loop of \<open>splitTopLevelMultiply\<close> and \<open>splitTopLevelAnd\<close>, which differ in the separator: the
  depth of parentheses, the part so far (reversed) and the rest of the text.
\<close>

function split_top :: "jstring \<Rightarrow> int \<Rightarrow> jstring \<Rightarrow> jstring \<Rightarrow> jstring list" where
  "split_top sep depth part [] = [rev part]"
| "split_top sep depth part (c # cs) =
     (let depth = (if c = 40 then depth + 1 else if c = 41 then depth - 1 else depth)
      in if depth = 0 \<and> sep \<noteq> [] \<and> js_starts_with (c # cs) sep
         then rev part # split_top sep depth [] (drop (length sep) (c # cs))
         else split_top sep depth (c # part) cs)"
  by pat_completeness auto
termination by (relation "measure (\<lambda>(sep, depth, part, s). length s)") auto

definition splitTopLevelMultiply :: "jstring \<Rightarrow> jstring list" where
  "splitTopLevelMultiply expr = filter (\<lambda>p. p \<noteq> []) (map js_trim (split_top (js '' * '') 0 [] expr))"

definition splitTopLevelAnd :: "jstring \<Rightarrow> jstring list" where
  "splitTopLevelAnd expr = filter (\<lambda>p. p \<noteq> []) (map js_trim (split_top (js '' && '') 0 [] expr))"

text \<open>\<open>JNull\<close> is the result \<open>null\<close>.\<close>

definition parseExprLiteral :: "jstring \<Rightarrow> jsval" where
  "parseExprLiteral raw =
     (let text = js_trim raw
      in if text = js ''true'' \<or> text = js ''false'' then JStr text
         else if is_numeric_literal text then JStr text
         else case json_parse text of Some v \<Rightarrow> v | None \<Rightarrow> JNull)"

definition capture :: "re_captures \<Rightarrow> nat \<Rightarrow> jstring" where
  "capture m n = (case m n of Some w \<Rightarrow> w | None \<Rightarrow> [])"

definition tryParseTimeCondition :: "jstring \<Rightarrow> RequestCondition option" where
  "tryParseTimeCondition expr =
     (let range = (\<lambda>m. Some (TimeCondition (capture m 1) (capture m 2) MATCH_RANGE [] (capture m 3) (capture m 4)))
      in case re_match (anchored time_range) expr of
        Some m \<Rightarrow> range m
      | None \<Rightarrow> (case re_match (anchored ([lit (js ''('')] @ time_range @ [lit (js '')'')])) expr of
          Some m \<Rightarrow> range m
        | None \<Rightarrow> (case re_match (anchored time_compare) expr of
            Some m \<Rightarrow> Some (TimeCondition (capture m 1) (capture m 2)
              (case map_of [(js ''=='', MATCH_EQ), (js ''>='', MATCH_GTE), (js ''<'', MATCH_LT)] (capture m 3) of
                 Some md \<Rightarrow> md | None \<Rightarrow> MATCH_EQ)
              (capture m 4) [] [])
          | None \<Rightarrow> None)))"

text \<open>
  The alternatives of \<open>tryParseRequestCondition\<close> in their order.  \<open>JSON.parse(m[2])\<close> of a text that begins
  with a quote is a string or an exception.
\<close>

definition contains_condition :: "jstring \<Rightarrow> jstring \<Rightarrow> jstring \<Rightarrow> RequestCondition option outcome" where
  "contains_condition source p literal = (case json_parse literal of
     None \<Rightarrow> Raises
   | Some v \<Rightarrow> Returns (Some (ParamHeaderCondition source p MATCH_CONTAINS (js_String v))))"

definition tryParseEquals :: "jstring \<Rightarrow> RequestCondition option" where
  "tryParseEquals expr = (case re_match (anchored value_equals) expr of
     None \<Rightarrow> None
   | Some m \<Rightarrow> (let parsedValue = parseExprLiteral (capture m 3)
       in if parsedValue = JNull then None
          else Some (ParamHeaderCondition (capture m 1) (capture m 2) MATCH_EQ (js_String parsedValue))))"

definition tryParseCompare :: "jstring \<Rightarrow> RequestCondition option" where
  "tryParseCompare expr = (case re_match (anchored param_compare) expr of
     None \<Rightarrow> None
   | Some m \<Rightarrow> if capture m 1 = capture m 2
       then Some (ParamHeaderCondition SOURCE_PARAM (capture m 1)
         (case map_of [(js ''>'', MATCH_GT), (js ''>='', MATCH_GTE), (js ''<'', MATCH_LT), (js ''<='', MATCH_LTE)] (capture m 3) of
            Some md \<Rightarrow> md | None \<Rightarrow> [])
         (capture m 4))
       else None)"

definition tryParseRequestCondition :: "jstring \<Rightarrow> RequestCondition option outcome" where
  "tryParseRequestCondition expr = (case tryParseTimeCondition expr of
     Some tc \<Rightarrow> Returns (Some tc)
   | None \<Rightarrow> (case re_match (anchored header_exists) expr of
     Some m \<Rightarrow> Returns (Some (ParamHeaderCondition SOURCE_HEADER (capture m 1) MATCH_EXISTS []))
   | None \<Rightarrow> (case re_match (anchored param_exists) expr of
     Some m \<Rightarrow> Returns (Some (ParamHeaderCondition SOURCE_PARAM (capture m 1) MATCH_EXISTS []))
   | None \<Rightarrow> (case re_match (anchored header_has) expr of
     Some m \<Rightarrow> contains_condition SOURCE_HEADER (capture m 1) (capture m 2)
   | None \<Rightarrow> (let rest = (case tryParseCompare expr of
           Some c \<Rightarrow> Returns (Some c)
         | None \<Rightarrow> Returns (tryParseEquals expr))
       in case re_match (anchored param_has) expr of
            Some m \<Rightarrow> if capture m 1 = capture m 2 then contains_condition SOURCE_PARAM (capture m 1) (capture m 3) else rest
          | None \<Rightarrow> rest)))))"

text \<open>The loop over the parts; an exception or the first unknown part ends it.\<close>

fun parse_parts :: "(jstring \<Rightarrow> 'a option outcome) \<Rightarrow> jstring list \<Rightarrow> 'a list option outcome" where
  "parse_parts f [] = Returns (Some [])"
| "parse_parts f (p # ps) = (case f p of
     Raises \<Rightarrow> Raises
   | Returns None \<Rightarrow> Returns None
   | Returns (Some x) \<Rightarrow> (case parse_parts f ps of
       Returns (Some xs) \<Rightarrow> Returns (Some (x # xs)) | r \<Rightarrow> r))"

definition tryParseRequestConditions :: "jstring \<Rightarrow> RequestCondition list option outcome" where
  "tryParseRequestConditions conditionStr =
     (case parse_parts (\<lambda>p. tryParseRequestCondition (js_trim p)) (splitTopLevelAnd conditionStr) of
        Returns (Some []) \<Rightarrow> Returns None
      | r \<Rightarrow> r)"

definition tryParseRuleGroupFactor :: "jstring \<Rightarrow> RequestRuleGroup option outcome" where
  "tryParseRuleGroupFactor part = (case re_match (anchored rule_factor) part of
     None \<Rightarrow> Returns None
   | Some m \<Rightarrow> (case tryParseRequestConditions (capture m 1) of
       Raises \<Rightarrow> Raises
     | Returns None \<Rightarrow> Returns None
     | Returns (Some cs) \<Rightarrow> Returns (Some \<lparr>conditions = cs, multiplier = capture m 2, conditionText = None, matched = None\<rparr>)))"

definition trace_group :: "RequestRuleTrace \<Rightarrow> RequestRuleGroup outcome" where
  "trace_group rule =
     (let text = js_trim (trace_cond rule)
      in case tryParseRequestConditions text of
           Raises \<Rightarrow> Raises
         | Returns cs \<Rightarrow> Returns \<lparr>conditions = (case cs of Some xs \<Rightarrow> xs | None \<Rightarrow> []),
             multiplier = num_to_string (trace_multiplier rule), conditionText = Some text,
             matched = Some (trace_matched rule)\<rparr>)"

fun requestRuleGroupsFromTrace :: "RequestRuleTrace list \<Rightarrow> RequestRuleGroup list outcome" where
  "requestRuleGroupsFromTrace [] = Returns []"
| "requestRuleGroupsFromTrace (rule # rules) = (case trace_group rule of
     Raises \<Rightarrow> Raises
   | Returns g \<Rightarrow> (case requestRuleGroupsFromTrace rules of Raises \<Rightarrow> Raises | Returns gs \<Rightarrow> Returns (g # gs)))"

definition tryParseRequestRuleExpr :: "jstring \<Rightarrow> RequestRuleGroup list option outcome" where
  "tryParseRequestRuleExpr expr =
     (let trimmed = js_trim expr
      in if trimmed = [] then Returns (Some [])
         else parse_parts tryParseRuleGroupFactor (splitTopLevelMultiply trimmed))"

section \<open>Billing expression and rules\<close>

fun outer_parens :: "int \<Rightarrow> jstring \<Rightarrow> bool" where
  "outer_parens depth [] = (depth = 0)"
| "outer_parens depth (c # cs) =
     (let depth = (if c = 40 then depth + 1 else if c = 41 then depth - 1 else depth)
      in if depth = 0 \<and> cs \<noteq> [] then False else outer_parens depth cs)"

definition hasFullOuterParens :: "jstring \<Rightarrow> bool" where
  "hasFullOuterParens expr \<longleftrightarrow> js_starts_with expr (js ''('') \<and> expr \<noteq> [] \<and> last expr = 41 \<and> outer_parens 0 expr"

text \<open>\<open>current.slice(1, -1).trim()\<close>; the text gets shorter, so the loop ends.\<close>

definition inner_text :: "jstring \<Rightarrow> jstring" where
  "inner_text s = js_trim (butlast (tl s))"

lemma inner_text_shorter: "hasFullOuterParens s \<Longrightarrow> length (inner_text s) < length s"
proof -
  assume "hasFullOuterParens s"
  then have "s \<noteq> []" by (simp add: hasFullOuterParens_def)
  moreover obtain a b where "butlast (tl s) = a @ inner_text s @ b"
    using js_trim_decomp unfolding inner_text_def by blast
  then have "length (butlast (tl s)) = length a + length (inner_text s) + length b" by simp
  then have "length (inner_text s) \<le> length s - 1 - 1" by simp
  ultimately show ?thesis by (cases s) auto
qed

function unwrap_loop :: "jstring \<Rightarrow> jstring" where
  "unwrap_loop current = (if hasFullOuterParens current then unwrap_loop (inner_text current) else current)"
  by pat_completeness auto
termination by (relation "measure length") (auto simp: inner_text_shorter)

declare unwrap_loop.simps [simp del]

definition unwrapOuterParens :: "jstring \<Rightarrow> jstring" where
  "unwrapOuterParens expr = unwrap_loop (js_trim expr)"

fun classify_parts :: "jstring list \<Rightarrow> (jstring list \<times> jstring list) outcome" where
  "classify_parts [] = Returns ([], [])"
| "classify_parts (p # ps) = (case tryParseRequestRuleExpr p of
     Raises \<Rightarrow> Raises
   | Returns parsed \<Rightarrow> (case classify_parts ps of
       Raises \<Rightarrow> Raises
     | Returns (rules, base) \<Rightarrow> Returns
         (if parsed \<noteq> None \<and> parsed \<noteq> Some [] then (p # rules, base) else (rules, p # base))))"

text \<open>The billing expression and the expression of the rules.\<close>

definition splitBillingExprAndRequestRules :: "jstring \<Rightarrow> (jstring \<times> jstring) outcome" where
  "splitBillingExprAndRequestRules expr =
     (let trimmed = js_trim expr; parts = splitTopLevelMultiply trimmed
      in if trimmed = [] then Returns ([], [])
         else if length parts \<le> 1 then Returns (trimmed, [])
         else case classify_parts parts of
                Raises \<Rightarrow> Raises
              | Returns (rules, base) \<Rightarrow> Returns
                  (if rules = [] \<or> length base \<noteq> 1 then (trimmed, [])
                   else (unwrapOuterParens (hd base), js_join (js '' * '') rules)))"

definition combineBillingExpr :: "jstring \<Rightarrow> jstring \<Rightarrow> jstring" where
  "combineBillingExpr baseExpr requestRuleExpr =
     (let base = js_trim baseExpr; rules = js_trim requestRuleExpr
      in if base = [] then [] else if rules = [] then base
         else js ''('' @ base @ js '') * '' @ rules)"

section \<open>The editor\<close>

definition createEmptyCondition :: RequestCondition where
  "createEmptyCondition = ParamHeaderCondition SOURCE_PARAM [] MATCH_EQ []"

definition createEmptyTimeCondition :: RequestCondition where
  "createEmptyTimeCondition = TimeCondition (js ''hour'') (js ''Asia/Shanghai'') MATCH_GTE [] [] []"

definition createEmptyRuleGroup :: RequestRuleGroup where
  "createEmptyRuleGroup = \<lparr>conditions = [createEmptyCondition], multiplier = [], conditionText = None, matched = None\<rparr>"

definition createEmptyTimeRuleGroup :: RequestRuleGroup where
  "createEmptyTimeRuleGroup = \<lparr>conditions = [createEmptyTimeCondition], multiplier = [], conditionText = None, matched = None\<rparr>"

text \<open>Value and label of each way to match.\<close>

definition getRequestRuleMatchOptions :: "jstring \<Rightarrow> (jstring \<times> jstring) list" where
  "getRequestRuleMatchOptions source =
     (if source = SOURCE_TIME
      then [(MATCH_EQ, js ''Equals''), (MATCH_GTE, js ''Greater than or equal''), (MATCH_LT, js ''Less than''),
            (MATCH_RANGE, js ''Overnight range'')]
      else let base = [(MATCH_EQ, js ''Equals''), (MATCH_CONTAINS, js ''Contains''), (MATCH_EXISTS, js ''Exists'')]
           in if source = SOURCE_HEADER then base
              else base @ [(MATCH_GT, js ''Greater than''), (MATCH_GTE, js ''Greater than or equal''),
                           (MATCH_LT, js ''Less than''), (MATCH_LTE, js ''Less than or equal'')])"

definition isTimeFunc :: "jsval \<Rightarrow> bool" where
  "isTimeFunc v = (case v of JStr s \<Rightarrow> s \<in> set TIME_FUNCS | _ \<Rightarrow> False)"

text \<open>The mode if it is among the options, else a default.\<close>

definition option_mode :: "jstring \<Rightarrow> jstring \<Rightarrow> jsval \<Rightarrow> jstring" where
  "option_mode source dflt v = (case find (\<lambda>item. JStr (fst item) = v) (getRequestRuleMatchOptions source) of
     Some item \<Rightarrow> fst item | None \<Rightarrow> dflt)"

text \<open>The argument is an object, \<open>null\<close> or \<open>undefined\<close>, with any of the fields.\<close>

definition normalizeCondition :: "jsval \<Rightarrow> RequestCondition" where
  "normalizeCondition cond =
     (let field = get_prop cond;
          source = (if field (js ''source'') = JStr SOURCE_TIME then SOURCE_TIME
                    else if field (js ''source'') = JStr SOURCE_HEADER then SOURCE_HEADER else SOURCE_PARAM)
      in if source = SOURCE_TIME
         then TimeCondition
           (if isTimeFunc (field (js ''timeFunc'')) then js_String (field (js ''timeFunc'')) else js ''hour'')
           (js_String (js_or (field (js ''timezone'')) (JStr (js ''Asia/Shanghai''))))
           (option_mode SOURCE_TIME MATCH_GTE (field (js ''mode'')))
           (nullish_to_string (field (js ''value''))) (nullish_to_string (field (js ''rangeStart'')))
           (nullish_to_string (field (js ''rangeEnd'')))
         else ParamHeaderCondition source (js_String (js_or (field (js ''path'')) (JStr [])))
           (option_mode source MATCH_EQ (field (js ''mode''))) (nullish_to_string (field (js ''value''))))"

text \<open>A condition as the object it is.\<close>

fun condition_object :: "RequestCondition \<Rightarrow> jsval" where
  "condition_object (TimeCondition f tz md v rs re) = JObj
     [(js ''source'', JStr SOURCE_TIME), (js ''timeFunc'', JStr f), (js ''timezone'', JStr tz), (js ''mode'', JStr md),
      (js ''value'', JStr v), (js ''rangeStart'', JStr rs), (js ''rangeEnd'', JStr re)]"
| "condition_object (ParamHeaderCondition s p md v) = JObj
     [(js ''source'', JStr s), (js ''path'', JStr p), (js ''mode'', JStr md), (js ''value'', JStr v)]"

section \<open>Printing rules\<close>

definition buildExprLiteral :: "jstring \<Rightarrow> jstring \<Rightarrow> jstring" where
  "buildExprLiteral md v =
     (let text = js_trim v
      in if md = MATCH_CONTAINS then json_quote text
         else if text = js ''true'' \<or> text = js ''false'' then text
         else if is_numeric_literal text then text
         else json_quote text)"

definition time_op :: "jstring \<Rightarrow> jstring" where
  "time_op md = (case map_of [(MATCH_EQ, js ''==''), (MATCH_GTE, js ''>=''), (MATCH_LT, js ''<'')] md of
     Some s \<Rightarrow> s | None \<Rightarrow> js ''=='')"

definition param_op :: "jstring \<Rightarrow> jstring" where
  "param_op md = (case map_of [(MATCH_GT, js ''>''), (MATCH_GTE, js ''>=''), (MATCH_LT, js ''<''), (MATCH_LTE, js ''<='')] md of
     Some s \<Rightarrow> s | None \<Rightarrow> [])"

definition build_time :: "RequestCondition \<Rightarrow> jstring" where
  "build_time normalized =
     (let fn = timeFunc normalized @ js ''('' @ json_quote (timezone normalized) @ js '')''
      in if mode normalized = MATCH_RANGE
         then (let s = js_trim (rangeStart normalized); e = js_trim (rangeEnd normalized)
               in if \<not> is_numeric_literal s \<or> \<not> is_numeric_literal e then []
                  else fn @ js '' >= '' @ s @ js '' || '' @ fn @ js '' < '' @ e)
         else (let v = js_trim (cond_value normalized)
               in if \<not> is_numeric_literal v then []
                  else fn @ js '' '' @ time_op (mode normalized) @ js '' '' @ v))"

definition buildTimeConditionExpr :: "RequestCondition \<Rightarrow> jstring" where
  "buildTimeConditionExpr cond = build_time (normalizeCondition (condition_object cond))"

definition build_param_header :: "RequestCondition \<Rightarrow> jstring" where
  "build_param_header normalized =
     (let p = js_trim (path normalized); header = (cond_source normalized = SOURCE_HEADER);
          sourceExpr = (if header then js ''header'' else js ''param'') @ js ''('' @ json_quote p @ js '')'';
          literal = buildExprLiteral (mode normalized) (cond_value normalized); md = mode normalized
      in if p = [] then []
         else if md = MATCH_EXISTS
         then (if header then sourceExpr @ js '' != '' @ [34, 34] else sourceExpr @ js '' != nil'')
         else if md = MATCH_CONTAINS
         then (if header then js ''has('' @ sourceExpr @ js '', '' @ literal @ js '')''
               else sourceExpr @ js '' != nil && has('' @ sourceExpr @ js '', '' @ literal @ js '')'')
         else if md = MATCH_GT \<or> md = MATCH_GTE \<or> md = MATCH_LT \<or> md = MATCH_LTE
         then (let numText = js_trim (cond_value normalized)
               in if \<not> is_numeric_literal numText then []
                  else sourceExpr @ js '' != nil && '' @ sourceExpr @ js '' '' @ param_op md @ js '' '' @ numText)
         else sourceExpr @ js '' == '' @ literal)"

definition buildRequestConditionExpr :: "RequestCondition \<Rightarrow> jstring" where
  "buildRequestConditionExpr cond = (case cond of
     TimeCondition f tz md v rs re \<Rightarrow> buildTimeConditionExpr cond
   | ParamHeaderCondition s p md v \<Rightarrow> build_param_header (normalizeCondition (condition_object cond)))"

definition buildRuleGroupFactor :: "RequestRuleGroup \<Rightarrow> jstring" where
  "buildRuleGroupFactor g =
     (let m = js_trim (multiplier g);
          condExprs = filter (\<lambda>e. e \<noteq> []) (map buildRequestConditionExpr (conditions g));
          combined = (if length condExprs = 1 then hd condExprs
            else js_join (js '' && '') (map (\<lambda>e. if js_includes e (js '' || '') then js ''('' @ e @ js '')'' else e) condExprs))
      in if \<not> is_numeric_literal m then [] else if condExprs = [] then []
         else js ''('' @ combined @ js '' ? '' @ m @ js '' : 1)'')"

definition buildRequestRuleExpr :: "RequestRuleGroup list \<Rightarrow> jstring" where
  "buildRequestRuleExpr groups = js_join (js '' * '') (filter (\<lambda>e. e \<noteq> []) (map buildRuleGroupFactor groups))"

end
