(* ===== verification/JS_Number.thy ===== *)
theory JS_Number
  imports JS_Json
begin

text \<open>
  Arithmetic of numbers: the operations of doubles, \<open>Math.floor\<close>, \<open>Math.round\<close>, \<open>toFixed\<close>, and the
  conversion of texts to numbers.  A rounding changes a number by a factor close to one; \<open>near\<close> counts
  the roundings between an exact value and a computed one.
\<close>

section \<open>Arithmetic\<close>

text \<open>The operations on doubles: the exact result, rounded; the sign of zero is not kept.\<close>

definition num_neg :: "jsnum \<Rightarrow> jsnum" where
  "num_neg x = (case x of Num q \<Rightarrow> Num (- q) | NaN \<Rightarrow> NaN | PosInf \<Rightarrow> NegInf | NegInf \<Rightarrow> PosInf)"

definition num_abs :: "jsnum \<Rightarrow> jsnum" where
  "num_abs x = (case x of Num q \<Rightarrow> Num \<bar>q\<bar> | NaN \<Rightarrow> NaN | PosInf \<Rightarrow> PosInf | NegInf \<Rightarrow> PosInf)"

definition num_sgn :: "jsnum \<Rightarrow> rat" where
  "num_sgn x = (case x of Num q \<Rightarrow> sgn q | NaN \<Rightarrow> 0 | PosInf \<Rightarrow> 1 | NegInf \<Rightarrow> -1)"

definition signed_infinity :: "rat \<Rightarrow> jsnum" where
  "signed_infinity s = (if 0 < s then PosInf else if s < 0 then NegInf else NaN)"

fun num_add :: "jsnum \<Rightarrow> jsnum \<Rightarrow> jsnum" where
  "num_add (Num a) (Num b) = round_double (a + b)"
| "num_add x y = (if x = NaN \<or> y = NaN then NaN else signed_infinity (if is_finite_num x then num_sgn y
     else if is_finite_num y then num_sgn x else num_sgn x + num_sgn y))"

definition num_sub :: "jsnum \<Rightarrow> jsnum \<Rightarrow> jsnum" where
  "num_sub x y = num_add x (num_neg y)"

fun num_mul :: "jsnum \<Rightarrow> jsnum \<Rightarrow> jsnum" where
  "num_mul (Num a) (Num b) = round_double (a * b)"
| "num_mul x y = (if x = NaN \<or> y = NaN then NaN else signed_infinity (num_sgn x * num_sgn y))"

fun num_div :: "jsnum \<Rightarrow> jsnum \<Rightarrow> jsnum" where
  "num_div (Num a) (Num b) = (if b = 0 then signed_infinity (sgn a) else round_double (a / b))"
| "num_div (Num a) y = (if y = NaN then NaN else Num 0)"
| "num_div x (Num b) = (if x = NaN then NaN else signed_infinity (num_sgn x * (if b < 0 then -1 else 1)))"
| "num_div x y = NaN"

fun num_less :: "jsnum \<Rightarrow> jsnum \<Rightarrow> bool" where
  "num_less (Num a) (Num b) \<longleftrightarrow> a < b"
| "num_less x y \<longleftrightarrow> x \<noteq> NaN \<and> y \<noteq> NaN \<and> x \<noteq> y \<and> (x = NegInf \<or> y = PosInf)"

definition num_le :: "jsnum \<Rightarrow> jsnum \<Rightarrow> bool" where
  "num_le x y \<longleftrightarrow> x \<noteq> NaN \<and> (num_less x y \<or> x = y)"

definition num_truthy :: "jsnum \<Rightarrow> bool" where
  "num_truthy x \<longleftrightarrow> x \<noteq> NaN \<and> x \<noteq> Num 0"

text \<open>\<open>Math.floor\<close> and \<open>Math.round\<close> (halves up), and the remainder \<open>%\<close> with the sign of the dividend.\<close>

definition num_floor :: "jsnum \<Rightarrow> jsnum" where
  "num_floor x = (case x of Num q \<Rightarrow> num_int \<lfloor>q\<rfloor> | _ \<Rightarrow> x)"

definition num_round :: "jsnum \<Rightarrow> jsnum" where
  "num_round x = (case x of Num q \<Rightarrow> num_int \<lfloor>q + 1 / 2\<rfloor> | _ \<Rightarrow> x)"

definition num_mod :: "jsnum \<Rightarrow> jsnum \<Rightarrow> jsnum" where
  "num_mod x y = (case (x, y) of
     (Num a, Num b) \<Rightarrow> if b = 0 then NaN else Num (sgn a * (\<bar>a\<bar> - of_int \<lfloor>\<bar>a\<bar> / \<bar>b\<bar>\<rfloor> * \<bar>b\<bar>))
   | (Num a, NaN) \<Rightarrow> NaN | (Num a, _) \<Rightarrow> Num a | _ \<Rightarrow> NaN)"

text \<open>\<open>x.toFixed(f)\<close>: the nearest decimal with \<open>f\<close> digits after the point, halves away from zero.\<close>

definition fixed_digits :: "nat \<Rightarrow> rat \<Rightarrow> jstring" where
  "fixed_digits f x =
     (let n = show_nat (nat \<lfloor>x * 10 ^ f + 1 / 2\<rfloor>); ds = replicate (Suc f - length n) 48 @ n; k = length ds - f
      in if f = 0 then n else take k ds @ [46] @ drop k ds)"

definition toFixed :: "nat \<Rightarrow> jsnum \<Rightarrow> jstring" where
  "toFixed f x = (case x of
     Num q \<Rightarrow> if 10 ^ 21 \<le> \<bar>q\<bar> then num_to_string x
             else if q < 0 then 45 # fixed_digits f (- q) else fixed_digits f q
   | _ \<Rightarrow> num_to_string x)"

section \<open>Numbers from texts\<close>

text \<open>\<open>Number(s)\<close> of a string: decimal literals with a sign, \<open>Infinity\<close>, and literals in base 2, 8, 16.\<close>

definition decimal_value :: "jstring \<Rightarrow> jsnum" where
  "decimal_value s =
     (let (ip, r1) = span_digits s;
          (fs, r2) = (case r1 of [] \<Rightarrow> ([], r1) | c # cs \<Rightarrow> if c = 46 then span_digits cs else ([], r1))
      in if s = js ''Infinity'' then PosInf
         else if ip = [] \<and> fs = [] then NaN
         else case parse_exp r2 of
                Some (e, []) \<Rightarrow> round_double (of_int (int (digits_val (ip @ fs))) * pow10 (e - int (length fs)))
              | _ \<Rightarrow> NaN)"

fun radix_value :: "nat \<Rightarrow> nat \<Rightarrow> jstring \<Rightarrow> nat option" where
  "radix_value b acc [] = Some acc"
| "radix_value b acc (c # cs) = (case hex_val c of
     Some d \<Rightarrow> if d < b then radix_value b (b * acc + d) cs else None
   | None \<Rightarrow> None)"

definition radix_literal :: "nat \<Rightarrow> jstring \<Rightarrow> jsnum" where
  "radix_literal b s = (if s = [] then NaN else case radix_value b 0 s of
     Some n \<Rightarrow> round_double (of_int (int n)) | None \<Rightarrow> NaN)"

definition js_Number :: "jstring \<Rightarrow> jsnum" where
  "js_Number s = (case js_trim s of
     [] \<Rightarrow> Num 0
   | c # cs \<Rightarrow>
       if c = 45 then num_neg (decimal_value cs)
       else if c = 43 then decimal_value cs
       else if c = 48 \<and> cs \<noteq> [] \<and> hd cs \<in> {120, 88} then radix_literal 16 (tl cs)
       else if c = 48 \<and> cs \<noteq> [] \<and> hd cs \<in> {111, 79} then radix_literal 8 (tl cs)
       else if c = 48 \<and> cs \<noteq> [] \<and> hd cs \<in> {98, 66} then radix_literal 2 (tl cs)
       else decimal_value (c # cs))"

text \<open>\<open>Number(v)\<close> of any value, and \<open>Number(v) || 0\<close>.\<close>

definition js_to_number :: "jsval \<Rightarrow> jsnum" where
  "js_to_number v = (case v of JUndef \<Rightarrow> NaN | JNull \<Rightarrow> Num 0 | JBool b \<Rightarrow> Num (if b then 1 else 0) | JNum x \<Rightarrow> x
     | _ \<Rightarrow> js_Number (js_String v))"

definition num_or_0 :: "jsnum \<Rightarrow> jsnum" where
  "num_or_0 x = (if x = NaN then Num 0 else x)"

lemma decimal_value_show_nat: "n < 2 ^ 53 \<Longrightarrow> decimal_value (show_nat n) = num_int (int n)"
proof -
  assume n: "n < 2 ^ 53"
  have t: "takeWhile is_digit (show_nat n) = show_nat n" "dropWhile is_digit (show_nat n) = []"
    using show_nat_digits [of n] by (simp_all add: takeWhile_eq_all_conv dropWhile_eq_Nil_conv)
  have "show_nat n \<noteq> js ''Infinity''" using show_nat_digits [of n] by (auto simp: js_Cons is_digit_def)
  moreover have "round_double (of_int (int n)) = num_int (int n)" using n by (intro round_double_safe_int) (simp add: safe_int_def)
  ultimately show ?thesis
    by (simp add: decimal_value_def span_digits_def t parse_exp_def pow10_def)
qed

lemma digit_no_ws: "is_digit x \<Longrightarrow> \<not> is_ws x"
  by (auto simp: is_digit_def is_ws_def)

lemma js_Number_show_int: "safe_int i \<Longrightarrow> js_Number (show_int i) = num_int i"
proof -
  assume i: "safe_int i"
  define n where "n = nat \<bar>i\<bar>"
  have n: "n < 2 ^ 53" using i by (simp add: safe_int_def n_def nat_less_iff)
  obtain c cs where c: "show_nat n = c # cs" "is_digit c" using show_nat_digits [of n] by (cases "show_nat n") auto
  have d: "\<forall>x \<in> set (show_nat n). is_digit x" by (rule show_nat_digits)
  have t: "js_trim (45 # show_nat n) = 45 # show_nat n" "js_trim (show_nat n) = show_nat n"
    using d digit_no_ws by (auto intro!: js_trim_no_ws simp: is_ws_def [of 45])
  have z: "c = 48 \<Longrightarrow> cs = []" using show_nat_hd [of n] c(1) by simp
  show ?thesis
  proof (cases "i < 0")
    case True
    then have "show_int i = 45 # show_nat n" "i = - int n" by (simp_all add: show_int_def n_def)
    then show ?thesis using t decimal_value_show_nat [OF n] by (simp add: js_Number_def num_neg_def num_int_def)
  next
    case False
    then have s: "show_int i = c # cs" "i = int n" using c by (simp_all add: show_int_def n_def)
    have "decimal_value (c # cs) = num_int i" using decimal_value_show_nat [OF n] c(1) s(2) by simp
    then show ?thesis using t(2) c z unfolding s(1) by (auto simp: js_Number_def is_digit_def)
  qed
qed

section \<open>The error of rounding\<close>

lemma round_half_even_error: "\<bar>of_int (round_half_even x) - x\<bar> \<le> 1 / 2"
proof -
  have "of_int \<lfloor>x\<rfloor> \<le> x" "x < of_int \<lfloor>x\<rfloor> + 1" by linarith+
  then show ?thesis by (auto simp: round_half_even_def Let_def abs_le_iff)
qed

lemma floor_log2_lower: "0 < x \<Longrightarrow> pow2 (floor_log2 x) \<le> x"
proof -
  assume x: "0 < x"
  obtain n d where nd: "quotient_of x = (n, d)" by (cases "quotient_of x")
  have d: "0 < d" "x = of_int n / of_int d" using nd by (simp_all add: quotient_of_denom_pos quotient_of_div)
  then have n: "0 < n" using x by (simp add: zero_less_divide_iff)
  define k where "k = int (bitlen (nat n)) - int (bitlen (nat d))"
  have bn: "2 ^ (bitlen (nat n) - 1) \<le> nat n" using bitlen_bounds [of "nat n"] n by simp
  have bd: "nat d < 2 ^ bitlen (nat d)" using bitlen_bounds [of "nat d"] d(1) by simp
  have b1: "bitlen (nat n) \<noteq> 0" using n by (subst bitlen.simps) simp
  have "pow2 (k - 1) = pow2 (int (bitlen (nat n) - 1)) * pow2 (- int (bitlen (nat d)))"
    using b1 by (simp add: k_def algebra_simps flip: pow2_add)
  also have "\<dots> = 2 ^ (bitlen (nat n) - 1) / 2 ^ bitlen (nat d)" by (simp add: pow2_def)
  also have "\<dots> \<le> of_int n / of_int d"
  proof (rule frac_le)
    have "(2 :: int) ^ (bitlen (nat n) - 1) \<le> n" using bn n by (simp add: nat_le_eq_zle le_nat_iff)
    then show "(2 :: rat) ^ (bitlen (nat n) - 1) \<le> of_int n" by (metis of_int_le_iff of_int_numeral of_int_power)
    have "d \<le> (2 :: int) ^ bitlen (nat d)" using bd d(1) by (simp add: nat_less_iff)
    then show "of_int d \<le> (2 :: rat) ^ bitlen (nat d)" by (metis of_int_le_iff of_int_numeral of_int_power)
  qed (use n d in simp_all)
  finally have "pow2 (k - 1) \<le> x" using d(2) by simp
  then show ?thesis by (simp add: floor_log2_def nd flip: k_def)
qed

text \<open>A normal number is rounded with a relative error of at most \<open>2 ^ -53\<close>.\<close>

lemma round_double_error:
  assumes "pow2 (-1022) \<le> x" "x \<le> pow2 1000"
  obtains y where "round_double x = Num y" "\<bar>y - x\<bar> \<le> x / 2 ^ 53"
proof -
  have x: "0 < x" using assms(1) pow2_pos [of "-1022"] by linarith
  define l where "l = floor_log2 x"
  define u where "u = pow2 (max (l - 52) (-1074))"
  define y where "y = of_int (round_half_even (x / u)) * u"
  have u0: "0 < u" by (simp add: u_def)
  have "\<bar>y - x\<bar> = \<bar>of_int (round_half_even (x / u)) - x / u\<bar> * u"
    using u0 by (simp add: y_def abs_mult field_simps)
  also have "\<dots> \<le> 1 / 2 * u" using round_half_even_error u0 by (intro mult_right_mono) simp_all
  finally have e: "\<bar>y - x\<bar> \<le> u / 2" by simp
  have "u / 2 \<le> x / 2 ^ 53"
  proof (cases "-1022 \<le> l")
    case True
    then have "u = pow2 l * pow2 (-52)" by (simp add: u_def flip: pow2_add)
    then have "u / 2 = pow2 l / 2 ^ 53" by (simp add: pow2_def)
    then show ?thesis using floor_log2_lower [OF x] by (simp add: l_def divide_right_mono)
  next
    case False
    then have "u = pow2 (-1022) * pow2 (-52)" by (simp add: u_def flip: pow2_add)
    then have "u / 2 = pow2 (-1022) / 2 ^ 53" by (simp add: pow2_def)
    then show ?thesis using assms(1) by (simp add: divide_right_mono)
  qed
  with e have e: "\<bar>y - x\<bar> \<le> x / 2 ^ 53" by linarith
  have "x / 2 ^ 53 \<le> x" using x by (simp add: field_simps)
  then have "y \<le> 2 * x" using e by linarith
  also have "\<dots> \<le> pow2 1 * pow2 1000" using assms(2) by (simp add: pow2_def)
  also have "\<dots> < pow2 1024" unfolding pow2_add [symmetric] by (simp add: pow2_def)
  finally have "\<not> pow2 1024 \<le> y" by simp
  then have "round_double x = Num y"
    using x by (simp add: round_double_def Let_def flip: l_def u_def y_def)
  then show ?thesis using e by (rule that)
qed


text \<open>\<open>near k x y\<close>: the value \<open>y\<close> comes from \<open>x\<close> by \<open>k\<close> roundings.\<close>

definition eps :: rat where "eps = 1 / 2 ^ 53"

definition near :: "nat \<Rightarrow> rat \<Rightarrow> rat \<Rightarrow> bool" where
  "near k x y \<longleftrightarrow> \<bar>y - x\<bar> \<le> \<bar>x\<bar> * ((1 + eps) ^ k - 1)"

lemma eps_pos: "0 < eps" "0 < (1 + eps) ^ k" "1 \<le> (1 + eps) ^ k"
  by (simp_all add: eps_def)

lemma near_refl: "near 0 x x"
  by (simp add: near_def)

lemma near_scale: "near k x y \<Longrightarrow> near k (x * c) (y * c)"
proof -
  assume "near k x y"
  then have "\<bar>y - x\<bar> * \<bar>c\<bar> \<le> \<bar>x\<bar> * ((1 + eps) ^ k - 1) * \<bar>c\<bar>" unfolding near_def by (rule mult_right_mono) simp
  moreover have "\<bar>y * c - x * c\<bar> = \<bar>y - x\<bar> * \<bar>c\<bar>" by (simp add: left_diff_distrib flip: abs_mult)
  ultimately show ?thesis by (simp add: near_def abs_mult mult.commute mult.left_commute)
qed

lemma near_abs: "near k x y \<Longrightarrow> \<bar>y\<bar> \<le> \<bar>x\<bar> * (1 + eps) ^ k"
  unfolding near_def by (simp add: right_diff_distrib)

lemma near_trans: "near j x y \<Longrightarrow> near k y z \<Longrightarrow> near (j + k) x z"
proof -
  assume a: "near j x y" and b: "near k y z"
  have "\<bar>y\<bar> * ((1 + eps) ^ k - 1) \<le> \<bar>x\<bar> * (1 + eps) ^ j * ((1 + eps) ^ k - 1)"
    using near_abs [OF a] eps_pos(3) [of k] by (intro mult_right_mono) simp_all
  moreover have "\<bar>z - x\<bar> \<le> \<bar>z - y\<bar> + \<bar>y - x\<bar>" by linarith
  ultimately have "\<bar>z - x\<bar> \<le> \<bar>x\<bar> * (1 + eps) ^ j * ((1 + eps) ^ k - 1) + \<bar>x\<bar> * ((1 + eps) ^ j - 1)"
    using a b unfolding near_def by linarith
  then show ?thesis by (simp add: near_def power_add algebra_simps)
qed

lemma near_factor: "k \<le> 8 \<Longrightarrow> (1 + eps) ^ k \<le> 1 + 1 / 2 ^ 49"
proof -
  assume "k \<le> 8"
  then have "(1 + eps) ^ k \<le> (1 + eps) ^ 8" using eps_pos(1) by (intro power_increasing) simp_all
  also have "\<dots> \<le> 1 + 1 / 2 ^ 49" by (simp add: eps_def power_divide field_simps eval_nat_numeral)
  finally show ?thesis .
qed

text \<open>So after up to eight roundings a value has not lost its size.\<close>

lemma near_size:
  assumes "near k x y" "k \<le> 8"
  shows "\<bar>x\<bar> / 2 \<le> \<bar>y\<bar>" "\<bar>y\<bar> \<le> 2 * \<bar>x\<bar>" "\<bar>y - x\<bar> \<le> \<bar>x\<bar> / 2 ^ 49"
proof -
  have "\<bar>x\<bar> * ((1 + eps) ^ k - 1) \<le> \<bar>x\<bar> * (1 / 2 ^ 49)"
    using near_factor [OF assms(2)] by (intro mult_left_mono) simp_all
  then show e: "\<bar>y - x\<bar> \<le> \<bar>x\<bar> / 2 ^ 49" using assms(1) by (simp add: near_def)
  have "\<bar>x\<bar> / 2 ^ 49 \<le> \<bar>x\<bar> / 2" by (intro divide_left_mono) simp_all
  then show "\<bar>x\<bar> / 2 \<le> \<bar>y\<bar>" "\<bar>y\<bar> \<le> 2 * \<bar>x\<bar>" using e by linarith+
qed

lemma round_near:
  assumes "pow2 (-1022) \<le> \<bar>x\<bar>" "\<bar>x\<bar> \<le> pow2 1000"
  obtains y where "round_double x = Num y" "near 1 x y"
proof -
  obtain y where y: "round_double \<bar>x\<bar> = Num y" "\<bar>y - \<bar>x\<bar>\<bar> \<le> \<bar>x\<bar> / 2 ^ 53" using round_double_error [OF assms] .
  show ?thesis
  proof (cases "0 \<le> x")
    case True
    then show ?thesis using y by (intro that [of y]) (simp_all add: near_def eps_def)
  next
    case False
    then have "round_double x = Num (- y)" using round_double_minus [of "\<bar>x\<bar>"] y(1) by simp
    moreover have "\<bar>- y - x\<bar> = \<bar>y - \<bar>x\<bar>\<bar>" using False by simp
    then have "near 1 x (- y)" using y(2) by (simp add: near_def eps_def)
    ultimately show ?thesis by (rule that)
  qed
qed

text \<open>One more operation on a value with an error.\<close>

lemma num_mul_near:
  assumes "near k x y" "k \<le> 7" "pow2 (-1000) \<le> \<bar>x * c\<bar>" "\<bar>x * c\<bar> \<le> pow2 999"
  obtains z where "num_mul (Num y) (Num c) = Num z" "near (Suc k) (x * c) z"
proof -
  note s = near_scale [OF assms(1), of c]
  have "pow2 (-1022) \<le> pow2 (-1000) / 2" by (simp add: pow2_def)
  then have "pow2 (-1022) \<le> \<bar>y * c\<bar>" using near_size(1) [OF s] assms(2,3) by linarith
  moreover have "2 * pow2 999 = pow2 1000" by (simp add: pow2_def)
  then have "\<bar>y * c\<bar> \<le> pow2 1000" using near_size(2) [OF s] assms(2,4) by linarith
  ultimately obtain z where z: "round_double (y * c) = Num z" "near 1 (y * c) z" by (rule round_near)
  from near_trans [OF s z(2)] z(1) show ?thesis by (intro that [of z]) simp_all
qed

lemma num_div_near:
  assumes "near k x y" "k \<le> 7" "c \<noteq> 0" "pow2 (-1000) \<le> \<bar>x / c\<bar>" "\<bar>x / c\<bar> \<le> pow2 999"
  obtains z where "num_div (Num y) (Num c) = Num z" "near (Suc k) (x / c) z"
proof -
  obtain z where "num_mul (Num y) (Num (1 / c)) = Num z" "near (Suc k) (x * (1 / c)) z"
    using num_mul_near [OF assms(1,2), of "1 / c"] assms(4,5) by auto
  then show ?thesis using assms(3) by (intro that [of z]) simp_all
qed

lemma num_round_near:
  assumes "near k (of_int n) y" "k \<le> 8" "\<bar>n\<bar> < 2 ^ 48"
  shows "num_round (Num y) = num_int n"
proof -
  have "\<bar>of_int n\<bar> < (2 :: rat) ^ 48" using assms(3) by (metis of_int_abs of_int_less_iff of_int_numeral of_int_power)
  then have "\<bar>of_int n\<bar> / 2 ^ 49 < (1 / 2 :: rat)" by (simp add: field_simps)
  then have "\<bar>y - of_int n\<bar> < 1 / 2" using near_size(3) [OF assms(1,2)] by linarith
  then have "\<lfloor>y + 1 / 2\<rfloor> = n" by (intro floor_unique) linarith+
  then show ?thesis by (simp add: num_round_def)
qed

end
