(* ===== verification/Tier_Expr.thy ===== *)
theory Tier_Expr
  imports Billing_Expr JS_Number
begin

text \<open>
  Tiers of a billing expression: the variables and the reader of \<open>features/pricing/lib/billing-expr.ts\<close>,
  and the configuration of the visual editor, its printer and its reader in \<open>tier-expr.ts\<close>.

  A tier of the editor is an object with any fields.  The loops over the matches of an expression with
  the flag \<open>g\<close> are \<open>re_exec_all\<close>; they end, as every match has a text.  The expression of the estimator
  is run by the language itself (\<open>new Function\<close>) and is not modelled.
\<close>

section \<open>Variables\<close>

datatype var_side = InputSide | OutputSide | ConditionSide

record BillingVar =
  var_key :: jstring
  var_field :: "jstring option"
  tierField :: "jstring option"
  var_label :: jstring
  shortLabel :: jstring
  side :: var_side
  isBase :: bool
  isConditionOnly :: bool
  var_group :: "jstring option"

definition price_var :: "string \<Rightarrow> string \<Rightarrow> string \<Rightarrow> string \<Rightarrow> string \<Rightarrow> var_side \<Rightarrow> bool \<Rightarrow> string option \<Rightarrow> BillingVar" where
  "price_var k f tf l sl sd b g = \<lparr>var_key = js k, var_field = Some (js f), tierField = Some (js tf), var_label = js l,
     shortLabel = js sl, side = sd, isBase = b, isConditionOnly = False, var_group = map_option js g\<rparr>"

definition BILLING_VARS :: "BillingVar list" where
  "BILLING_VARS =
     [price_var ''p'' ''inputPrice'' ''input_unit_cost'' ''Input price'' ''Input'' InputSide True None,
      price_var ''c'' ''outputPrice'' ''output_unit_cost'' ''Completion price'' ''Output'' OutputSide True None,
      \<lparr>var_key = js ''len'', var_field = None, tierField = None, var_label = js ''Input length'', shortLabel = js ''Length'',
       side = ConditionSide, isBase = False, isConditionOnly = True, var_group = None\<rparr>,
      price_var ''cr'' ''cacheReadPrice'' ''cache_read_unit_cost'' ''Cache read price'' ''Cache Read'' InputSide False (Some ''cache''),
      price_var ''cc'' ''cacheCreatePrice'' ''cache_create_unit_cost'' ''Cache create price'' ''Cache Write'' InputSide False (Some ''cache''),
      price_var ''cc1h'' ''cacheCreate1hPrice'' ''cache_create_1h_unit_cost'' ''Cache create (1h) price'' ''Cache Write (1h)'' InputSide False (Some ''cache''),
      price_var ''img'' ''imagePrice'' ''image_unit_cost'' ''Image input price'' ''Image In'' InputSide False (Some ''media''),
      price_var ''img_o'' ''imageOutputPrice'' ''image_output_unit_cost'' ''Image output price'' ''Image Out'' OutputSide False (Some ''media''),
      price_var ''ai'' ''audioInputPrice'' ''audio_input_unit_cost'' ''Audio input price'' ''Audio In'' InputSide False (Some ''media''),
      price_var ''ao'' ''audioOutputPrice'' ''audio_output_unit_cost'' ''Audio output price'' ''Audio Out'' OutputSide False (Some ''media'')]"

definition BILLING_PRICING_VARS :: "BillingVar list" where
  "BILLING_PRICING_VARS = filter (\<lambda>v. \<not> isConditionOnly v) BILLING_VARS"

definition BILLING_CONDITION_VARS :: "jstring list" where
  "BILLING_CONDITION_VARS = map var_key (filter (\<lambda>v. isBase v \<or> isConditionOnly v) BILLING_VARS)"

text \<open>The name and the field of each variable with a price.\<close>

definition BILLING_VAR_KEY_TO_FIELD :: "(jstring \<times> jstring) list" where
  "BILLING_VAR_KEY_TO_FIELD = map (\<lambda>v. (var_key v, case var_field v of Some f \<Rightarrow> f | None \<Rightarrow> [])) BILLING_PRICING_VARS"

definition BILLING_EXTRA_VARS :: "BillingVar list" where
  "BILLING_EXTRA_VARS = filter (\<lambda>v. \<not> isBase v \<and> \<not> isConditionOnly v) BILLING_VARS"

text \<open>The field of the tier and the variable.\<close>

definition BILLING_CACHE_VAR_MAP :: "(jstring \<times> jstring) list" where
  "BILLING_CACHE_VAR_MAP = map (\<lambda>v. (case tierField v of Some f \<Rightarrow> f | None \<Rightarrow> [], var_key v)) BILLING_EXTRA_VARS"

definition BILLING_VAR_REGEX :: re where
  "BILLING_VAR_REGEX = seqs [WordBound, Cap 1 (alts (map (lit \<circ> var_key) BILLING_PRICING_VARS)), ws_star, lit (js ''*''), ws_star,
     Cap 2 num_run]"

section \<open>Reading tiers\<close>

record TierCondition =
  tier_var :: jstring
  tier_op :: jstring
  tier_value :: jsnum

record ParsedTier =
  tier_label :: jstring
  tier_conditions :: "TierCondition list"
  tier_prices :: "(jstring \<times> jsnum) list"

text \<open>\<open>/^v(\d+):([\s\S]*)$/\<close>\<close>

definition version_prefix :: "re list" where
  "version_prefix = [lit (js ''v''), Cap 1 (re_plus (Cls is_digit)), lit (js '':''), Cap 2 (Star (Cls (\<lambda>_. True)))]"

definition stripExprVersion :: "jstring \<Rightarrow> jsnum \<times> jstring" where
  "stripExprVersion exprStr =
     (if exprStr = [] then (Num 1, [])
      else case re_match (anchored version_prefix) exprStr of
             Some m \<Rightarrow> (js_Number (capture m 1), capture m 2)
           | None \<Rightarrow> (Num 1, exprStr))"

text \<open>The first coefficient of each variable; a missing one, 0 and \<open>NaN\<close> give 0.\<close>

definition coefficients :: "re_captures list \<Rightarrow> (jstring \<times> jsnum) list" where
  "coefficients ms = foldl (\<lambda>cs m. if map_of cs (capture m 1) \<noteq> None then cs
     else cs @ [(capture m 1, js_Number (capture m 2))]) [] ms"

definition parseTierBody :: "jstring \<Rightarrow> (jstring \<times> jsnum) list option" where
  "parseTierBody bodyStr = map_option (\<lambda>ms.
     map (\<lambda>(varName, field). (field, case map_of (coefficients ms) varName of Some x \<Rightarrow> num_or_0 x | None \<Rightarrow> Num 0))
       BILLING_VAR_KEY_TO_FIELD) (re_exec_all BILLING_VAR_REGEX [] bodyStr)"

text \<open>\<open>[\d.eE+]\<close>, and a comparison of the condition of a tier\<close>

definition bound_char :: "jchar \<Rightarrow> bool" where
  "bound_char c \<longleftrightarrow> is_digit c \<or> c = 46 \<or> c = 101 \<or> c = 69 \<or> c = 43"

definition cond_var :: re where "cond_var = alts (map lit [js ''p'', js ''c'', js ''len''])"
definition cond_op :: re where "cond_op = alts (map lit [js ''<'', js ''<='', js ''>'', js ''>=''])"
definition bound_run :: re where "bound_run = re_plus (Cls bound_char)"

definition comparison :: re where
  "comparison = seqs [cond_var, ws_star, cond_op, ws_star, bound_run]"

definition condGroup :: re where
  "condGroup = Cap 1 (Seq comparison (Star (seqs [ws_star, lit (js ''&&''), ws_star, cond_var, ws_star, cond_op, ws_star, bound_run])))"

definition tierRe :: "re list \<Rightarrow> re" where
  "tierRe bodyPat = seqs ([opt (seqs [condGroup, ws_star, lit (js ''?''), ws_star]), lit (js ''tier('' @ [34]),
     Cap 2 (Star (Cls not_quote)), lit ([34] @ js '',''), ws_star] @ bodyPat @ [lit (js '')'')])"

definition single_comparison :: "re list" where
  "single_comparison = [Cap 1 cond_var, ws_star, Cap 2 cond_op, ws_star, Cap 3 bound_run]"

text \<open>\<open>s.split(/\s*&&\s*/)\<close>: the parts between the matches of the separator.\<close>

definition and_separator :: re where "and_separator = seqs [ws_star, lit (js ''&&''), ws_star]"

function split_re :: "jstring \<Rightarrow> jstring \<Rightarrow> jstring list" where
  "split_re part [] = [rev part]"
| "split_re part (c # cs) = (case matches and_separator ([], c # cs, Map.empty) of
     st # _ \<Rightarrow> if length (re_rest st) < length (c # cs) then rev part # split_re [] (re_rest st) else split_re (c # part) cs
   | [] \<Rightarrow> split_re (c # part) cs)"
  by pat_completeness auto
termination by (relation "measure (\<lambda>(part, s). length s)") auto

definition parse_tier_condition :: "jstring \<Rightarrow> TierCondition option" where
  "parse_tier_condition cp = map_option (\<lambda>cm. \<lparr>tier_var = capture cm 1, tier_op = capture cm 2, tier_value = js_Number (capture cm 3)\<rparr>)
     (re_match (anchored single_comparison) (js_trim cp))"

definition parse_tier_conditions :: "jstring \<Rightarrow> TierCondition list" where
  "parse_tier_conditions condStr = (if condStr = [] then [] else List.map_filter parse_tier_condition (split_re [] condStr))"

definition tier_of_match :: "re_captures \<Rightarrow> ParsedTier option" where
  "tier_of_match m = map_option (\<lambda>prices. \<lparr>tier_label = capture m 2, tier_conditions = parse_tier_conditions (capture m 1),
     tier_prices = prices\<rparr>) (parseTierBody (capture m 3))"

definition parsedTierRe :: re where
  "parsedTierRe = tierRe [Cap 3 (re_plus (Cls (\<lambda>c. c \<noteq> 41)))]"

text \<open>\<open>None\<close> would be a loop that never ends.\<close>

definition parseTiersFromExpr :: "jstring \<Rightarrow> ParsedTier list option" where
  "parseTiersFromExpr exprStr =
     (if exprStr = [] then Some []
      else Option.bind (re_exec_all parsedTierRe [] (snd (stripExprVersion exprStr))) (\<lambda>ms. those (map tier_of_match ms)))"

section \<open>The visual editor\<close>

definition CACHE_MODE_TIMED :: jstring where "CACHE_MODE_TIMED = js ''timed''"
definition CACHE_MODE_GENERIC :: jstring where "CACHE_MODE_GENERIC = js ''generic''"

type_synonym VisualTier = "(jstring \<times> jsval) list"

record VisualConfig =
  tiers :: "VisualTier list"

definition getTierCacheMode :: "VisualTier option \<Rightarrow> jstring" where
  "getTierCacheMode tier =
     (let field = (\<lambda>k. case tier of None \<Rightarrow> JUndef | Some t \<Rightarrow> get_prop (JObj t) k)
      in if field (js ''cache_mode'') = JStr CACHE_MODE_TIMED then CACHE_MODE_TIMED
         else if field (js ''cache_mode'') = JStr CACHE_MODE_GENERIC then CACHE_MODE_GENERIC
         else if num_gt0 (js_to_number (field (js ''cache_create_1h_unit_cost''))) then CACHE_MODE_TIMED
         else CACHE_MODE_GENERIC)"

definition assign_fields :: "VisualTier \<Rightarrow> VisualTier \<Rightarrow> VisualTier" where
  "assign_fields obj es = foldl (\<lambda>o' e. AList.update (fst e) (snd e) o') obj es"

text \<open>The defaults are written before the fields of the tier, which overwrite them; only the costs of the extra variables come after.\<close>

definition normalizeVisualTier :: "VisualTier \<Rightarrow> VisualTier" where
  "normalizeVisualTier tier =
     (let field = get_prop (JObj tier); cost = (\<lambda>k. (k, JNum (num_or_0 (js_to_number (field k)))))
      in assign_fields (assign_fields
           [(js ''label'', if field (js ''label'') = JUndef \<or> field (js ''label'') = JNull then JStr [] else field (js ''label'')),
            cost (js ''input_unit_cost''), cost (js ''output_unit_cost''),
            (js ''cache_mode'', JStr (getTierCacheMode (Some tier))),
            (js ''conditions'', case field (js ''conditions'') of JArr cs \<Rightarrow> JArr cs | _ \<Rightarrow> JArr [])]
           tier)
         (map cost [js ''cache_read_unit_cost'', js ''cache_create_unit_cost'', js ''cache_create_1h_unit_cost'',
            js ''image_unit_cost'', js ''image_output_unit_cost'', js ''audio_input_unit_cost'', js ''audio_output_unit_cost'']))"

definition createDefaultVisualConfig :: VisualConfig where
  "createDefaultVisualConfig = \<lparr>tiers = [normalizeVisualTier
     [(js ''conditions'', JArr []), (js ''input_unit_cost'', JNum (Num 0)), (js ''output_unit_cost'', JNum (Num 0)),
      (js ''label'', JStr (js ''base'')), (js ''cache_mode'', JStr CACHE_MODE_GENERIC)]]\<rparr>"

definition normalizeVisualConfig :: "VisualConfig option \<Rightarrow> VisualConfig" where
  "normalizeVisualConfig config = (case config of
     None \<Rightarrow> createDefaultVisualConfig
   | Some c \<Rightarrow> if tiers c = [] then createDefaultVisualConfig else \<lparr>tiers = map normalizeVisualTier (tiers c)\<rparr>)"

definition buildConditionStr :: "jsval \<Rightarrow> jstring" where
  "buildConditionStr conds = (case conds of
     JArr cs \<Rightarrow> js_join (js '' && '')
       (map (\<lambda>c. js_String (get_prop c (js ''var'')) @ js '' '' @ js_String (get_prop c (js ''op'')) @ js '' '' @ js_String (get_prop c (js ''value'')))
         (filter (\<lambda>c. truthy (get_prop c (js ''var'')) \<and> truthy (get_prop c (js ''op'')) \<and>
            get_prop c (js ''value'') \<noteq> JUndef \<and> get_prop c (js ''value'') \<noteq> JNull \<and> get_prop c (js ''value'') \<noteq> JStr []) cs))
   | _ \<Rightarrow> [])"

definition tier_cost :: "VisualTier \<Rightarrow> jstring \<Rightarrow> jsnum" where
  "tier_cost tier k = num_or_0 (js_to_number (get_prop (JObj tier) k))"

definition buildTierBodyExpr :: "VisualTier \<Rightarrow> jstring" where
  "buildTierBodyExpr tier = js_join (js '' + '')
     ([js ''p * '' @ num_to_string (tier_cost tier (js ''input_unit_cost'')),
       js ''c * '' @ num_to_string (tier_cost tier (js ''output_unit_cost''))] @
      map (\<lambda>(field, exprVar). exprVar @ js '' * '' @ num_to_string (tier_cost tier field))
        (filter (\<lambda>(field, exprVar). tier_cost tier field \<noteq> Num 0) BILLING_CACHE_VAR_MAP))"

definition tier_call :: "VisualTier \<Rightarrow> jstring \<Rightarrow> jstring" where
  "tier_call tier fallback = js ''tier('' @ [34] @ js_String (js_or (get_prop (JObj tier) (js ''label'')) (JStr fallback)) @ [34] @ js '', '' @
     buildTierBodyExpr tier @ js '')''"

text \<open>The parts of an expression with several tiers; the conditions of the last one are left out.\<close>

fun tier_parts :: "nat \<Rightarrow> VisualTier list \<Rightarrow> jstring list" where
  "tier_parts i [] = []"
| "tier_parts i (t # ts) =
     (let body = tier_call t (js ''tier_'' @ show_nat (i + 1)); cond = buildConditionStr (get_prop (JObj t) (js ''conditions''))
      in (if ts \<noteq> [] \<and> cond \<noteq> [] then cond @ js '' ? '' @ body else body) # tier_parts (i + 1) ts)"

definition generateExprFromVisualConfig :: "VisualConfig option \<Rightarrow> jstring" where
  "generateExprFromVisualConfig config = (case config of
     None \<Rightarrow> js ''p * 0 + c * 0''
   | Some c \<Rightarrow> (case tiers c of
       [] \<Rightarrow> js ''p * 0 + c * 0''
     | [t] \<Rightarrow> (let body = tier_call t (js ''default''); cond = buildConditionStr (get_prop (JObj t) (js ''conditions''))
         in if cond \<noteq> [] then cond @ js '' ? '' @ body @ js '' : p * 0 + c * 0'' else body)
     | ts \<Rightarrow> js_join (js '' : '') (tier_parts 0 ts)))"

section \<open>Reading the configuration of the editor\<close>

definition extra_pattern :: "nat \<Rightarrow> jstring \<Rightarrow> re" where
  "extra_pattern n v = opt (seqs [ws_star, lit (js ''+''), ws_star, lit v, ws_star, lit (js ''*''), ws_star, Cap n num_run])"

text \<open>The captures are numbered from \<open>n\<close>.\<close>

definition bodyPat :: "nat \<Rightarrow> re list" where
  "bodyPat n = [lit (js ''p''), ws_star, lit (js ''*''), ws_star, Cap n num_run, ws_star, lit (js ''+''), ws_star,
     lit (js ''c''), ws_star, lit (js ''*''), ws_star, Cap (n + 1) num_run] @
     map (\<lambda>(i, cv). extra_pattern (n + 2 + i) (snd cv)) (List.enumerate 0 BILLING_CACHE_VAR_MAP)"

definition singleRe :: "re list" where
  "singleRe = [lit (js ''tier('' @ [34]), Cap 1 (Star (Cls not_quote)), lit ([34] @ js '',''), ws_star] @ bodyPat 2 @ [lit (js '')'')]"

definition visualTierRe :: re where "visualTierRe = tierRe (bodyPat 3)"

text \<open>The tier of a match whose captures of the body begin at \<open>n\<close>.\<close>

definition condition_value :: "TierCondition \<Rightarrow> jsval" where
  "condition_value c = JObj [(js ''var'', JStr (tier_var c)), (js ''op'', JStr (tier_op c)), (js ''value'', JNum (tier_value c))]"

definition matched_tier :: "nat \<Rightarrow> jstring \<Rightarrow> TierCondition list \<Rightarrow> re_captures \<Rightarrow> VisualTier" where
  "matched_tier n lbl conds m = normalizeVisualTier
     ([(js ''conditions'', JArr (map condition_value conds)),
       (js ''input_unit_cost'', JNum (js_Number (capture m n))), (js ''output_unit_cost'', JNum (js_Number (capture m (n + 1)))),
       (js ''label'', JStr lbl)] @
      List.map_filter (\<lambda>(i, cv). map_option (\<lambda>w. (fst cv, JNum (js_Number w))) (m (n + 2 + i))) (List.enumerate 0 BILLING_CACHE_VAR_MAP))"

definition strip_ws :: "jstring \<Rightarrow> jstring" where
  "strip_ws s = filter (\<lambda>c. \<not> is_ws c) s"

definition tryParseVisualConfig :: "jstring option \<Rightarrow> VisualConfig option option" where
  "tryParseVisualConfig exprStr = (case exprStr of
     None \<Rightarrow> Some None
   | Some [] \<Rightarrow> Some None
   | Some s \<Rightarrow>
       (let body = (case re_match (anchored version_prefix) s of Some m \<Rightarrow> capture m 2 | None \<Rightarrow> s)
        in case re_match (anchored singleRe) body of
             Some m \<Rightarrow> Some (Some (normalizeVisualConfig (Some \<lparr>tiers = [matched_tier 2 (capture m 1) [] m]\<rparr>)))
           | None \<Rightarrow> map_option (\<lambda>ms.
               (let cfg = normalizeVisualConfig (Some \<lparr>tiers =
                      map (\<lambda>m. matched_tier 3 (capture m 2) (parse_tier_conditions (capture m 1)) m) ms\<rparr>)
                in if ms = [] then None
                   else if strip_ws (generateExprFromVisualConfig (Some cfg)) \<noteq> strip_ws body then None
                   else Some cfg)) (re_exec_all visualTierRe [] body)))"

section \<open>The variables of the estimator\<close>

definition ESTIMATOR_VARS :: "(jstring \<times> jstring) list" where
  "ESTIMATOR_VARS = [(js ''cr'', js ''cacheReadTokens''), (js ''cc'', js ''cacheCreateTokens''), (js ''cc1h'', js ''cacheCreate1hTokens''),
     (js ''img'', js ''imageTokens''), (js ''img_o'', js ''imageOutputTokens''), (js ''ai'', js ''audioInputTokens''),
     (js ''ao'', js ''audioOutputTokens'')]"

definition exprUsesExtraVars :: "jstring \<Rightarrow> bool" where
  "exprUsesExtraVars exprStr \<longleftrightarrow> exprStr \<noteq> [] \<and>
     re_match (seqs [WordBound, Cap 1 (alts (map (lit \<circ> fst) ESTIMATOR_VARS)), WordBound]) exprStr \<noteq> None"

end
