(* ===== verification/Tier_Text.thy ===== *)
theory Tier_Text
  imports Tier_Expr
begin

text \<open>
  How the texts of tiers are matched: comparisons, calls of \<open>tier\<close>, a whole expression, and the body of
  a tier.  Each part of a text that the editor prints is found by the expressions of the reader exactly
  as it was printed.
\<close>

section \<open>The conditions of a tier\<close>

definition COND_VARS :: "jstring list" where "COND_VARS = [js ''p'', js ''c'', js ''len'']"
definition COND_OPS :: "jstring list" where "COND_OPS = [js ''<'', js ''<='', js ''>'', js ''>='']"

text \<open>A number as it is printed in a condition.\<close>

definition bound_text :: "jstring \<Rightarrow> bool" where
  "bound_text n \<longleftrightarrow> n \<noteq> [] \<and> (\<forall>x \<in> set n. bound_char x)"

definition comparison_text :: "jstring \<Rightarrow> jstring \<Rightarrow> jstring \<Rightarrow> jstring" where
  "comparison_text v rel n = v @ js '' '' @ rel @ js '' '' @ n"

lemma bound_not: "bound_char x \<Longrightarrow> \<not> is_ws x \<and> x \<noteq> 32 \<and> x \<noteq> 38 \<and> x \<noteq> 60 \<and> x \<noteq> 61 \<and> x \<noteq> 62 \<and> x \<noteq> 63 \<and> num_char x"
  by (auto simp: bound_char_def is_digit_def is_ws_def num_char_def)

lemma cond_var_best:
  assumes "v \<in> set COND_VARS"
  shows "best cond_var (l, v @ js '' '' @ r, c) = Some (rev v @ l, js '' '' @ r, c)"
  using assms unfolding cond_var_def COND_VARS_def
  by (auto simp: best_def matches.simps matches_lit advance_def js_Cons)

lemma bound_hd: "bound_text n \<Longrightarrow> n @ r = [] \<or> \<not> is_ws (hd (n @ r))"
  using bound_not by (cases n) (auto simp: bound_text_def)

lemma relation_matches:
  "matches cond_op (l, js ''<'' @ js '' '' @ r, c) = [(rev (js ''<'') @ l, js '' '' @ r, c)]"
  "matches cond_op (l, js ''>'' @ js '' '' @ r, c) = [(rev (js ''>'') @ l, js '' '' @ r, c)]"
  "matches cond_op (l, js ''<='' @ js '' '' @ r, c) = [(rev (js ''<'') @ l, js ''='' @ js '' '' @ r, c)] @ (rev (js ''<='') @ l, js '' '' @ r, c) # []"
  "matches cond_op (l, js ''>='' @ js '' '' @ r, c) = [(rev (js ''>'') @ l, js ''='' @ js '' '' @ r, c)] @ (rev (js ''>='') @ l, js '' '' @ r, c) # []"
  by (simp_all add: cond_op_def matches.simps matches_lit advance_def js_Cons)

lemma equals_fail: "matches (seqs (ws_star # bound_run # as)) (l, js ''='' @ r, c) = []"
proof -
  have "matches ws_star (l, js ''='' @ r, c) = [(l, js ''='' @ r, c)]" by (rule ws_fail) (simp add: js_Cons is_ws_def)
  moreover have "matches (seqs (bound_run # as)) (l, js ''='' @ r, c) = []"
    unfolding bound_run_def by (intro seqs_fail_first plus_fail) (simp add: js_Cons bound_char_def is_digit_def)
  ultimately show ?thesis by (rule seqs_fail)
qed

lemma relation_best:
  assumes "rel \<in> set COND_OPS" "bound_text n"
    and "best (seqs (bound_run # as)) (rev (js '' '') @ rev rel @ l, n @ r, c) = Some z"
  shows "best (seqs (cond_op # ws_star # bound_run # as)) (l, rel @ js '' '' @ n @ r, c) = Some z"
proof -
  have b: "best (seqs (ws_star # bound_run # as)) (rev rel @ l, js '' '' @ n @ r, c) = Some z"
    using assms(3) by (intro best_seqs [OF best_ws_one]) (use bound_hd [OF assms(2)] in simp_all)
  have "rel = js ''<'' \<or> rel = js ''>'' \<or> rel = js ''<='' \<or> rel = js ''>=''"
    using assms(1) by (auto simp: COND_OPS_def)
  then show ?thesis
  proof (elim disjE)
    assume "rel = js ''<''"
    then show ?thesis using b best_seqs_skip [of cond_op _ "[]", OF _ _ b] relation_matches(1) by simp
  next
    assume "rel = js ''>''"
    then show ?thesis using b best_seqs_skip [of cond_op _ "[]", OF _ _ b] relation_matches(2) by simp
  next
    assume r: "rel = js ''<=''"
    show ?thesis unfolding r
      by (rule best_seqs_skip [OF relation_matches(3)]) (use b r equals_fail in simp_all)
  next
    assume r: "rel = js ''>=''"
    show ?thesis unfolding r
      by (rule best_seqs_skip [OF relation_matches(4)]) (use b r equals_fail in simp_all)
  qed
qed

text \<open>A comparison is found as it was printed, if no further character of a number follows.\<close>

lemma comparison_best:
  assumes "v \<in> set COND_VARS" "rel \<in> set COND_OPS" "bound_text n" "r = [] \<or> \<not> bound_char (hd r)"
  shows "best (seqs [cond_var, ws_star, cond_op, ws_star, bound_run]) (l, comparison_text v rel n @ r, c) =
    Some (rev (comparison_text v rel n) @ l, r, c)"
proof -
  have n: "best bound_run (l', n @ r, c) = Some (rev n @ l', r, c)" for l'
    unfolding bound_run_def using assms(3,4) by (intro best_plus_Cls) (auto simp: bound_text_def)
  define l1 where "l1 = rev (js '' '') @ rev v @ l"
  have "best (seqs [bound_run]) (rev (js '' '') @ rev rel @ l1, n @ r, c) = Some (rev n @ rev (js '' '') @ rev rel @ l1, r, c)"
    by (rule best_seqs [OF n best_seqs_Nil])
  then have o: "best (seqs [cond_op, ws_star, bound_run]) (l1, rel @ js '' '' @ n @ r, c) = Some (rev n @ rev (js '' '') @ rev rel @ l1, r, c)"
    by (rule relation_best [OF assms(2,3)])
  have "rel @ js '' '' @ n @ r = [] \<or> \<not> is_ws (hd (rel @ js '' '' @ n @ r))"
    using assms(2) by (auto simp: COND_OPS_def js_Cons is_ws_def)
  then have w: "best ws_star (rev v @ l, js '' '' @ rel @ js '' '' @ n @ r, c) = Some (l1, rel @ js '' '' @ n @ r, c)"
    unfolding l1_def by (rule best_ws_one)
  show ?thesis
    unfolding comparison_text_def append_assoc
    by (rule best_seqs [OF cond_var_best [OF assms(1)] best_seqs [OF w, of _ "(rev n @ rev (js '' '') @ rev rel @ l1, r, c)"], THEN trans])
      (use o in \<open>simp_all add: l1_def\<close>)
qed

type_synonym cond_text = "jstring \<times> jstring \<times> jstring"

definition cond_ok :: "cond_text \<Rightarrow> bool" where
  "cond_ok x = (case x of (v, rel, n) \<Rightarrow> v \<in> set COND_VARS \<and> rel \<in> set COND_OPS \<and> bound_text n)"

definition cond_printed :: "cond_text \<Rightarrow> jstring" where
  "cond_printed x = (case x of (v, rel, n) \<Rightarrow> comparison_text v rel n)"

fun more_conds :: "cond_text list \<Rightarrow> jstring" where
  "more_conds [] = []"
| "more_conds (x # xs) = js '' && '' @ cond_printed x @ more_conds xs"

lemma join_conds: "js_join (js '' && '') (map cond_printed (x # xs)) = cond_printed x @ more_conds xs"
  by (induction xs arbitrary: x) simp_all

definition and_comparison :: re where
  "and_comparison = seqs [ws_star, lit (js ''&&''), ws_star, cond_var, ws_star, cond_op, ws_star, bound_run]"

lemma cond_printed_hd: "cond_ok x \<Longrightarrow> cond_printed x @ r = [] \<or> \<not> is_ws (hd (cond_printed x @ r))"
  by (auto simp: cond_ok_def cond_printed_def comparison_text_def COND_VARS_def js_Cons is_ws_def)

lemma and_comparison_best:
  assumes "cond_ok x" "r = [] \<or> \<not> bound_char (hd r)"
  shows "best and_comparison (l, js '' && '' @ cond_printed x @ r, c) = Some (rev (cond_printed x) @ rev (js '' && '') @ l, r, c)"
proof -
  obtain v rel n where x: "x = (v, rel, n)" "v \<in> set COND_VARS" "rel \<in> set COND_OPS" "bound_text n"
    using assms(1) by (auto simp: cond_ok_def)
  define s where "s = cond_printed x @ r"
  define l3 where "l3 = rev (js '' '') @ rev (js ''&&'') @ rev (js '' '') @ l"
  have c: "best (seqs [cond_var, ws_star, cond_op, ws_star, bound_run]) (l3, s, c) = Some (rev (cond_printed x) @ l3, r, c)"
    unfolding s_def using comparison_best [OF x(2-4) assms(2)] by (simp add: x(1) cond_printed_def)
  have w1: "best ws_star (l, js '' '' @ js ''&&'' @ js '' '' @ s, c) = Some (rev (js '' '') @ l, js ''&&'' @ js '' '' @ s, c)"
    by (rule best_ws_one) (simp add: js_Cons is_ws_def)
  have w2: "best ws_star (rev (js ''&&'') @ rev (js '' '') @ l, js '' '' @ s, c) = Some (l3, s, c)"
    unfolding l3_def by (rule best_ws_one) (use cond_printed_hd [OF assms(1)] in \<open>simp add: s_def\<close>)
  have "best and_comparison (l, js '' '' @ js ''&&'' @ js '' '' @ s, c) = Some (rev (cond_printed x) @ l3, r, c)"
    unfolding and_comparison_def by (rule best_seqs [OF w1 best_seqs [OF best_lit best_seqs [OF w2 c]]])
  then show ?thesis by (simp add: s_def l3_def js_Cons)
qed

lemma and_comparison_stop: "matches and_comparison (l, js '' '' @ js ''?'' @ r, c) = []"
  unfolding and_comparison_def by (rule ws_lit_fail) (simp_all add: js_Cons is_ws_def)

lemma more_conds_best:
  "list_all cond_ok xs \<Longrightarrow>
   best (Star and_comparison) (l, more_conds xs @ js '' '' @ js ''?'' @ r, c) = Some (rev (more_conds xs) @ l, js '' '' @ js ''?'' @ r, c)"
proof (induction xs arbitrary: l)
  case Nil
  then show ?case by (simp add: best_Star_stop and_comparison_stop)
next
  case (Cons x xs)
  define t where "t = more_conds xs @ js '' '' @ js ''?'' @ r"
  have "t = [] \<or> \<not> bound_char (hd t)"
    by (cases xs) (auto simp: t_def js_Cons bound_char_def is_digit_def)
  then have "best and_comparison (l, js '' && '' @ cond_printed x @ t, c) = Some (rev (cond_printed x) @ rev (js '' && '') @ l, t, c)"
    using Cons.prems by (intro and_comparison_best) simp_all
  then have "best (Star and_comparison) (l, js '' && '' @ cond_printed x @ t, c) =
      Some (rev (more_conds xs) @ rev (cond_printed x) @ rev (js '' && '') @ l, js '' '' @ js ''?'' @ r, c)"
  proof (rule best_Star_step)
    show "best (Star and_comparison) (rev (cond_printed x) @ rev (js '' && '') @ l, t, c) =
        Some (rev (more_conds xs) @ rev (cond_printed x) @ rev (js '' && '') @ l, js '' '' @ js ''?'' @ r, c)"
      unfolding t_def using Cons by simp
  qed (simp add: re_rest_def js_Cons)
  then show ?case by (simp add: t_def)
qed

lemma condGroup_best:
  assumes "list_all cond_ok (x # xs)"
  shows "best condGroup (l, js_join (js '' && '') (map cond_printed (x # xs)) @ js '' '' @ js ''?'' @ r, c) =
    Some (rev (js_join (js '' && '') (map cond_printed (x # xs))) @ l, js '' '' @ js ''?'' @ r,
          c(1 \<mapsto> js_join (js '' && '') (map cond_printed (x # xs))))"
proof -
  define t where "t = js '' '' @ js ''?'' @ r"
  obtain v rel n where x: "x = (v, rel, n)" "v \<in> set COND_VARS" "rel \<in> set COND_OPS" "bound_text n"
    using assms by (auto simp: cond_ok_def)
  have "more_conds xs @ t = [] \<or> \<not> bound_char (hd (more_conds xs @ t))"
    by (cases xs) (auto simp: t_def js_Cons bound_char_def is_digit_def)
  then have "best comparison (l, cond_printed x @ more_conds xs @ t, c) = Some (rev (cond_printed x) @ l, more_conds xs @ t, c)"
    unfolding comparison_def using comparison_best [OF x(2-4)] by (simp add: x(1) cond_printed_def)
  moreover have "best (Star and_comparison) (rev (cond_printed x) @ l, more_conds xs @ t, c) =
      Some (rev (more_conds xs) @ rev (cond_printed x) @ l, t, c)"
    unfolding t_def using assms by (intro more_conds_best) simp
  ultimately have "best (Seq comparison (Star and_comparison)) (l, cond_printed x @ more_conds xs @ t, c) =
      Some (rev (more_conds xs) @ rev (cond_printed x) @ l, t, c)"
    by (rule best_Seq)
  then have "best (Seq comparison (Star and_comparison)) (l, (cond_printed x @ more_conds xs) @ t, c) =
      Some (rev (cond_printed x @ more_conds xs) @ l, t, c)"
    by simp
  from best_Cap [OF this, of 1] show ?thesis
    unfolding condGroup_def and_comparison_def [symmetric] join_conds t_def .
qed

section \<open>One tier\<close>

record tier_text =
  text_conds :: "cond_text list"
  text_label :: jstring
  text_body :: jstring

definition tier_text_ok :: "tier_text \<Rightarrow> bool" where
  "tier_text_ok t \<longleftrightarrow> list_all cond_ok (text_conds t) \<and> 34 \<notin> set (text_label t) \<and>
     text_body t \<noteq> [] \<and> 41 \<notin> set (text_body t) \<and> \<not> is_ws (hd (text_body t))"

definition call_printed :: "tier_text \<Rightarrow> jstring" where
  "call_printed t = js ''tier('' @ [34] @ text_label t @ [34] @ js '', '' @ text_body t @ js '')''"

definition conds_printed :: "tier_text \<Rightarrow> jstring" where
  "conds_printed t = js_join (js '' && '') (map cond_printed (text_conds t))"

definition tier_printed :: "tier_text \<Rightarrow> jstring" where
  "tier_printed t = (if text_conds t = [] then call_printed t else conds_printed t @ js '' ? '' @ call_printed t)"

definition tier_captures :: "tier_text \<Rightarrow> re_captures" where
  "tier_captures t = ((if text_conds t = [] then Map.empty else [1 \<mapsto> conds_printed t])(2 \<mapsto> text_label t))(3 \<mapsto> text_body t)"

definition call_parts :: "re list" where
  "call_parts = [lit (js ''tier('' @ [34]), Cap 2 (Star (Cls not_quote)), lit ([34] @ js '',''), ws_star,
     Cap 3 (re_plus (Cls (\<lambda>c. c \<noteq> 41))), lit (js '')'')]"

lemma parsedTierRe_eq: "parsedTierRe = seqs (opt (seqs [condGroup, ws_star, lit (js ''?''), ws_star]) # call_parts)"
  by (simp add: parsedTierRe_def tierRe_def call_parts_def)

lemma call_best:
  assumes "tier_text_ok t"
  shows "best (seqs call_parts) (l, call_printed t @ r, c) = Some (rev (call_printed t) @ l, r, (c(2 \<mapsto> text_label t))(3 \<mapsto> text_body t))"
proof -
  define l1 where "l1 = rev (js ''tier('' @ [34]) @ l"
  define l2 where "l2 = rev (text_label t) @ l1"
  define l3 where "l3 = rev ([34] @ js '','') @ l2"
  define l4 where "l4 = rev (js '' '') @ l3"
  define l5 where "l5 = rev (text_body t) @ l4"
  define c1 where "c1 = c(2 \<mapsto> text_label t)"
  have ok: "34 \<notin> set (text_label t)" "text_body t \<noteq> []" "41 \<notin> set (text_body t)" "\<not> is_ws (hd (text_body t))"
    using assms by (auto simp: tier_text_ok_def)
  have s1: "best (lit (js ''tier('' @ [34])) (l, (js ''tier('' @ [34]) @ s, c) = Some (l1, s, c)" for s
    unfolding l1_def by (rule best_lit)
  have "best (Star (Cls not_quote)) (l1, text_label t @ ([34] @ js '','') @ s, c) = Some (l2, ([34] @ js '','') @ s, c)" for s
    unfolding l2_def using ok(1) by (intro best_Star_Cls) (auto simp: not_quote_def)
  then have s2: "best (Cap 2 (Star (Cls not_quote))) (l1, text_label t @ ([34] @ js '','') @ s, c) = Some (l2, ([34] @ js '','') @ s, c1)" for s
    unfolding l2_def c1_def by (intro best_Cap)
  have s3: "best (lit ([34] @ js '','')) (l2, ([34] @ js '','') @ s, c1) = Some (l3, s, c1)" for s
    unfolding l3_def by (rule best_lit)
  have s4: "best ws_star (l3, js '' '' @ text_body t @ s, c1) = Some (l4, text_body t @ s, c1)" for s
    unfolding l4_def using ok(2,4) by (intro best_ws_one) simp
  have "best (re_plus (Cls (\<lambda>c. c \<noteq> 41))) (l4, text_body t @ js '')'' @ r, c1) = Some (l5, js '')'' @ r, c1)"
    unfolding l5_def using ok(2,3) by (intro best_plus_Cls) (auto simp: js_Cons)
  then have s5: "best (Cap 3 (re_plus (Cls (\<lambda>c. c \<noteq> 41)))) (l4, text_body t @ js '')'' @ r, c1) = Some (l5, js '')'' @ r, c1(3 \<mapsto> text_body t))"
    unfolding l5_def by (intro best_Cap)
  have "best (seqs call_parts) (l, (js ''tier('' @ [34]) @ text_label t @ ([34] @ js '','') @ js '' '' @ text_body t @ js '')'' @ r, c) =
      Some (rev (js '')'') @ l5, r, c1(3 \<mapsto> text_body t))"
    unfolding call_parts_def
    by (rule best_seqs [OF s1 best_seqs [OF s2 best_seqs [OF s3 best_seqs [OF s4 best_seqs [OF s5 best_seqs [OF best_lit best_seqs_Nil]]]]]])
  then show ?thesis
    by (simp add: call_printed_def l1_def l2_def l3_def l4_def l5_def c1_def js_Cons)
qed

lemma no_cond_start: "s = [] \<or> hd s \<notin> {112, 99, 108} \<Longrightarrow> matches (seqs (condGroup # as)) (l, s, c) = []"
proof -
  assume s: "s = [] \<or> hd s \<notin> {112, 99, 108}"
  have "matches cond_var (l, s, c) = []"
    using s by (cases s) (auto simp: cond_var_def matches.simps matches_lit advance_def js_Cons)
  then have "matches comparison (l, s, c) = []" unfolding comparison_def by (rule seqs_fail_first)
  then show ?thesis by (simp add: seqs_Cons matches.simps condGroup_def)
qed

lemma tier_best:
  assumes "tier_text_ok t"
  shows "best parsedTierRe (l, tier_printed t @ r, Map.empty) = Some (rev (tier_printed t) @ l, r, tier_captures t)"
proof (cases "text_conds t")
  case Nil
  have h: "call_printed t @ r = [] \<or> hd (call_printed t @ r) \<notin> {112, 99, 108}" by (simp add: call_printed_def js_Cons)
  show ?thesis
    unfolding parsedTierRe_eq using best_seqs [OF best_opt_none [OF no_cond_start [OF h]] call_best [OF assms]] Nil
    by (simp add: tier_printed_def tier_captures_def)
next
  case (Cons x xs)
  define s where "s = call_printed t @ r"
  define m where "m = [(1 :: nat) \<mapsto> conds_printed t]"
  define l1 where "l1 = rev (conds_printed t) @ l"
  have g: "best condGroup (l, conds_printed t @ js '' '' @ js ''?'' @ js '' '' @ s, Map.empty) = Some (l1, js '' '' @ js ''?'' @ js '' '' @ s, m)"
    using condGroup_best [of x xs l "js '' '' @ s" Map.empty] assms Cons by (simp add: conds_printed_def tier_text_ok_def l1_def m_def)
  have w1: "best ws_star (l1, js '' '' @ js ''?'' @ js '' '' @ s, m) = Some (rev (js '' '') @ l1, js ''?'' @ js '' '' @ s, m)"
    by (rule best_ws_one) (simp add: js_Cons is_ws_def)
  have w2: "best ws_star (rev (js ''?'') @ rev (js '' '') @ l1, js '' '' @ s, m) = Some (rev (js '' '') @ rev (js ''?'') @ rev (js '' '') @ l1, s, m)"
    by (rule best_ws_one) (simp add: s_def call_printed_def js_Cons is_ws_def)
  have o: "best (opt (seqs [condGroup, ws_star, lit (js ''?''), ws_star])) (l, conds_printed t @ js '' '' @ js ''?'' @ js '' '' @ s, Map.empty) =
      Some (rev (js '' '') @ rev (js ''?'') @ rev (js '' '') @ l1, s, m)"
    by (rule best_opt [OF best_seqs [OF g best_seqs [OF w1 best_seqs [OF best_lit best_seqs [OF w2 best_seqs_Nil]]]]])
  show ?thesis
    unfolding parsedTierRe_eq using best_seqs [OF o [unfolded s_def] call_best [OF assms]] Cons
    by (simp add: tier_printed_def tier_captures_def s_def m_def l1_def js_Cons)
qed

section \<open>All tiers of an expression\<close>

lemma consuming_tier: "consuming parsedTierRe"
  unfolding parsedTierRe_eq by (rule consuming_seqs) (simp add: call_parts_def consuming_lit)

lemma call_fail: "s = [] \<or> hd s \<noteq> 116 \<Longrightarrow> matches (seqs call_parts) (l, s, c) = []"
  unfolding call_parts_def by (rule seqs_fail_first, rule matches_lit_fail) (cases s; simp add: js_Cons)

lemma tier_fail:
  assumes "matches (seqs [condGroup, ws_star, lit (js ''?''), ws_star]) (l, s, c) = []" "s = [] \<or> hd s \<noteq> 116"
  shows "matches parsedTierRe (l, s, c) = []"
proof -
  have "matches (opt (seqs [condGroup, ws_star, lit (js ''?''), ws_star])) (l, s, c) = [(l, s, c)]"
    using assms(1) by (simp add: opt_def matches.simps)
  then show ?thesis unfolding parsedTierRe_eq using call_fail [OF assms(2)] by (rule seqs_fail)
qed

lemma tier_skip: "x \<notin> {112, 99, 108, 116} \<Longrightarrow> re_exec_all parsedTierRe l (x # s) = re_exec_all parsedTierRe (x # l) s"
  by (intro re_exec_all_skip consuming_tier tier_fail no_cond_start) auto

lemma tier_exec_Nil: "re_exec_all parsedTierRe l [] = Some []"
  by (intro re_exec_all_none re_search_end tier_fail no_cond_start) auto

lemma tier_exec_colon: "re_exec_all parsedTierRe l (js '' : '' @ s) = re_exec_all parsedTierRe (rev (js '' : '') @ l) s"
  by (simp add: js_Cons tier_skip)

text \<open>A variable with a factor is no condition.\<close>

lemma product_no_cond:
  assumes "v \<in> {js ''p'', js ''c''}"
  shows "re_exec_all parsedTierRe l (v @ js '' * '' @ s) = re_exec_all parsedTierRe (rev v @ l) (js '' * '' @ s)"
proof -
  obtain x where v: "v = [x]" "x \<in> {112, 99}" using assms by (auto simp: js_Cons)
  have f: "\<not> js_starts_with (js ''* '' @ s) w \<and> \<not> js_starts_with (js '' '' @ js ''* '' @ s) w" if "w \<in> set COND_OPS" for w
    using that by (auto simp: COND_OPS_def js_Cons)
  have "matches cond_op st = []" if "st = (l', js '' '' @ js ''* '' @ s, c') \<or> st = (l', js ''* '' @ s, c')" for st l' c'
    using that by (auto simp: cond_op_def matches.simps matches_lit advance_def js_Cons)
  moreover have "matches ws_star (x # l, js '' '' @ js ''* '' @ s, Map.empty) =
      [(32 # x # l, js ''* '' @ s, Map.empty), (x # l, js '' '' @ js ''* '' @ s, Map.empty)]"
    by (simp add: ws_star_def matches_Star_Cls js_Cons is_ws_def)
  ultimately have "matches (seqs [ws_star, cond_op, ws_star, bound_run]) (x # l, js '' '' @ js ''* '' @ s, Map.empty) = []"
    by (simp add: seqs_Cons matches.simps)
  moreover have "matches cond_var (l, x # js '' '' @ js ''* '' @ s, Map.empty) = [(x # l, js '' '' @ js ''* '' @ s, Map.empty)]"
    using v(2) by (auto simp: cond_var_def matches.simps matches_lit advance_def js_Cons)
  ultimately have "matches comparison (l, x # js '' '' @ js ''* '' @ s, Map.empty) = []"
    unfolding comparison_def by (rule seqs_fail [rotated])
  then have "matches (seqs [condGroup, ws_star, lit (js ''?''), ws_star]) (l, x # js '' '' @ js ''* '' @ s, Map.empty) = []"
    by (simp add: seqs_Cons matches.simps condGroup_def)
  then have "matches parsedTierRe (l, x # js '' '' @ js ''* '' @ s, Map.empty) = []"
    using v(2) by (intro tier_fail) auto
  then show ?thesis using re_exec_all_skip [OF consuming_tier] v by (simp add: js_Cons)
qed

lemma tier_exec_default: "re_exec_all parsedTierRe l (js '' : p * 0 + c * 0'') = Some []"
proof -
  have a: "js '' : p * 0 + c * 0'' = js '' : '' @ js ''p'' @ js '' * '' @ js ''0 + c * 0''"
    "js '' * '' @ js ''0 + c * 0'' = js '' * 0 + '' @ js ''c'' @ js '' * '' @ js ''0''" by (simp_all add: js_Cons)
  have "re_exec_all parsedTierRe l' (js '' * 0 + '' @ s) = re_exec_all parsedTierRe (rev (js '' * 0 + '') @ l') s" for l' s
    by (simp add: js_Cons tier_skip)
  moreover have "re_exec_all parsedTierRe l' (js '' * '' @ js ''0'') = Some []" for l'
    by (simp add: js_Cons tier_skip tier_exec_Nil)
  ultimately show ?thesis
    unfolding a(1) tier_exec_colon
    by (subst product_no_cond, simp) (subst a(2), simp add: product_no_cond)
qed

lemma tiers_exec:
  assumes "list_all tier_text_ok ts" "\<And>l. re_exec_all parsedTierRe l suffix = Some []"
  shows "re_exec_all parsedTierRe l (js_join (js '' : '') (map tier_printed ts) @ suffix) = Some (map tier_captures ts)"
  using assms(1)
proof (induction ts arbitrary: l rule: induct_list012)
  case 1
  then show ?case using assms(2) by simp
next
  case (2 t)
  have "re_search parsedTierRe l (tier_printed t @ suffix) = Some (rev (tier_printed t) @ l, suffix, tier_captures t)"
    using 2 by (intro re_search_here tier_best) simp
  moreover have "tier_printed t \<noteq> []" by (simp add: tier_printed_def call_printed_def js_Cons)
  ultimately show ?case using assms(2) by (simp add: re_exec_all_step)
next
  case (3 t u ts)
  define s where "s = js '' : '' @ js_join (js '' : '') (map tier_printed (u # ts)) @ suffix"
  have "re_search parsedTierRe l (tier_printed t @ s) = Some (rev (tier_printed t) @ l, s, tier_captures t)"
    using 3(3) by (intro re_search_here tier_best) simp
  moreover have "tier_printed t \<noteq> []" by (simp add: tier_printed_def call_printed_def js_Cons)
  moreover have "re_exec_all parsedTierRe (rev (tier_printed t) @ l) s = Some (map tier_captures (u # ts))"
    unfolding s_def tier_exec_colon using 3 by simp
  ultimately show ?case by (simp add: re_exec_all_step s_def)
qed

section \<open>The conditions are read back\<close>

lemma separator_best:
  assumes "s = [] \<or> \<not> is_ws (hd s)"
  shows "best and_separator (l, js '' && '' @ s, c) = Some (rev (js '' && '') @ l, s, c)"
proof -
  have w: "best ws_star (l, js '' '' @ js ''&&'' @ js '' '' @ s, c) = Some (rev (js '' '') @ l, js ''&&'' @ js '' '' @ s, c)"
    by (rule best_ws_one) (simp add: js_Cons is_ws_def)
  have "best and_separator (l, js '' '' @ js ''&&'' @ js '' '' @ s, c) =
      Some (rev (js '' '') @ rev (js ''&&'') @ rev (js '' '') @ l, s, c)"
    unfolding and_separator_def
    by (rule best_seqs [OF w best_seqs [OF best_lit best_seqs [OF best_ws_one best_seqs_Nil]]]) (rule assms)
  then show ?thesis by (simp add: js_Cons)
qed

lemma separator_fail:
  assumes "dropWhile is_ws s = [] \<or> hd (dropWhile is_ws s) \<noteq> 38"
  shows "matches and_separator (l, s, c) = []"
proof -
  have "matches (seqs (lit (js ''&&'') # as)) (l', drop k s, c) = []" if "k \<le> length (takeWhile is_ws s)" for k l' as
  proof (rule seqs_fail_first, rule matches_lit_fail)
    have "drop k s = drop k (takeWhile is_ws s) @ dropWhile is_ws s"
      using that takeWhile_dropWhile_id [of is_ws s] drop_append [of k "takeWhile is_ws s" "dropWhile is_ws s"] by simp
    moreover have "\<forall>x \<in> set (drop k (takeWhile is_ws s)). is_ws x" by (meson in_set_dropD set_takeWhileD)
    ultimately have "drop k s = [] \<or> hd (drop k s) \<noteq> 38"
      using assms by (cases "drop k (takeWhile is_ws s)") (auto simp: is_ws_def)
    then show "\<not> js_starts_with (drop k s) (js ''&&'')" by (cases "drop k s") (auto simp: js_Cons)
  qed
  then show ?thesis
    unfolding and_separator_def seqs_Cons [of ws_star "[lit (js ''&&''), ws_star]"] matches.simps(3)
    unfolding ws_star_def matches_Star_Cls by (simp add: less_Suc_eq_le)
qed

lemma split_re_skip: "matches and_separator ([], x # s, Map.empty) = [] \<Longrightarrow> split_re part (x # s) = split_re (x # part) s"
  by simp

lemma split_re_part:
  assumes "38 \<notin> set w" "w \<noteq> []" "\<not> is_ws (last w)"
  shows "split_re part (w @ s) = split_re (rev w @ part) s"
  using assms
proof (induction w arbitrary: part)
  case (Cons x w)
  have "dropWhile is_ws (x # w @ s) \<noteq> [] \<and> hd (dropWhile is_ws (x # w @ s)) \<in> set (x # w)"
  proof -
    have "last (x # w) \<in> set (x # w)" "\<not> is_ws (last (x # w))" using Cons.prems(3) by simp_all
    then have "dropWhile is_ws ((x # w) @ s) = dropWhile is_ws (x # w) @ s" by (rule dropWhile_append1)
    moreover have "dropWhile is_ws (x # w) \<noteq> []"
      using \<open>last (x # w) \<in> set (x # w)\<close> \<open>\<not> is_ws (last (x # w))\<close> by (auto simp: dropWhile_eq_Nil_conv)
    moreover have "set (dropWhile is_ws (x # w)) \<subseteq> set (x # w)" by (meson set_dropWhileD subsetI)
    ultimately show ?thesis by (metis append_Cons append_is_Nil_conv hd_append2 hd_in_set subsetD)
  qed
  then have "matches and_separator ([], x # w @ s, Map.empty) = []"
    using Cons.prems(1) by (intro separator_fail) metis
  then have "split_re part ((x # w) @ s) = split_re (x # part) (w @ s)" by simp
  also have "\<dots> = split_re (rev (x # w) @ part) s"
    using Cons by (cases "w = []") simp_all
  finally show ?case .
qed simp

lemma split_re_sep:
  assumes "s = [] \<or> \<not> is_ws (hd s)"
  shows "split_re part (js '' && '' @ s) = rev part # split_re [] s"
proof -
  obtain xs where "matches and_separator ([], js '' && '' @ s, Map.empty) = (rev (js '' && ''), s, Map.empty) # xs"
    using matches_hd [OF separator_best [OF assms, of "[]" Map.empty]] by auto
  then show ?thesis by (simp add: js_Cons re_rest_def)
qed

lemma cond_printed_part:
  assumes "cond_ok x"
  shows "38 \<notin> set (cond_printed x)" "cond_printed x \<noteq> []" "\<not> is_ws (last (cond_printed x))"
proof -
  obtain v rel n where x: "x = (v, rel, n)" "v \<in> set COND_VARS" "rel \<in> set COND_OPS" "bound_text n"
    using assms by (auto simp: cond_ok_def)
  have "38 \<notin> set n" "n \<noteq> []" "\<not> is_ws (last n)" using x(4) bound_not by (fastforce simp: bound_text_def)+
  then show "38 \<notin> set (cond_printed x)" "cond_printed x \<noteq> []" "\<not> is_ws (last (cond_printed x))"
    using x(2,3) by (auto simp: x(1) cond_printed_def comparison_text_def COND_VARS_def COND_OPS_def js_Cons)
qed

lemma split_re_conds:
  "list_all cond_ok (x # xs) \<Longrightarrow> split_re [] (cond_printed x @ more_conds xs) = map cond_printed (x # xs)"
proof (induction xs arbitrary: x)
  case Nil
  then show ?case using split_re_part [OF cond_printed_part, of x "[]" "[]"] by simp
next
  case (Cons y ys)
  define s where "s = cond_printed y @ more_conds ys"
  have y: "s = [] \<or> \<not> is_ws (hd s)" using Cons.prems cond_printed_hd [of y] by (simp add: s_def)
  have "split_re [] (cond_printed x @ js '' && '' @ s) = cond_printed x # split_re [] s"
    using Cons.prems split_re_part [OF cond_printed_part, of x "[]"] split_re_sep [OF y] by simp
  then show ?case using Cons by (simp add: s_def)
qed

lemma relation_captured:
  assumes "rel \<in> set COND_OPS"
  shows "matches (Cap 2 cond_op) (l, rel @ js '' '' @ r, c) = [(rev rel @ l, js '' '' @ r, c(2 \<mapsto> rel))] \<or>
    (\<exists>l' c'. matches (Cap 2 cond_op) (l, rel @ js '' '' @ r, c) =
       [(l', js ''='' @ js '' '' @ r, c')] @ (rev rel @ l, js '' '' @ r, c(2 \<mapsto> rel)) # [])"
proof -
  have "rel = js ''<'' \<or> rel = js ''>'' \<or> rel = js ''<='' \<or> rel = js ''>=''" using assms by (auto simp: COND_OPS_def)
  then show ?thesis
    using relation_matches [of l r c] by (elim disjE) (simp_all add: matches.simps(6) re_rest_def re_caps_def js_Cons)
qed

lemma equals_fail_captured: "matches (seqs [ws_star, Cap 3 bound_run]) (l, js ''='' @ r, c) = []"
proof -
  have "matches ws_star (l, js ''='' @ r, c) = [(l, js ''='' @ r, c)]" by (rule ws_fail) (simp add: js_Cons is_ws_def)
  moreover have "matches bound_run (l, js ''='' @ r, c) = []"
    unfolding bound_run_def by (rule plus_fail) (simp add: js_Cons bound_char_def is_digit_def)
  then have "matches (seqs [Cap 3 bound_run]) (l, js ''='' @ r, c) = []"
    by (intro seqs_fail_first) (simp add: matches.simps)
  ultimately show ?thesis by (rule seqs_fail)
qed

lemma cond_match:
  assumes "cond_ok (v, rel, n)"
  shows "re_match (anchored single_comparison) (comparison_text v rel n) = Some [1 \<mapsto> v, 2 \<mapsto> rel, 3 \<mapsto> n]"
proof -
  have ok: "v \<in> set COND_VARS" "rel \<in> set COND_OPS" "bound_text n" using assms by (auto simp: cond_ok_def)
  define c2 where "c2 = [1 :: nat \<mapsto> v, 2 \<mapsto> rel]"
  define l1 where "l1 = rev (js '' '') @ rev v"
  define l2 where "l2 = rev (js '' '') @ rev rel @ l1"
  have "best bound_run (l2, n @ [], c2) = Some (rev n @ l2, [], c2)"
    unfolding bound_run_def using ok(3) by (intro best_plus_Cls) (auto simp: bound_text_def)
  from best_Cap [OF this, of 3] have n: "best (Cap 3 bound_run) (l2, n, c2) = Some (rev n @ l2, [], c2(3 \<mapsto> n))" by simp
  have w: "best ws_star (rev rel @ l1, js '' '' @ n, c2) = Some (l2, n, c2)"
    unfolding l2_def using bound_hd [OF ok(3), of "[]"] by (intro best_ws_one) simp
  have b: "best (seqs [ws_star, Cap 3 bound_run]) (rev rel @ l1, js '' '' @ n, c2) = Some (rev n @ l2, [], c2(3 \<mapsto> n))"
    by (rule best_seqs [OF w best_seqs [OF n best_seqs_Nil]])
  have "c2 = [1 \<mapsto> v](2 \<mapsto> rel)" by (simp add: c2_def)
  then have r: "best (seqs [Cap 2 cond_op, ws_star, Cap 3 bound_run]) (l1, rel @ js '' '' @ n, [1 \<mapsto> v]) = Some (rev n @ l2, [], c2(3 \<mapsto> n))"
    using relation_captured [OF ok(2), of l1 n "[1 \<mapsto> v]"] b equals_fail_captured
      best_seqs_skip [of "Cap 2 cond_op" "(l1, rel @ js '' '' @ n, [1 \<mapsto> v])" "[]", OF _ _ b]
      best_seqs_skip [of "Cap 2 cond_op" "(l1, rel @ js '' '' @ n, [1 \<mapsto> v])" "[_]", OF _ _ b] by fastforce
  have "rel @ js '' '' @ n = [] \<or> \<not> is_ws (hd (rel @ js '' '' @ n))"
    using ok(2) by (auto simp: COND_OPS_def js_Cons is_ws_def)
  then have w1: "best ws_star (rev v, js '' '' @ rel @ js '' '' @ n, [1 \<mapsto> v]) = Some (l1, rel @ js '' '' @ n, [1 \<mapsto> v])"
    unfolding l1_def by (rule best_ws_one)
  have "best (Cap 1 cond_var) ([], v @ js '' '' @ rel @ js '' '' @ n, Map.empty) = Some (rev v @ [], js '' '' @ rel @ js '' '' @ n, Map.empty(1 \<mapsto> v))"
    using cond_var_best [OF ok(1)] by (rule best_Cap)
  then have "best (seqs single_comparison) ([], comparison_text v rel n, Map.empty) = Some (rev n @ l2, [], c2(3 \<mapsto> n))"
    unfolding single_comparison_def comparison_text_def by (rule best_seqs) (use best_seqs [OF w1 r] in simp)
  then show ?thesis unfolding c2_def by (rule re_match_best)
qed

definition cond_read :: "cond_text \<Rightarrow> TierCondition" where
  "cond_read x = (case x of (v, rel, n) \<Rightarrow> \<lparr>tier_var = v, tier_op = rel, tier_value = js_Number n\<rparr>)"

lemma parse_cond: "cond_ok x \<Longrightarrow> parse_tier_condition (cond_printed x) = Some (cond_read x)"
proof -
  assume ok: "cond_ok x"
  obtain v rel n where x: "x = (v, rel, n)" by (cases x) auto
  have "js_trim (cond_printed x) = cond_printed x"
    using cond_printed_part [OF ok] cond_printed_hd [OF ok, of "[]"] by (intro trimmed_id) (simp add: trimmed_def)
  then show ?thesis
    using cond_match [of v rel n] ok unfolding x by (simp add: parse_tier_condition_def cond_printed_def cond_read_def capture_def)
qed

lemma parse_conds:
  assumes "list_all cond_ok (text_conds t)"
  shows "parse_tier_conditions (capture (tier_captures t) 1) = map cond_read (text_conds t)"
proof (cases "text_conds t")
  case Nil
  then show ?thesis by (simp add: tier_captures_def capture_def parse_tier_conditions_def)
next
  case (Cons x xs)
  then have ok: "list_all cond_ok (x # xs)" using assms by simp
  have "List.map_filter parse_tier_condition (map cond_printed ys) = map cond_read ys" if "list_all cond_ok ys" for ys
    using that by (induction ys) (auto simp: map_filter_simps parse_cond)
  moreover have "capture (tier_captures t) 1 = cond_printed x @ more_conds xs"
    using Cons join_conds [of x xs] by (simp add: tier_captures_def capture_def conds_printed_def)
  moreover have "cond_printed x \<noteq> []" using cond_printed_part(2) ok by simp
  ultimately show ?thesis using ok split_re_conds [OF ok] by (simp only: parse_tier_conditions_def Cons) simp
qed

section \<open>The prices are read back\<close>

definition PRICE_VARS :: "jstring list" where
  "PRICE_VARS = [js ''p'', js ''c'', js ''cr'', js ''cc'', js ''cc1h'', js ''img'', js ''img_o'', js ''ai'', js ''ao'']"

lemma price_vars: "map var_key BILLING_PRICING_VARS = PRICE_VARS"
  by (simp add: BILLING_PRICING_VARS_def BILLING_VARS_def price_var_def PRICE_VARS_def)

type_synonym price_text = "jstring \<times> jstring"

definition price_ok :: "price_text \<Rightarrow> bool" where
  "price_ok x = (case x of (v, n) \<Rightarrow> v \<in> set PRICE_VARS \<and> n \<noteq> [] \<and> (\<forall>c \<in> set n. num_char c))"

definition price_printed :: "price_text \<Rightarrow> jstring" where
  "price_printed x = (case x of (v, n) \<Rightarrow> v @ js '' * '' @ n)"

definition price_capture :: "price_text \<Rightarrow> re_captures" where
  "price_capture x = (case x of (v, n) \<Rightarrow> [1 \<mapsto> v, 2 \<mapsto> n])"

definition price_names :: re where "price_names = alts (map lit PRICE_VARS)"

definition factor_parts :: "re list" where
  "factor_parts = [ws_star, lit (js ''*''), ws_star, Cap 2 num_run]"

lemma BILLING_VAR_REGEX_eq: "BILLING_VAR_REGEX = seqs (WordBound # Cap 1 price_names # factor_parts)"
  by (simp add: BILLING_VAR_REGEX_def price_names_def factor_parts_def flip: price_vars)

text \<open>The names that are a prefix of the variable are tried first; what follows them is no factor.\<close>

definition price_prefixes :: "jstring \<Rightarrow> jstring list" where
  "price_prefixes v = filter (\<lambda>w. js_starts_with v w \<and> w \<noteq> v) PRICE_VARS"

lemma price_names_matches:
  assumes "v \<in> set PRICE_VARS"
  shows "matches price_names (l, v @ js '' * '' @ r, c) =
    map (\<lambda>w. (rev w @ l, drop (length w) v @ js '' * '' @ r, c)) (price_prefixes v) @ [(rev v @ l, js '' * '' @ r, c)]"
proof -
  have "v = js ''p'' \<or> v = js ''c'' \<or> v = js ''cr'' \<or> v = js ''cc'' \<or> v = js ''cc1h'' \<or> v = js ''img'' \<or> v = js ''img_o'' \<or>
      v = js ''ai'' \<or> v = js ''ao''" using assms by (simp add: PRICE_VARS_def)
  then show ?thesis
    unfolding price_names_def price_prefixes_def PRICE_VARS_def
    by (elim disjE) (simp_all add: matches.simps matches_lit advance_def js_Cons)
qed

lemma price_prefixes_rest:
  assumes "v \<in> set PRICE_VARS" "w \<in> set (price_prefixes v)"
  shows "drop (length w) v \<noteq> [] \<and> hd (drop (length w) v) \<noteq> 42 \<and> \<not> is_ws (hd (drop (length w) v))"
proof -
  have "\<forall>v \<in> set PRICE_VARS. \<forall>w \<in> set PRICE_VARS. js_starts_with v w \<and> w \<noteq> v \<longrightarrow>
      drop (length w) v \<noteq> [] \<and> hd (drop (length w) v) \<noteq> 42 \<and> \<not> is_ws (hd (drop (length w) v))"
    unfolding PRICE_VARS_def by (simp add: js_Cons is_ws_def)
  then show ?thesis using assms by (simp add: price_prefixes_def)
qed

lemma factor_fail: "x \<noteq> 42 \<Longrightarrow> \<not> is_ws x \<Longrightarrow> matches (seqs factor_parts) (l, x # s, c) = []"
  unfolding factor_parts_def
  by (rule seqs_fail [OF ws_fail seqs_fail_first [OF matches_lit_fail]]) (simp_all add: js_Cons)

lemma factor_best:
  assumes "n \<noteq> []" "\<forall>c \<in> set n. num_char c" "r = [] \<or> \<not> num_char (hd r)"
  shows "best (seqs factor_parts) (l, js '' * '' @ n @ r, c) = Some (rev n @ rev (js '' * '') @ l, r, c(2 \<mapsto> n))"
proof -
  define l1 where "l1 = rev (js '' * '') @ l"
  have "best num_run (l1, n @ r, c) = Some (rev n @ l1, r, c)"
    unfolding num_run_def using assms by (intro best_plus_Cls)
  then have n: "best (Cap 2 num_run) (l1, n @ r, c) = Some (rev n @ l1, r, c(2 \<mapsto> n))" by (rule best_Cap)
  have nh: "n @ r = [] \<or> \<not> is_ws (hd (n @ r))"
    using assms(1,2) by (cases n) (auto simp: num_char_def is_digit_def is_ws_def)
  have w: "best ws_star (l, js '' '' @ js ''*'' @ js '' '' @ n @ r, c) = Some (rev (js '' '') @ l, js ''*'' @ js '' '' @ n @ r, c)"
    by (rule best_ws_one) (simp add: js_Cons is_ws_def)
  have w2: "best ws_star (rev (js ''*'') @ rev (js '' '') @ l, js '' '' @ n @ r, c) = Some (l1, n @ r, c)"
    using best_ws_one [OF nh, of "rev (js ''*'') @ rev (js '' '') @ l" c] by (simp add: l1_def js_Cons)
  have "best (seqs factor_parts) (l, js '' '' @ js ''*'' @ js '' '' @ n @ r, c) = Some (rev n @ l1, r, c(2 \<mapsto> n))"
    unfolding factor_parts_def by (rule best_seqs [OF w best_seqs [OF best_lit best_seqs [OF w2 best_seqs [OF n best_seqs_Nil]]]])
  then show ?thesis by (simp add: l1_def js_Cons)
qed

lemma price_var_word: "v \<in> set PRICE_VARS \<Longrightarrow> v \<noteq> [] \<and> is_word (hd v)"
proof -
  have "\<forall>v \<in> set PRICE_VARS. v \<noteq> [] \<and> is_word (hd v)" unfolding PRICE_VARS_def by (simp add: js_Cons is_word_def is_digit_def)
  then show "v \<in> set PRICE_VARS \<Longrightarrow> v \<noteq> [] \<and> is_word (hd v)" by blast
qed

lemma price_best:
  assumes "price_ok x" "r = [] \<or> \<not> num_char (hd r)" "l = [] \<or> \<not> is_word (hd l)"
  shows "best BILLING_VAR_REGEX (l, price_printed x @ r, Map.empty) = Some (rev (price_printed x) @ l, r, price_capture x)"
proof -
  obtain v n where x: "x = (v, n)" "v \<in> set PRICE_VARS" "n \<noteq> []" "\<forall>c \<in> set n. num_char c"
    using assms(1) by (auto simp: price_ok_def)
  define s where "s = js '' * '' @ n @ r"
  define ys where "ys = map (\<lambda>w. (rev w @ l, drop (length w) v @ s, Map.empty :: re_captures)) (price_prefixes v)"
  have ys: "matches price_names (l, v @ s, Map.empty) = ys @ [(rev v @ l, s, Map.empty)]"
    using price_names_matches [OF x(2), of l "n @ r" Map.empty] by (simp add: ys_def s_def)
  define cap where "cap = (\<lambda>(l', r' :: jstring, c' :: re_captures). (l' :: jstring, r', c'(1 \<mapsto> take (length (v @ s) - length r') (v @ s))))"
  have "matches (Cap 1 price_names) (l, v @ s, Map.empty) = map cap ys @ (rev v @ l, s, [1 \<mapsto> v]) # []"
    using ys by (simp add: matches.simps cap_def re_rest_def re_caps_def split_def)
  moreover have "matches (seqs factor_parts) y = []" if m: "y \<in> set (map cap ys)" for y
  proof -
    obtain w where w: "w \<in> set (price_prefixes v)" "y = cap (rev w @ l, drop (length w) v @ s, Map.empty)"
      using m by (auto simp: ys_def)
    obtain a as where a: "drop (length w) v = a # as" "a \<noteq> 42" "\<not> is_ws a"
      using price_prefixes_rest [OF x(2) w(1)] by (cases "drop (length w) v") auto
    then show ?thesis using factor_fail [of a] by (simp add: w(2) cap_def)
  qed
  moreover have "best (seqs factor_parts) (rev v @ l, s, [1 \<mapsto> v]) = Some (rev n @ rev (js '' * '') @ rev v @ l, r, [1 \<mapsto> v, 2 \<mapsto> n])"
    unfolding s_def using factor_best [OF x(3,4) assms(2)] by simp
  ultimately have b: "best (seqs (Cap 1 price_names # factor_parts)) (l, v @ s, Map.empty) =
      Some (rev n @ rev (js '' * '') @ rev v @ l, r, [1 \<mapsto> v, 2 \<mapsto> n])"
    by (rule best_seqs_skip)
  have "best WordBound (l, v @ s, Map.empty) = Some (l, v @ s, Map.empty)"
  proof -
    obtain a as where "v = a # as" "is_word a" using price_var_word [OF x(2)] by (cases v) auto
    then show ?thesis using assms(3) by (cases l) (simp_all add: best_def matches.simps word_at_def re_rest_def)
  qed
  from best_seqs [OF this b] show ?thesis
    unfolding BILLING_VAR_REGEX_eq by (simp add: x(1) price_printed_def price_capture_def s_def)
qed

lemma price_skip:
  assumes "x \<notin> {112, 99, 105, 97}"
  shows "re_exec_all BILLING_VAR_REGEX l (x # s) = re_exec_all BILLING_VAR_REGEX (x # l) s"
proof (rule re_exec_all_skip)
  show "consuming BILLING_VAR_REGEX"
    unfolding BILLING_VAR_REGEX_eq by (rule consuming_seqs) (simp add: factor_parts_def consuming_lit)
  have "matches price_names (l, x # s, Map.empty) = []"
    using assms unfolding price_names_def PRICE_VARS_def by (simp add: matches.simps matches_lit advance_def js_Cons)
  then have "matches (seqs (Cap 1 price_names # factor_parts)) (l, x # s, Map.empty) = []"
    by (intro seqs_fail_first) (simp add: matches.simps)
  then show "matches BILLING_VAR_REGEX (l, x # s, Map.empty) = []"
    unfolding BILLING_VAR_REGEX_eq by (simp add: seqs_Cons [of WordBound] matches.simps)
qed

lemma price_exec_Nil: "re_exec_all BILLING_VAR_REGEX l [] = Some []"
proof (rule re_exec_all_none, rule re_search_end)
  have "matches price_names (l, [], Map.empty) = []"
    unfolding price_names_def PRICE_VARS_def by (simp add: matches.simps matches_lit advance_def js_Cons)
  then have "matches (seqs (Cap 1 price_names # factor_parts)) (l, [], Map.empty) = []"
    by (intro seqs_fail_first) (simp add: matches.simps)
  then show "matches BILLING_VAR_REGEX (l, [], Map.empty) = []"
    unfolding BILLING_VAR_REGEX_eq by (simp add: seqs_Cons [of WordBound] matches.simps)
qed

lemma prices_exec:
  "list_all price_ok xs \<Longrightarrow> l = [] \<or> \<not> is_word (hd l) \<Longrightarrow>
   re_exec_all BILLING_VAR_REGEX l (js_join (js '' + '') (map price_printed xs)) = Some (map price_capture xs)"
proof (induction xs arbitrary: l rule: induct_list012)
  case 1
  then show ?case by (simp add: price_exec_Nil)
next
  case (2 x)
  have "re_search BILLING_VAR_REGEX l (price_printed x @ []) = Some (rev (price_printed x) @ l, [], price_capture x)"
    using 2 by (intro re_search_here price_best) simp_all
  moreover have "price_printed x \<noteq> []" by (cases x) (simp add: price_printed_def js_Cons)
  ultimately show ?case by (simp add: re_exec_all_step price_exec_Nil)
next
  case (3 x y zs)
  define s where "s = js '' + '' @ js_join (js '' + '') (map price_printed (y # zs))"
  have "re_search BILLING_VAR_REGEX l (price_printed x @ s) = Some (rev (price_printed x) @ l, s, price_capture x)"
    using 3(3,4) by (intro re_search_here price_best) (simp_all add: s_def js_Cons num_char_def is_digit_def)
  moreover have "price_printed x \<noteq> []" by (cases x) (simp add: price_printed_def js_Cons)
  moreover have "re_exec_all BILLING_VAR_REGEX l' s = Some (map price_capture (y # zs))" for l'
    unfolding s_def using 3(2) [of "32 # 43 # 32 # l'"] 3(3) by (simp add: js_Cons price_skip is_word_def is_digit_def)
  ultimately show ?case by (simp add: re_exec_all_step s_def)
qed

text \<open>The body of a tier gives the cost of every variable.\<close>

definition tier_fields :: "(jstring \<times> jstring) list" where
  "tier_fields = [(js ''input_unit_cost'', js ''p''), (js ''output_unit_cost'', js ''c'')] @ BILLING_CACHE_VAR_MAP"

lemma BILLING_CACHE_VAR_MAP_eq: "BILLING_CACHE_VAR_MAP =
  [(js ''cache_read_unit_cost'', js ''cr''), (js ''cache_create_unit_cost'', js ''cc''), (js ''cache_create_1h_unit_cost'', js ''cc1h''),
   (js ''image_unit_cost'', js ''img''), (js ''image_output_unit_cost'', js ''img_o''), (js ''audio_input_unit_cost'', js ''ai''),
   (js ''audio_output_unit_cost'', js ''ao'')]"
  by (simp add: BILLING_CACHE_VAR_MAP_def BILLING_EXTRA_VARS_def BILLING_VARS_def price_var_def)

lemma tier_fields_vars: "map snd tier_fields = PRICE_VARS"
  by (simp add: tier_fields_def BILLING_CACHE_VAR_MAP_eq PRICE_VARS_def)

lemma PRICE_VARS_distinct: "distinct PRICE_VARS"
  by (simp add: PRICE_VARS_def js_Cons)

text \<open>A cost whose numeral the expressions can read.\<close>

definition price_readable :: "jsnum \<Rightarrow> bool" where
  "price_readable x \<longleftrightarrow> x \<noteq> NaN \<and> list_all num_char (num_to_string x) \<and> js_Number (num_to_string x) = x"

definition body_fields :: "VisualTier \<Rightarrow> (jstring \<times> jstring) list" where
  "body_fields t = [(js ''input_unit_cost'', js ''p''), (js ''output_unit_cost'', js ''c'')] @
     filter (\<lambda>(field, exprVar). tier_cost t field \<noteq> Num 0) BILLING_CACHE_VAR_MAP"

definition body_prices :: "VisualTier \<Rightarrow> price_text list" where
  "body_prices t = map (\<lambda>(field, exprVar). (exprVar, num_to_string (tier_cost t field))) (body_fields t)"

lemma body_printed: "buildTierBodyExpr t = js_join (js '' + '') (map price_printed (body_prices t))"
  by (simp add: buildTierBodyExpr_def body_prices_def body_fields_def price_printed_def js_Cons split_def comp_def)

lemma num_to_string_not_Nil: "price_readable x \<Longrightarrow> num_to_string x \<noteq> []"
proof
  assume "price_readable x" "num_to_string x = []"
  then have "x = Num 0" by (simp add: price_readable_def js_Number_def)
  then show False using \<open>num_to_string x = []\<close> by (simp add: num_to_string_def safe_int_def show_int_def)
qed

lemma body_fields_sub: "x \<in> set (body_fields t) \<Longrightarrow> x \<in> set tier_fields"
  unfolding body_fields_def tier_fields_def by auto

lemma tier_field_var: "x \<in> set tier_fields \<Longrightarrow> snd x \<in> set PRICE_VARS"
  unfolding tier_fields_vars [symmetric] by simp

lemma body_prices_ok:
  assumes "\<forall>f \<in> fst ` set tier_fields. price_readable (tier_cost t f)"
  shows "list_all price_ok (body_prices t)"
  unfolding list_all_iff
proof
  fix x assume "x \<in> set (body_prices t)"
  then obtain y where y: "y \<in> set (body_fields t)" "x = (snd y, num_to_string (tier_cost t (fst y)))"
    by (auto simp: body_prices_def)
  note f = body_fields_sub [OF y(1)]
  have "price_readable (tier_cost t (fst y))" using assms f by blast
  then show "price_ok x"
    using num_to_string_not_Nil tier_field_var [OF f] by (simp add: y(2) price_ok_def price_readable_def list_all_iff)
qed

lemma coefficients_distinct:
  "distinct (map fst xs) \<Longrightarrow> coefficients (map price_capture xs) = map (\<lambda>(v, n). (v, js_Number n)) xs"
proof (induction xs rule: rev_induct)
  case (snoc x xs)
  obtain v n where x: "x = (v, n)" by (cases x)
  have "map_of (map (\<lambda>(v, n). (v, js_Number n)) xs) v = None"
    using snoc.prems by (force simp: x map_of_eq_None_iff)
  then show ?case using snoc by (simp add: coefficients_def x price_capture_def capture_def)
qed (simp add: coefficients_def)

lemma distinct_map_part: "distinct (map f (xs @ ys)) \<Longrightarrow> distinct (map f (xs @ filter P ys))"
  by (auto simp: distinct_map_filter)

lemma body_fields_distinct: "distinct (map snd (body_fields t))"
  unfolding body_fields_def using PRICE_VARS_distinct tier_fields_vars
  by (intro distinct_map_part) (simp only: tier_fields_def)

lemma snd_determines: "distinct (map snd xs) \<Longrightarrow> (f, v) \<in> set xs \<Longrightarrow> (g, v) \<in> set xs \<Longrightarrow> g = f"
  by (induction xs) force+

lemma tier_fields_inj: "(f, v) \<in> set tier_fields \<Longrightarrow> (g, v) \<in> set tier_fields \<Longrightarrow> g = f"
  using PRICE_VARS_distinct by (intro snd_determines) (simp_all only: tier_fields_vars)

lemma map_of_snd: "distinct (map snd xs) \<Longrightarrow> (f, v) \<in> set xs \<Longrightarrow> map_of (map (\<lambda>(f, v). (v, h f)) xs) v = Some (h f)"
  by (induction xs) force+

lemma map_of_snd_None: "v \<notin> snd ` set xs \<Longrightarrow> map_of (map (\<lambda>(f, v). (v, h f)) xs) v = None"
  by (induction xs) auto

lemma body_cost:
  assumes "\<forall>f \<in> fst ` set tier_fields. price_readable (tier_cost t f)" "(f, v) \<in> set tier_fields"
  shows "(case map_of (coefficients (map price_capture (body_prices t))) v of Some x \<Rightarrow> num_or_0 x | None \<Rightarrow> Num 0) = tier_cost t f"
proof -
  have d: "distinct (map fst (body_prices t))"
    using body_fields_distinct [of t] by (simp add: body_prices_def comp_def split_def)
  have c: "coefficients (map price_capture (body_prices t)) = map (\<lambda>(f, v). (v, js_Number (num_to_string (tier_cost t f)))) (body_fields t)"
    unfolding coefficients_distinct [OF d] by (simp add: body_prices_def comp_def split_def)
  have "f \<in> fst ` set tier_fields" using imageI [OF assms(2), of fst] by simp
  then have r: "price_readable (tier_cost t f)" by (rule assms(1) [THEN bspec])
  have n: "num_or_0 (tier_cost t f) = tier_cost t f" using r by (simp add: num_or_0_def price_readable_def)
  show ?thesis
  proof (cases "(f, v) \<in> set (body_fields t)")
    case True
    then have "map_of (map (\<lambda>(f, v). (v, js_Number (num_to_string (tier_cost t f)))) (body_fields t)) v =
        Some (js_Number (num_to_string (tier_cost t f)))"
      by (rule map_of_snd [OF body_fields_distinct])
    then show ?thesis using r n by (simp add: c price_readable_def)
  next
    case False
    then have z: "tier_cost t f = Num 0" using assms(2) by (auto simp: body_fields_def tier_fields_def)
    have "v \<notin> snd ` set (body_fields t)"
    proof
      assume "v \<in> snd ` set (body_fields t)"
      then obtain g where g: "(g, v) \<in> set (body_fields t)" by force
      then have "(g, v) \<in> set tier_fields" by (rule body_fields_sub)
      then have "g = f" using assms(2) tier_fields_inj by blast
      then show False using g False by simp
    qed
    then have "map_of (map (\<lambda>(f, v). (v, js_Number (num_to_string (tier_cost t f)))) (body_fields t)) v = None"
      by (rule map_of_snd_None)
    then show ?thesis using z by (simp add: c)
  qed
qed

text \<open>The prices of a tier as they are shown.\<close>

definition shown_prices :: "VisualTier \<Rightarrow> (jstring \<times> jsnum) list" where
  "shown_prices t = map (\<lambda>v. (case var_field v of Some f \<Rightarrow> f | None \<Rightarrow> [], tier_cost t (case tierField v of Some f \<Rightarrow> f | None \<Rightarrow> [])))
     BILLING_PRICING_VARS"

lemma shown_prices_fields: "shown_prices t = map2 (\<lambda>(v, fld) (f, _). (fld, tier_cost t f)) BILLING_VAR_KEY_TO_FIELD tier_fields"
  by (simp add: shown_prices_def BILLING_VAR_KEY_TO_FIELD_def tier_fields_def BILLING_CACHE_VAR_MAP_eq BILLING_PRICING_VARS_def
      BILLING_VARS_def price_var_def)

lemma key_fields: "map fst BILLING_VAR_KEY_TO_FIELD = map snd tier_fields"
  unfolding tier_fields_vars price_vars [symmetric] by (simp add: BILLING_VAR_KEY_TO_FIELD_def comp_def)

lemma parse_body:
  assumes "\<forall>f \<in> fst ` set tier_fields. price_readable (tier_cost t f)"
  shows "parseTierBody (buildTierBodyExpr t) = Some (shown_prices t)"
proof -
  define price where "price v = (case map_of (coefficients (map price_capture (body_prices t))) v of Some x \<Rightarrow> num_or_0 x | None \<Rightarrow> Num 0)" for v
  have "re_exec_all BILLING_VAR_REGEX [] (buildTierBodyExpr t) = Some (map price_capture (body_prices t))"
    unfolding body_printed by (rule prices_exec [OF body_prices_ok [OF assms]]) simp
  then have "parseTierBody (buildTierBodyExpr t) = Some (map (\<lambda>(v, fld). (fld, price v)) BILLING_VAR_KEY_TO_FIELD)"
    by (simp add: parseTierBody_def price_def)
  moreover have e: "map (\<lambda>(v, fld). (fld, price v)) ks = map2 (\<lambda>(v, fld) (f, _). (fld, tier_cost t f)) ks fs"
    if "map fst ks = map snd fs" "set fs \<subseteq> set tier_fields" for ks fs
    using that
  proof (induction fs arbitrary: ks)
    case (Cons a fs)
    then obtain k ks' where k: "ks = k # ks'" "fst k = snd a" "map fst ks' = map snd fs" by (cases ks) auto
    have "price (snd a) = tier_cost t (fst a)"
      unfolding price_def using Cons.prems(2) by (intro body_cost [OF assms]) simp
    then show ?case using Cons k by (simp add: split_def)
  qed simp
  ultimately show ?thesis by (simp only: shown_prices_fields e [OF key_fields subset_refl])
qed

end
