(* ===== verification/Tier_Prices.thy ===== *)
theory Tier_Prices
  imports Tier_Text
begin

text \<open>
  The prices of a model as they were configured and as they are shown: the expression that
  \<open>tier-expr.ts\<close> generates is read by \<open>billing-expr.ts\<close> as the same tiers, and both readers end on every
  text.
\<close>

section \<open>The prices that are shown\<close>

text \<open>A condition whose number the expressions can read.\<close>

definition condition_readable :: "TierCondition \<Rightarrow> bool" where
  "condition_readable c \<longleftrightarrow> tier_var c \<in> set COND_VARS \<and> tier_op c \<in> set COND_OPS \<and> bound_text (num_to_string (tier_value c)) \<and>
     js_Number (num_to_string (tier_value c)) = tier_value c"

text \<open>\<open>tier_shows t p\<close>: the tier of the editor has the label, conditions and prices of \<open>p\<close>, all of which can be printed.\<close>

definition tier_shows :: "VisualTier \<Rightarrow> ParsedTier \<Rightarrow> bool" where
  "tier_shows t p \<longleftrightarrow>
     get_prop (JObj t) (js ''label'') = JStr (tier_label p) \<and> tier_label p \<noteq> [] \<and> 34 \<notin> set (tier_label p) \<and>
     get_prop (JObj t) (js ''conditions'') = JArr (map condition_value (tier_conditions p)) \<and>
     list_all condition_readable (tier_conditions p) \<and>
     (\<forall>f \<in> fst ` set tier_fields. price_readable (tier_cost t f)) \<and> tier_prices p = shown_prices t"

definition condition_text :: "TierCondition \<Rightarrow> cond_text" where
  "condition_text c = (tier_var c, tier_op c, num_to_string (tier_value c))"

definition text_of :: "VisualTier \<Rightarrow> ParsedTier \<Rightarrow> tier_text" where
  "text_of t p = \<lparr>text_conds = map condition_text (tier_conditions p), text_label = tier_label p, text_body = buildTierBodyExpr t\<rparr>"

lemma condition_text_ok: "condition_readable c \<Longrightarrow> cond_ok (condition_text c)"
  by (simp add: condition_readable_def condition_text_def cond_ok_def)

lemma condition_text_read: "condition_readable c \<Longrightarrow> cond_read (condition_text c) = c"
  by (simp add: condition_readable_def condition_text_def cond_read_def)

lemma cond_words: "v \<in> set COND_VARS \<Longrightarrow> v \<noteq> []" "rel \<in> set COND_OPS \<Longrightarrow> rel \<noteq> []"
  by (auto simp: COND_VARS_def COND_OPS_def js_Cons)

lemma condition_value_fields [simp]:
  "get_prop (condition_value c) (js ''var'') = JStr (tier_var c)"
  "get_prop (condition_value c) (js ''op'') = JStr (tier_op c)"
  "get_prop (condition_value c) (js ''value'') = JNum (tier_value c)"
  by (simp_all add: condition_value_def js_Cons)

lemma build_conditions:
  assumes "list_all condition_readable cs"
  shows "buildConditionStr (JArr (map condition_value cs)) = js_join (js '' && '') (map (cond_printed \<circ> condition_text) cs)"
proof -
  have "filter (\<lambda>c. truthy (get_prop c (js ''var'')) \<and> truthy (get_prop c (js ''op'')) \<and> get_prop c (js ''value'') \<noteq> JUndef \<and>
      get_prop c (js ''value'') \<noteq> JNull \<and> get_prop c (js ''value'') \<noteq> JStr []) (map condition_value cs) = map condition_value cs"
    using assms cond_words by (intro filter_True) (auto simp: list_all_iff condition_readable_def)
  then show ?thesis
    by (simp add: buildConditionStr_def condition_text_def cond_printed_def comparison_text_def comp_def)
qed

lemma tier_call_text: "tier_shows t p \<Longrightarrow> tier_call t fallback = call_printed (text_of t p)"
  by (simp add: tier_shows_def tier_call_def call_printed_def text_of_def js_or_def)

lemma tier_conds_text: "tier_shows t p \<Longrightarrow> buildConditionStr (get_prop (JObj t) (js ''conditions'')) = conds_printed (text_of t p)"
  by (simp add: tier_shows_def build_conditions conds_printed_def text_of_def)

lemma price_char: "list_all price_ok xs \<Longrightarrow> x \<in> set xs \<Longrightarrow> 41 \<notin> set (price_printed x)"
proof -
  assume "list_all price_ok xs" "x \<in> set xs"
  then obtain v n where x: "x = (v, n)" "v \<in> set PRICE_VARS" "\<forall>c \<in> set n. num_char c"
    by (cases x) (auto simp: list_all_iff price_ok_def)
  have "\<forall>v \<in> set PRICE_VARS. 41 \<notin> set v" unfolding PRICE_VARS_def by (simp add: js_Cons)
  moreover have "41 \<notin> set n" using x(3) by (auto simp: num_char_def is_digit_def)
  ultimately show ?thesis using x(2) by (simp add: x(1) price_printed_def js_Cons)
qed

lemma join_char: "c \<notin> set sep \<Longrightarrow> (\<And>w. w \<in> set ws \<Longrightarrow> c \<notin> set w) \<Longrightarrow> c \<notin> set (js_join sep ws)"
  by (induction ws rule: induct_list012) auto

lemma body_text:
  assumes "\<forall>f \<in> fst ` set tier_fields. price_readable (tier_cost t f)"
  shows "buildTierBodyExpr t \<noteq> []" "hd (buildTierBodyExpr t) = 112" "41 \<notin> set (buildTierBodyExpr t)"
proof -
  have "\<exists>r. buildTierBodyExpr t = js ''p * '' @ r" unfolding buildTierBodyExpr_def by simp
  then show "buildTierBodyExpr t \<noteq> []" "hd (buildTierBodyExpr t) = 112" by (auto simp: js_Cons)
  show "41 \<notin> set (buildTierBodyExpr t)"
    unfolding body_printed using price_char [OF body_prices_ok [OF assms]]
    by (intro join_char) (auto simp: js_Cons)
qed

lemma text_of_ok: "tier_shows t p \<Longrightarrow> tier_text_ok (text_of t p)"
  using body_text [of t] condition_text_ok
  by (auto simp: tier_text_ok_def tier_shows_def text_of_def list_all_iff is_ws_def)

lemma tier_of_text: "tier_shows t p \<Longrightarrow> tier_of_match (tier_captures (text_of t p)) = Some p"
proof -
  assume t: "tier_shows t p"
  have "parse_tier_conditions (capture (tier_captures (text_of t p)) 1) = map cond_read (text_conds (text_of t p))"
    using text_of_ok [OF t] by (intro parse_conds) (simp add: tier_text_ok_def)
  also have "\<dots> = tier_conditions p"
    using t condition_text_read by (simp add: tier_shows_def text_of_def comp_def list_all_iff map_idI)
  finally have c: "parse_tier_conditions (capture (tier_captures (text_of t p)) 1) = tier_conditions p" .
  have "parseTierBody (capture (tier_captures (text_of t p)) 3) = Some (tier_prices p)"
    using t parse_body [of t] by (simp add: tier_shows_def tier_captures_def capture_def text_of_def)
  then show ?thesis using c by (simp add: tier_of_match_def) (simp add: tier_captures_def capture_def text_of_def)
qed

lemma stripExprVersion_plain: "s \<noteq> [] \<Longrightarrow> hd s \<noteq> 118 \<Longrightarrow> stripExprVersion s = (Num 1, s)"
proof -
  assume s: "s \<noteq> []" "hd s \<noteq> 118"
  then have "matches (seqs version_prefix) ([], s, Map.empty) = []"
    unfolding version_prefix_def by (intro seqs_fail_first matches_lit_fail) (cases s; simp add: js_Cons)
  then have "re_match (anchored version_prefix) s = None" by (simp add: re_match_anchored)
  then show ?thesis using s by (simp add: stripExprVersion_def)
qed

lemma tier_printed_hd:
  assumes "tier_text_ok t"
  shows "tier_printed t \<noteq> [] \<and> hd (tier_printed t) \<noteq> 118"
proof (cases "text_conds t")
  case Nil
  then show ?thesis by (simp add: tier_printed_def call_printed_def js_Cons)
next
  case (Cons x xs)
  then have "cond_ok x" using assms by (simp add: tier_text_ok_def)
  then have "cond_printed x \<noteq> [] \<and> hd (cond_printed x) \<noteq> 118"
    by (auto simp: cond_ok_def cond_printed_def comparison_text_def COND_VARS_def js_Cons)
  then show ?thesis using Cons join_conds [of x xs] by (auto simp: tier_printed_def conds_printed_def)
qed

lemma conds_printed_empty: "tier_text_ok t \<Longrightarrow> conds_printed t = [] \<longleftrightarrow> text_conds t = []"
  using join_conds cond_printed_part(2) by (cases "text_conds t") (auto simp: conds_printed_def tier_text_ok_def)

lemma tier_parts_text:
  assumes "list_all2 tier_shows ts ps" "ps = [] \<or> tier_conditions (last ps) = []"
  shows "tier_parts i ts = map tier_printed (map2 text_of ts ps)"
  using assms
proof (induction ts ps arbitrary: i rule: list_all2_induct)
  case (Cons t ts p ps)
  have ok: "tier_text_ok (text_of t p)" using Cons.hyps(1) by (rule text_of_ok)
  have c: "text_conds (text_of t p) = [] \<longleftrightarrow> tier_conditions p = []" by (simp add: text_of_def)
  have l: "ts = [] \<longleftrightarrow> ps = []" using Cons.hyps(2) by (metis list_all2_Nil list_all2_Nil2)
  have "ts = [] \<Longrightarrow> tier_conditions p = []" using Cons.prems l by simp
  then have "(if ts \<noteq> [] \<and> conds_printed (text_of t p) \<noteq> [] then conds_printed (text_of t p) @ js '' ? '' @ call_printed (text_of t p)
      else call_printed (text_of t p)) = tier_printed (text_of t p)"
    using conds_printed_empty [OF ok] c by (auto simp: tier_printed_def)
  moreover have "tier_parts (i + 1) ts = map tier_printed (map2 text_of ts ps)"
    using Cons.prems l by (intro Cons.IH) (auto split: if_splits)
  ultimately show ?case
    by (simp only: tier_parts.simps Let_def tier_call_text [OF Cons.hyps(1)] tier_conds_text [OF Cons.hyps(1)] zip_Cons_Cons list.map split)
qed simp

text \<open>What follows the tiers in the expression.\<close>

definition expr_suffix :: "ParsedTier list \<Rightarrow> jstring" where
  "expr_suffix ps = (if length ps = 1 \<and> tier_conditions (hd ps) \<noteq> [] then js '' : p * 0 + c * 0'' else [])"

lemma generated_text:
  assumes "list_all2 tier_shows ts ps" "ps \<noteq> []" "length ps = 1 \<or> tier_conditions (last ps) = []"
  shows "generateExprFromVisualConfig (Some \<lparr>tiers = ts\<rparr>) = js_join (js '' : '') (map tier_printed (map2 text_of ts ps)) @ expr_suffix ps"
proof (cases "length ps = 1")
  case True
  then obtain p where p: "ps = [p]" by (cases ps) auto
  then obtain t where t: "ts = [t]" "tier_shows t p" using assms(1) by (auto simp: list_all2_Cons2)
  have c: "conds_printed (text_of t p) = [] \<longleftrightarrow> tier_conditions p = []"
    using conds_printed_empty [OF text_of_ok [OF t(2)]] by (simp add: text_of_def)
  have "text_conds (text_of t p) = [] \<longleftrightarrow> tier_conditions p = []" by (simp add: text_of_def)
  moreover have "generateExprFromVisualConfig (Some \<lparr>tiers = [t]\<rparr>) =
      (if conds_printed (text_of t p) \<noteq> [] then conds_printed (text_of t p) @ js '' ? '' @ call_printed (text_of t p) @ js '' : p * 0 + c * 0''
       else call_printed (text_of t p))"
    by (simp only: generateExprFromVisualConfig_def option.case list.case VisualConfig.select_convs Let_def
        tier_call_text [OF t(2)] tier_conds_text [OF t(2)])
  ultimately show ?thesis using c by (simp add: p t(1) expr_suffix_def tier_printed_def)
next
  case False
  then obtain p q qs where p: "ps = p # q # qs" using assms(2) by (cases ps rule: remdups_adj.cases) auto
  then obtain t u us where t: "ts = t # u # us" using assms(1) by (auto simp: list_all2_Cons2)
  have "generateExprFromVisualConfig (Some \<lparr>tiers = ts\<rparr>) = js_join (js '' : '') (tier_parts 0 ts)"
    by (simp add: generateExprFromVisualConfig_def t del: tier_parts.simps)
  also have "\<dots> = js_join (js '' : '') (map tier_printed (map2 text_of ts ps))"
    using assms False by (subst tier_parts_text) auto
  finally show ?thesis using False by (simp add: expr_suffix_def)
qed

lemma suffix_exec: "re_exec_all parsedTierRe l (expr_suffix ps) = Some []"
  by (simp add: expr_suffix_def tier_exec_default tier_exec_Nil)

lemma tiers_of_text: "list_all2 tier_shows ts ps \<Longrightarrow> those (map tier_of_match (map tier_captures (map2 text_of ts ps))) = Some ps"
  by (induction rule: list_all2_induct) (simp_all add: tier_of_text)

lemma tiers_read_back:
  assumes "list_all2 tier_shows ts ps" "ps \<noteq> []" "length ps = 1 \<or> tier_conditions (last ps) = []"
  shows "parseTiersFromExpr (generateExprFromVisualConfig (Some \<lparr>tiers = ts\<rparr>)) = Some ps"
proof -
  define xs where "xs = map2 text_of ts ps"
  define s where "s = js_join (js '' : '') (map tier_printed xs) @ expr_suffix ps"
  have g: "generateExprFromVisualConfig (Some \<lparr>tiers = ts\<rparr>) = s"
    unfolding s_def xs_def by (rule generated_text [OF assms])
  have ok: "list_all tier_text_ok xs"
    unfolding xs_def using assms(1) by (induction rule: list_all2_induct) (simp_all add: text_of_ok)
  obtain x ys where x: "xs = x # ys"
    using assms(1,2) unfolding xs_def by (cases ts; cases ps) auto
  have "tier_printed x \<noteq> [] \<and> hd (tier_printed x) \<noteq> 118" using ok x by (intro tier_printed_hd) simp
  then have "s \<noteq> []" "hd s \<noteq> 118" unfolding s_def x by (cases ys; auto)+
  then have "stripExprVersion s = (Num 1, s)" by (rule stripExprVersion_plain)
  moreover have "re_exec_all parsedTierRe [] s = Some (map tier_captures xs)"
    unfolding s_def by (rule tiers_exec [OF ok suffix_exec])
  ultimately show ?thesis
    using \<open>s \<noteq> []\<close> tiers_of_text [OF assms(1)] unfolding g xs_def by (simp add: parseTiersFromExpr_def)
qed

text \<open>
  Tiers that can be printed are shown as they were configured: reading the expression that the
  editor generates gives every tier with its label, its conditions and the price of every variable.
\<close>

theorem tiers_are_shown:
  assumes "list_all2 tier_shows ts ps" "ps \<noteq> []" "length ps = 1 \<or> tier_conditions (last ps) = []"
  shows "parseTiersFromExpr (generateExprFromVisualConfig (Some \<lparr>tiers = ts\<rparr>)) = Some ps"
  by (rule tiers_read_back [OF assms])

section \<open>Whole prices\<close>

text \<open>Every whole number up to \<open>2 ^ 53\<close> can be printed and read, as a cost and as a bound.\<close>

lemma show_int_num_char: "x \<in> set (show_int i) \<Longrightarrow> num_char x"
  using show_nat_digits by (auto simp: show_int_def num_char_def split: if_splits)

lemma price_readable_int: "safe_int i \<Longrightarrow> price_readable (num_int i)"
proof -
  assume i: "safe_int i"
  have "num_int i \<noteq> NaN" by (simp add: num_int_def)
  then show ?thesis using i show_int_num_char by (auto simp: price_readable_def js_Number_show_int list_all_iff)
qed

lemma condition_readable_int:
  assumes "v \<in> set COND_VARS" "rel \<in> set COND_OPS" "safe_int i" "0 \<le> i"
  shows "condition_readable \<lparr>tier_var = v, tier_op = rel, tier_value = num_int i\<rparr>"
proof -
  have "show_int i = show_nat (nat i)" using assms(4) by (simp add: show_int_def)
  then have "bound_text (show_int i)" using show_nat_digits [of "nat i"] by (simp add: bound_text_def bound_char_def)
  then show ?thesis using assms by (simp add: condition_readable_def js_Number_show_int)
qed

section \<open>The reader ends\<close>

lemma parseTierBody_ends: "\<exists>ps. parseTierBody s = Some ps"
proof -
  have "consuming BILLING_VAR_REGEX"
    unfolding BILLING_VAR_REGEX_eq by (rule consuming_seqs) (simp add: factor_parts_def consuming_lit)
  then obtain ms where "re_exec_all BILLING_VAR_REGEX [] s = Some ms" using re_exec_all_ends by blast
  then show ?thesis by (simp add: parseTierBody_def)
qed

lemma those_ends: "(\<And>x. x \<in> set xs \<Longrightarrow> \<exists>y. f x = Some y) \<Longrightarrow> \<exists>ys. those (map f xs) = Some ys"
  by (induction xs) force+

lemma consuming_visual: "consuming visualTierRe"
  unfolding visualTierRe_def tierRe_def by (rule consuming_seqs) (simp add: consuming_lit)

text \<open>
  C35. Both readers of tiers end on every text: the loop over the matches, inside it the loop over the
  coefficients, and the loop that reads the configuration of the editor.
\<close>

theorem tier_readers_end: "(\<exists>ps. parseTiersFromExpr s = Some ps) \<and> (\<exists>cfg. tryParseVisualConfig e = Some cfg)"
proof
  obtain ms where "re_exec_all parsedTierRe [] (snd (stripExprVersion s)) = Some ms"
    using re_exec_all_ends [OF consuming_tier] by blast
  moreover have "\<exists>ps. those (map tier_of_match ms) = Some ps"
    using parseTierBody_ends by (intro those_ends) (fastforce simp: tier_of_match_def)
  ultimately show "\<exists>ps. parseTiersFromExpr s = Some ps" by (auto simp: parseTiersFromExpr_def)
  have "\<exists>ms. re_exec_all visualTierRe [] b = Some ms" for b by (rule re_exec_all_ends [OF consuming_visual])
  then show "\<exists>cfg. tryParseVisualConfig e = Some cfg"
    unfolding tryParseVisualConfig_def Let_def by (auto split: option.split list.split)
qed

section \<open>A configuration with two tiers\<close>

definition sample_tiers :: "VisualTier list" where
  "sample_tiers =
     [[(js ''label'', JStr (js ''base'')),
       (js ''conditions'', JArr [condition_value \<lparr>tier_var = js ''len'', tier_op = js ''<='', tier_value = num_int 200000\<rparr>]),
       (js ''input_unit_cost'', JNum (num_int 3)), (js ''output_unit_cost'', JNum (num_int 15)),
       (js ''cache_create_1h_unit_cost'', JNum (num_int 6))],
      [(js ''label'', JStr (js ''long'')), (js ''conditions'', JArr []),
       (js ''input_unit_cost'', JNum (num_int 6)), (js ''output_unit_cost'', JNum (num_int 23))]]"

definition sample_shown :: "ParsedTier list" where
  "sample_shown =
     [\<lparr>tier_label = js ''base'', tier_conditions = [\<lparr>tier_var = js ''len'', tier_op = js ''<='', tier_value = num_int 200000\<rparr>],
       tier_prices = [(js ''inputPrice'', num_int 3), (js ''outputPrice'', num_int 15), (js ''cacheReadPrice'', num_int 0),
         (js ''cacheCreatePrice'', num_int 0), (js ''cacheCreate1hPrice'', num_int 6), (js ''imagePrice'', num_int 0),
         (js ''imageOutputPrice'', num_int 0), (js ''audioInputPrice'', num_int 0), (js ''audioOutputPrice'', num_int 0)]\<rparr>,
      \<lparr>tier_label = js ''long'', tier_conditions = [],
       tier_prices = [(js ''inputPrice'', num_int 6), (js ''outputPrice'', num_int 23), (js ''cacheReadPrice'', num_int 0),
         (js ''cacheCreatePrice'', num_int 0), (js ''cacheCreate1hPrice'', num_int 0), (js ''imagePrice'', num_int 0),
         (js ''imageOutputPrice'', num_int 0), (js ''audioInputPrice'', num_int 0), (js ''audioOutputPrice'', num_int 0)]\<rparr>]"

lemma tier_cost_simps:
  "map_of t f = Some (JNum (num_int i)) \<Longrightarrow> tier_cost t f = num_int i"
  "map_of t f = None \<Longrightarrow> tier_cost t f = num_int 0"
  by (simp_all add: tier_cost_def js_to_number_def num_or_0_def num_int_def)

lemma shown_prices_eq: "shown_prices t =
  [(js ''inputPrice'', tier_cost t (js ''input_unit_cost'')), (js ''outputPrice'', tier_cost t (js ''output_unit_cost'')),
   (js ''cacheReadPrice'', tier_cost t (js ''cache_read_unit_cost'')), (js ''cacheCreatePrice'', tier_cost t (js ''cache_create_unit_cost'')),
   (js ''cacheCreate1hPrice'', tier_cost t (js ''cache_create_1h_unit_cost'')), (js ''imagePrice'', tier_cost t (js ''image_unit_cost'')),
   (js ''imageOutputPrice'', tier_cost t (js ''image_output_unit_cost'')), (js ''audioInputPrice'', tier_cost t (js ''audio_input_unit_cost'')),
   (js ''audioOutputPrice'', tier_cost t (js ''audio_output_unit_cost''))]"
  by (simp add: shown_prices_def BILLING_PRICING_VARS_def BILLING_VARS_def price_var_def)

text \<open>For each tier: its costs, and that they can be read.\<close>

lemma sample_costs:
  "map (tier_cost (sample_tiers ! 0)) (map fst tier_fields) = map num_int [3, 15, 0, 0, 6, 0, 0, 0, 0]"
  "map (tier_cost (sample_tiers ! 1)) (map fst tier_fields) = map num_int [6, 23, 0, 0, 0, 0, 0, 0, 0]"
  unfolding tier_fields_def BILLING_CACHE_VAR_MAP_eq
  by (simp_all add: sample_tiers_def tier_cost_simps js_Cons)

lemma costs_readable:
  assumes "map (tier_cost t) (map fst tier_fields) = map num_int is" "list_all safe_int is"
  shows "\<forall>f \<in> fst ` set tier_fields. price_readable (tier_cost t f)"
proof
  fix f assume "f \<in> fst ` set tier_fields"
  then have "tier_cost t f \<in> set (map (tier_cost t) (map fst tier_fields))" by auto
  then show "price_readable (tier_cost t f)" using assms price_readable_int by (auto simp: list_all_iff simp del: map_map)
qed

lemma sample_tiers_shown: "list_all2 tier_shows sample_tiers sample_shown"
proof -
  have c: "condition_readable \<lparr>tier_var = js ''len'', tier_op = js ''<='', tier_value = num_int 200000\<rparr>"
    by (rule condition_readable_int) (simp_all add: COND_VARS_def COND_OPS_def safe_int_def)
  have r: "\<forall>f \<in> fst ` set tier_fields. price_readable (tier_cost (sample_tiers ! 0) f)"
    "\<forall>f \<in> fst ` set tier_fields. price_readable (tier_cost (sample_tiers ! 1) f)"
    by (rule costs_readable [OF sample_costs(1)] costs_readable [OF sample_costs(2)], simp add: safe_int_def)+
  have p: "tier_prices (sample_shown ! 0) = shown_prices (sample_tiers ! 0)" "tier_prices (sample_shown ! 1) = shown_prices (sample_tiers ! 1)"
    using sample_costs by (simp_all add: sample_shown_def shown_prices_eq tier_fields_def BILLING_CACHE_VAR_MAP_eq)
  have "tier_shows (sample_tiers ! 0) (sample_shown ! 0)"
    unfolding tier_shows_def using c r(1) p(1) by (simp add: sample_tiers_def sample_shown_def) (simp add: js_Cons)
  moreover have "tier_shows (sample_tiers ! 1) (sample_shown ! 1)"
    unfolding tier_shows_def using r(2) p(2) by (simp add: sample_tiers_def sample_shown_def) (simp add: js_Cons)
  ultimately show ?thesis by (simp add: sample_tiers_def sample_shown_def)
qed

theorem tiers_are_shown_witness:
  "parseTiersFromExpr (generateExprFromVisualConfig (Some \<lparr>tiers = sample_tiers\<rparr>)) = Some sample_shown"
  by (rule tiers_are_shown [OF sample_tiers_shown]) (simp_all add: sample_shown_def)

end
