(* ===== verification/Billing_Rules.thy ===== *)
theory Billing_Rules
  imports Billing_Expr
begin

text \<open>
  What the request rules promise: the regular expressions as decompositions of the text, the splitting
  at the top level, and the round trips.  The rules of the editor are read back from their text; the
  saved expression is taken apart into billing expression and rules; comparisons of parameters are
  not read back.
\<close>

section \<open>Texts around a separating character\<close>

lemma split_char:
  assumes "x \<notin> set a" "x \<notin> set b"
  shows "a @ x # r = b @ x # r' \<longleftrightarrow> a = b \<and> r = r'"
proof
  assume e: "a @ x # r = b @ x # r'"
  have "takeWhile (\<lambda>y. y \<noteq> x) (a @ x # r) = a" using assms(1) by (induction a) auto
  moreover have "takeWhile (\<lambda>y. y \<noteq> x) (b @ x # r') = b" using assms(2) by (induction b) auto
  ultimately have "a = b" using e by metis
  with e show "a = b \<and> r = r'" by simp
qed simp

lemma split_last_char:
  assumes "x \<notin> set a" "x \<notin> set b"
  shows "r @ x # a = r' @ x # b \<longleftrightarrow> a = b \<and> r = r'"
proof -
  have "r @ x # a = r' @ x # b \<longleftrightarrow> rev (r @ x # a) = rev (r' @ x # b)" by blast
  also have "\<dots> \<longleftrightarrow> rev a @ x # rev r = rev b @ x # rev r'" by simp
  finally show ?thesis using assms by (simp add: split_char)
qed

lemma not_in_char: "x \<notin> set v \<Longrightarrow> v = a @ x # b \<longleftrightarrow> False"
  by auto

section \<open>The regular expressions, as decompositions of the text\<close>

lemma lang_num_run [simp]: "lang num_run c w c' \<longleftrightarrow> w \<noteq> [] \<and> (\<forall>x \<in> set w. num_char x) \<and> c' = c"
  unfolding num_run_def by simp

lemma lang_name_run [simp]: "lang name_run c w c' \<longleftrightarrow> w \<noteq> [] \<and> 34 \<notin> set w \<and> c' = c"
  unfolding name_run_def not_quote_def by auto

lemma lang_lits: "ws \<noteq> [] \<Longrightarrow> lang (alts (map lit ws)) c w c' \<longleftrightarrow> w \<in> set ws \<and> c' = c"
  by (subst lang_alts) auto

lemma lang_time_name [simp]: "lang time_name c w c' \<longleftrightarrow> w \<in> set TIME_FUNCS \<and> c' = c"
  unfolding time_name_def by (rule lang_lits) (simp add: TIME_FUNCS_def)

lemma context_free_runs [simp]: "context_free num_run" "context_free name_run" "context_free time_name" "context_free string_literal"
  by (simp_all add: num_run_def name_run_def time_name_def string_literal_def list_all_iff)

text \<open>Each expression with the captures it makes.\<close>

lemma header_exists_captures:
  "c \<in> full_captures header_exists s \<longleftrightarrow>
   (\<exists>p. s = js ''header'' @ open_name @ p @ close_name @ js '' != '' @ [34, 34] \<and> p \<noteq> [] \<and> 34 \<notin> set p \<and> c = [1 \<mapsto> p])"
  by (subst full_captures_lang) (auto simp: header_exists_def intro!: ex_append)

lemma param_exists_captures:
  "c \<in> full_captures param_exists s \<longleftrightarrow>
   (\<exists>p. s = js ''param'' @ open_name @ p @ close_name @ js '' != nil'' \<and> p \<noteq> [] \<and> 34 \<notin> set p \<and> c = [1 \<mapsto> p])"
  by (subst full_captures_lang) (auto simp: param_exists_def intro!: ex_append)

lemma time_compare_captures:
  "c \<in> full_captures time_compare s \<longleftrightarrow>
   (\<exists>f tz rel v. s = f @ open_name @ tz @ close_name @ js '' '' @ rel @ js '' '' @ v \<and> f \<in> set TIME_FUNCS \<and>
      tz \<noteq> [] \<and> 34 \<notin> set tz \<and> rel \<in> {js ''=='', js ''>='', js ''<''} \<and> v \<noteq> [] \<and> (\<forall>x \<in> set v. num_char x) \<and>
      c = [1 \<mapsto> f, 2 \<mapsto> tz, 3 \<mapsto> rel, 4 \<mapsto> v])"
  by (subst full_captures_lang) (auto simp: time_compare_def intro!: ex_append)

lemma time_range_captures:
  "c \<in> full_captures time_range s \<longleftrightarrow>
   (\<exists>f tz a b. s = f @ open_name @ tz @ close_name @ js '' >= '' @ a @ js '' || '' @ f @ open_name @ tz @ close_name @ js '' < '' @ b \<and>
      f \<in> set TIME_FUNCS \<and> tz \<noteq> [] \<and> 34 \<notin> set tz \<and> a \<noteq> [] \<and> (\<forall>x \<in> set a. num_char x) \<and>
      b \<noteq> [] \<and> (\<forall>x \<in> set b. num_char x) \<and> c = [1 \<mapsto> f, 2 \<mapsto> tz, 3 \<mapsto> a, 4 \<mapsto> b])"
  by (subst full_captures_lang) (auto simp: time_range_def intro!: ex_append)

lemma value_equals_captures:
  "c \<in> full_captures value_equals s \<longleftrightarrow>
   (\<exists>src p v. s = src @ open_name @ p @ close_name @ js '' == '' @ v \<and> src \<in> {js ''param'', js ''header''} \<and>
      p \<noteq> [] \<and> 34 \<notin> set p \<and> v \<noteq> [] \<and> (\<forall>x \<in> set v. dot x) \<and> c = [1 \<mapsto> src, 2 \<mapsto> p, 3 \<mapsto> v])"
  by (subst full_captures_lang) (auto simp: value_equals_def intro!: ex_append)

lemma rule_factor_captures:
  "c \<in> full_captures rule_factor s \<longleftrightarrow>
   (\<exists>e m. s = js ''('' @ e @ js '' ? '' @ m @ js '' : 1)'' \<and> e \<noteq> [] \<and> m \<noteq> [] \<and> (\<forall>x \<in> set m. num_char x) \<and>
      c = [1 \<mapsto> e, 2 \<mapsto> m])"
  by (subst full_captures_lang) (auto simp: rule_factor_def intro!: ex_append)

text \<open>A string literal of the expressions; it need not be one of JSON.\<close>

fun literal_units :: "jstring \<Rightarrow> bool" where
  "literal_units [] = True"
| "literal_units (c # cs) =
     (if c = 92 then (case cs of [] \<Rightarrow> False | d # ds \<Rightarrow> dot d \<and> literal_units ds)
      else c \<noteq> 34 \<and> literal_units cs)"

lemma star_literal_units:
  defines "unit \<equiv> Alt (Cls (\<lambda>c. c \<noteq> 34 \<and> c \<noteq> 92)) (Seq (lit [92]) (Cls dot))"
  shows "star_lang (lang unit) c w c' \<longleftrightarrow> literal_units w \<and> c' = c"
proof
  assume "star_lang (lang unit) c w c'"
  then show "literal_units w \<and> c' = c"
    by (induction rule: star_lang.induct) (auto simp: unit_def)
next
  assume "literal_units w \<and> c' = c"
  then have "literal_units w" "c' = c" by auto
  then show "star_lang (lang unit) c w c'"
  proof (induction w rule: literal_units.induct)
    case (2 x cs)
    show ?case
    proof (cases "x = 92")
      case True
      then obtain d ds where d: "cs = d # ds" "dot d" "literal_units ds" using 2(3) by (auto split: list.splits)
      have "lang unit c [92, d] c" using d by (auto simp: unit_def)
      then show ?thesis using star_lang_append [of "lang unit" c "[92, d]" c ds c] 2(1) True d \<open>c' = c\<close> by simp
    next
      case False
      then have "lang unit c [x] c" using 2(3) by (auto simp: unit_def)
      then show ?thesis using star_lang_append [of "lang unit" c "[x]" c cs c] 2(2,3) False \<open>c' = c\<close> by simp
    qed
  qed (auto intro: star_lang_Nil)
qed

lemma lang_string_literal [simp]:
  "lang string_literal c w c' \<longleftrightarrow> (\<exists>b. w = 34 # b @ [34] \<and> literal_units b) \<and> c' = c"
  unfolding string_literal_def by (auto simp: lang.simps(5) star_literal_units)

lemma lang_seqs_append: "lang (seqs (as @ bs)) c w c' \<longleftrightarrow> (\<exists>u v m. w = u @ v \<and> lang (seqs as) c u m \<and> lang (seqs bs) m v c')"
proof (induction as arbitrary: c w)
  case (Cons a as)
  show ?case by (auto simp: Cons.IH) (metis append.assoc)+
qed simp

lemma header_has_captures:
  "c \<in> full_captures header_has s \<longleftrightarrow>
   (\<exists>p b. s = js ''has(header'' @ open_name @ p @ close_name @ js '', '' @ (34 # b @ [34]) @ js '')'' \<and> p \<noteq> [] \<and> 34 \<notin> set p \<and>
      literal_units b \<and> c = [1 \<mapsto> p, 2 \<mapsto> 34 # b @ [34]])"
  by (subst full_captures_lang) (auto simp: header_has_def intro!: ex_append, blast+)

lemma param_has_captures:
  "c \<in> full_captures param_has s \<Longrightarrow>
   \<exists>p v. s = js ''param'' @ open_name @ p @ close_name @ js '' != nil && has(param'' @ v \<and> p \<noteq> [] \<and> 34 \<notin> set p"
  by (subst (asm) full_captures_lang) (auto simp: param_has_def)

lemma param_compare_captures:
  "c \<in> full_captures param_compare s \<Longrightarrow>
   \<exists>p v. s = js ''param'' @ open_name @ p @ close_name @ js '' != nil && param'' @ v \<and> p \<noteq> [] \<and> 34 \<notin> set p"
  by (subst (asm) full_captures_lang) (auto simp: param_compare_def)

lemma context_free_time_range: "list_all context_free time_range"
  by (simp add: time_range_def)

lemma wrapped_range_captures:
  "c \<in> full_captures ([lit (js ''('')] @ time_range @ [lit (js '')'')]) s \<longleftrightarrow>
   (\<exists>t. s = js ''('' @ t @ js '')'' \<and> c \<in> full_captures time_range t)"
  using context_free_time_range
  by (simp add: full_captures_lang lang_seqs_append list_all_append) blast

text \<open>The characters of a numeric literal.\<close>

lemma numeric_literal_chars:
  assumes "is_numeric_literal s"
  shows "s \<noteq> [] \<and> (\<forall>x \<in> set s. num_char x)"
proof -
  have "full_captures numeric_literal s \<noteq> {}"
    using assms re_match_anchored_None [of numeric_literal s] by (simp add: is_numeric_literal_def NUMERIC_LITERAL_REGEX_def)
  moreover have "list_all context_free numeric_literal" by (simp add: numeric_literal_def)
  ultimately obtain c where "lang (seqs numeric_literal) Map.empty s c"
    using full_captures_lang by blast
  then show ?thesis by (auto simp: num_char_def numeric_literal_def)
qed

lemma num_char_not: "num_char x \<Longrightarrow> x \<noteq> 32 \<and> x \<noteq> 34 \<and> x \<noteq> 38 \<and> x \<noteq> 40 \<and> x \<noteq> 41 \<and> x \<noteq> 124 \<and> \<not> is_ws x \<and> dot x"
  by (auto simp: num_char_def is_digit_def is_ws_def dot_def)

section \<open>Calls with a name\<close>

text \<open>\<open>f("p")\<close>\<close>

definition call_text :: "jstring \<Rightarrow> jstring \<Rightarrow> jstring" where
  "call_text f p = f @ open_name @ p @ close_name"

definition callable :: "jstring \<Rightarrow> jstring \<Rightarrow> bool" where
  "callable f p \<longleftrightarrow> 40 \<notin> set f \<and> f \<noteq> [] \<and> 34 \<notin> set p \<and> p \<noteq> []"

lemma call_text_eq:
  assumes "callable f p" "callable f' p'"
  shows "f @ open_name @ p @ close_name @ r = f' @ open_name @ p' @ close_name @ r' \<longleftrightarrow> f = f' \<and> p = p' \<and> r = r'"
  using assms by (auto simp: callable_def open_name_def close_name_def js_Cons split_char)

lemma time_callable: "f \<in> set TIME_FUNCS \<Longrightarrow> p \<noteq> [] \<Longrightarrow> 34 \<notin> set p \<Longrightarrow> callable f p"
  by (auto simp: TIME_FUNCS_def js_Cons callable_def)

lemma source_callable: "p \<noteq> [] \<Longrightarrow> 34 \<notin> set p \<Longrightarrow> callable (js ''param'') p" "p \<noteq> [] \<Longrightarrow> 34 \<notin> set p \<Longrightarrow> callable (js ''header'') p"
  by (simp_all add: js_Cons callable_def)

lemma time_not_source: "f \<in> set TIME_FUNCS \<Longrightarrow> f \<noteq> js ''param'' \<and> f \<noteq> js ''header''"
  by (auto simp: TIME_FUNCS_def js_Cons)

text \<open>What each expression makes of a text that begins with a call.\<close>

lemma call_header_exists:
  assumes "callable f p"
  shows "c \<in> full_captures header_exists (call_text f p @ r) \<longleftrightarrow>
    f = js ''header'' \<and> r = js '' != '' @ [34, 34] \<and> c = [1 \<mapsto> p]"
proof -
  have "p \<noteq> [] \<and> 34 \<notin> set p" using assms by (simp add: callable_def)
  then show ?thesis
    unfolding header_exists_captures call_text_def append_assoc
    using call_text_eq [OF assms source_callable(2)] by blast
qed

lemma call_param_exists:
  assumes "callable f p"
  shows "c \<in> full_captures param_exists (call_text f p @ r) \<longleftrightarrow>
    f = js ''param'' \<and> r = js '' != nil'' \<and> c = [1 \<mapsto> p]"
proof -
  have "p \<noteq> [] \<and> 34 \<notin> set p" using assms by (simp add: callable_def)
  then show ?thesis
    unfolding param_exists_captures call_text_def append_assoc
    using call_text_eq [OF assms source_callable(1)] by blast
qed

lemma call_time_compare:
  assumes "callable f p"
  shows "c \<in> full_captures time_compare (call_text f p @ r) \<longleftrightarrow> f \<in> set TIME_FUNCS \<and>
    (\<exists>rel v. r = js '' '' @ rel @ js '' '' @ v \<and> rel \<in> {js ''=='', js ''>='', js ''<''} \<and> v \<noteq> [] \<and> (\<forall>x \<in> set v. num_char x) \<and>
      c = [1 \<mapsto> f, 2 \<mapsto> p, 3 \<mapsto> rel, 4 \<mapsto> v])"
proof -
  have "p \<noteq> [] \<and> 34 \<notin> set p" using assms by (simp add: callable_def)
  then show ?thesis
    unfolding time_compare_captures call_text_def append_assoc
    using call_text_eq [OF assms time_callable] by blast
qed

lemma call_time_range:
  assumes "callable f p"
  shows "c \<in> full_captures time_range (call_text f p @ r) \<longleftrightarrow> f \<in> set TIME_FUNCS \<and>
    (\<exists>a b. r = js '' >= '' @ a @ js '' || '' @ f @ open_name @ p @ close_name @ js '' < '' @ b \<and>
      a \<noteq> [] \<and> (\<forall>x \<in> set a. num_char x) \<and> b \<noteq> [] \<and> (\<forall>x \<in> set b. num_char x) \<and>
      c = [1 \<mapsto> f, 2 \<mapsto> p, 3 \<mapsto> a, 4 \<mapsto> b])"
proof -
  have "p \<noteq> [] \<and> 34 \<notin> set p" using assms by (simp add: callable_def)
  then show ?thesis
    unfolding time_range_captures call_text_def append_assoc
    using call_text_eq [OF assms time_callable] by blast
qed

lemma call_value_equals:
  assumes "callable f p"
  shows "c \<in> full_captures value_equals (call_text f p @ r) \<longleftrightarrow> f \<in> {js ''param'', js ''header''} \<and>
    (\<exists>v. r = js '' == '' @ v \<and> v \<noteq> [] \<and> (\<forall>x \<in> set v. dot x) \<and> c = [1 \<mapsto> f, 2 \<mapsto> p, 3 \<mapsto> v])"
proof -
  have "p \<noteq> [] \<and> 34 \<notin> set p" using assms by (simp add: callable_def)
  then show ?thesis
    unfolding value_equals_captures call_text_def append_assoc
    using call_text_eq [OF assms source_callable(1)] call_text_eq [OF assms source_callable(2)] by blast
qed

lemma call_wrapped:
  assumes "callable f p"
  shows "full_captures ([lit (js ''('')] @ time_range @ [lit (js '')'')]) (call_text f p @ r) = {}"
proof -
  have "call_text f p @ r \<noteq> js ''('' @ t" for t
    using assms by (cases f) (auto simp: callable_def call_text_def js_Cons)
  then show ?thesis using wrapped_range_captures by blast
qed

lemma call_header_has:
  assumes "callable f p"
  shows "full_captures header_has (call_text f p @ r) = {}"
proof -
  have "f @ 40 # 34 # p @ close_name @ r \<noteq> js ''has'' @ 40 # js ''header'' @ t" for t
    using assms split_char [of 40 f "js ''has''"] by (auto simp: callable_def js_Cons)
  then show ?thesis using header_has_captures [of _ "call_text f p @ r"]
    by (auto simp: call_text_def open_name_def js_Cons)
qed

lemma call_param_has:
  assumes "callable f p" "c \<in> full_captures param_has (call_text f p @ r)"
  shows "f = js ''param'' \<and> (\<exists>v. r = js '' != nil && '' @ v)"
proof -
  obtain q v where "f @ open_name @ p @ close_name @ r = js ''param'' @ open_name @ q @ close_name @ js '' != nil && has(param'' @ v"
      "q \<noteq> []" "34 \<notin> set q"
    using param_has_captures [OF assms(2)] by (auto simp: call_text_def)
  then have "f = js ''param'' \<and> r = js '' != nil && has(param'' @ v"
    using call_text_eq [OF assms(1) source_callable(1)] by blast
  then show ?thesis by (simp add: js_Cons)
qed

lemma call_param_compare:
  assumes "callable f p" "c \<in> full_captures param_compare (call_text f p @ r)"
  shows "f = js ''param'' \<and> (\<exists>v. r = js '' != nil && '' @ v)"
proof -
  obtain q v where "f @ open_name @ p @ close_name @ r = js ''param'' @ open_name @ q @ close_name @ js '' != nil && param'' @ v"
      "q \<noteq> []" "34 \<notin> set q"
    using param_compare_captures [OF assms(2)] by (auto simp: call_text_def)
  then have "f = js ''param'' \<and> r = js '' != nil && param'' @ v"
    using call_text_eq [OF assms(1) source_callable(1)] by blast
  then show ?thesis by (simp add: js_Cons)
qed

section \<open>Reading single conditions\<close>

lemma no_captures: "full_captures rs s = {} \<Longrightarrow> re_match (anchored rs) s = None"
  by (simp add: re_match_anchored_None)

lemma one_capture:
  assumes "\<And>c'. c' \<in> full_captures rs s \<longleftrightarrow> c' = c"
  shows "re_match (anchored rs) s = Some c"
  using assms by (intro re_match_anchored_unique) auto

lemma capture_upd [simp]: "capture (m(n \<mapsto> w)) k = (if k = n then w else capture m k)"
  by (simp add: capture_def)

lemma time_none:
  assumes "callable f p" "f \<notin> set TIME_FUNCS"
  shows "tryParseTimeCondition (call_text f p @ r) = None"
proof -
  have "full_captures time_range (call_text f p @ r) = {}" "full_captures time_compare (call_text f p @ r) = {}"
    using call_time_range [OF assms(1)] call_time_compare [OF assms(1)] assms(2) by blast+
  then show ?thesis using call_wrapped [OF assms(1)] by (simp add: tryParseTimeCondition_def no_captures)
qed

lemma source_not_time: "js ''param'' \<notin> set TIME_FUNCS" "js ''header'' \<notin> set TIME_FUNCS"
  using time_not_source by blast+

lemma parse_header_exists:
  assumes "p \<noteq> []" "34 \<notin> set p"
  shows "tryParseRequestCondition (call_text (js ''header'') p @ js '' != '' @ [34, 34]) =
    Returns (Some (ParamHeaderCondition SOURCE_HEADER p MATCH_EXISTS []))"
proof -
  note c = source_callable(2) [OF assms]
  have "re_match (anchored header_exists) (call_text (js ''header'') p @ js '' != '' @ [34, 34]) = Some [1 \<mapsto> p]"
    using call_header_exists [OF c] by (intro one_capture) blast
  then show ?thesis using time_none [OF c source_not_time(2)] by (simp add: tryParseRequestCondition_def)
qed

lemma header_not_param: "js ''header'' \<noteq> js ''param''" "js ''param'' \<noteq> js ''header''"
  by (simp_all add: js_Cons)

lemma parse_param_exists:
  assumes "p \<noteq> []" "34 \<notin> set p"
  shows "tryParseRequestCondition (call_text (js ''param'') p @ js '' != nil'') =
    Returns (Some (ParamHeaderCondition SOURCE_PARAM p MATCH_EXISTS []))"
proof -
  note c = source_callable(1) [OF assms]
  have "re_match (anchored header_exists) (call_text (js ''param'') p @ js '' != nil'') = None"
    using call_header_exists [OF c] header_not_param by (intro no_captures) blast
  moreover have "re_match (anchored param_exists) (call_text (js ''param'') p @ js '' != nil'') = Some [1 \<mapsto> p]"
    using call_param_exists [OF c] by (intro one_capture) blast
  ultimately show ?thesis using time_none [OF c source_not_time(1)] by (simp add: tryParseRequestCondition_def)
qed

text \<open>A text that begins with a call of a source, and then neither tests existence nor goes on after such a test.\<close>

lemma parse_other:
  assumes "callable f p" "f \<in> {js ''param'', js ''header''}"
    and "r \<noteq> js '' != '' @ [34, 34]" "r \<noteq> js '' != nil''" "\<And>v. r \<noteq> js '' != nil && '' @ v"
  shows "tryParseRequestCondition (call_text f p @ r) = Returns (tryParseEquals (call_text f p @ r))"
proof -
  have "full_captures header_exists (call_text f p @ r) = {}" using call_header_exists [OF assms(1)] assms(3) by blast
  moreover have "full_captures param_exists (call_text f p @ r) = {}" using call_param_exists [OF assms(1)] assms(4) by blast
  moreover have "full_captures param_has (call_text f p @ r) = {}" using call_param_has [OF assms(1)] assms(5) by blast
  moreover have "full_captures param_compare (call_text f p @ r) = {}" using call_param_compare [OF assms(1)] assms(5) by blast
  ultimately have n: "re_match (anchored header_exists) (call_text f p @ r) = None"
      "re_match (anchored param_exists) (call_text f p @ r) = None" "re_match (anchored header_has) (call_text f p @ r) = None"
      "re_match (anchored param_has) (call_text f p @ r) = None" "re_match (anchored param_compare) (call_text f p @ r) = None"
    using call_header_has [OF assms(1)] by (simp_all add: no_captures)
  have "tryParseTimeCondition (call_text f p @ r) = None"
    using assms(1,2) source_not_time by (intro time_none) auto
  then show ?thesis using n by (simp add: tryParseRequestCondition_def tryParseCompare_def)
qed

lemma parse_equals:
  assumes "f \<in> {js ''param'', js ''header''}" "p \<noteq> []" "34 \<notin> set p" "v \<noteq> []" "\<forall>x \<in> set v. dot x"
    and "parseExprLiteral v \<noteq> JNull"
  shows "tryParseRequestCondition (call_text f p @ js '' == '' @ v) =
    Returns (Some (ParamHeaderCondition f p MATCH_EQ (js_String (parseExprLiteral v))))"
proof -
  have c: "callable f p" using assms(1,2,3) source_callable by auto
  have "re_match (anchored value_equals) (call_text f p @ js '' == '' @ v) = Some [1 \<mapsto> f, 2 \<mapsto> p, 3 \<mapsto> v]"
    using call_value_equals [OF c] assms(1,4,5) by (intro one_capture) (auto simp: js_Cons)
  then have "tryParseEquals (call_text f p @ js '' == '' @ v) = Some (ParamHeaderCondition f p MATCH_EQ (js_String (parseExprLiteral v)))"
    using assms(6) by (simp add: tryParseEquals_def)
  then show ?thesis
    using parse_other [OF c assms(1), of "js '' == '' @ v"] by (simp add: js_Cons)
qed

lemma parse_param_rest:
  assumes "p \<noteq> []" "34 \<notin> set p" "rel \<in> {js ''>'', js ''>='', js ''<'', js ''<=''}"
  shows "tryParseRequestCondition (call_text (js ''param'') p @ js '' '' @ rel @ js '' '' @ v) = Returns None"
proof -
  note c = source_callable(1) [OF assms(1,2)]
  define r where "r = js '' '' @ rel @ js '' '' @ v"
  have r: "r \<noteq> js '' != '' @ w" "r \<noteq> js '' == '' @ w" for w using assms(3) by (auto simp: r_def js_Cons)
  have "full_captures value_equals (call_text (js ''param'') p @ r) = {}"
    using call_value_equals [OF c] r(2) by blast
  then have "tryParseEquals (call_text (js ''param'') p @ r) = None"
    by (simp add: tryParseEquals_def no_captures)
  moreover have "tryParseRequestCondition (call_text (js ''param'') p @ r) = Returns (tryParseEquals (call_text (js ''param'') p @ r))"
  proof (rule parse_other [OF c])
    show "r \<noteq> js '' != '' @ [34, 34]" by (rule r(1))
    show "r \<noteq> js '' != nil''" using r(1) [of "js ''nil''"] by (simp add: js_Cons)
    show "r \<noteq> js '' != nil && '' @ w" for w using r(1) [of "js ''nil && '' @ w"] by (simp add: js_Cons)
  qed simp
  ultimately show ?thesis by (simp add: r_def)
qed

lemma num_text_no_space: "\<forall>x \<in> set v. num_char x \<Longrightarrow> 32 \<notin> set v"
  using num_char_not by blast

lemma relation_no_space: "rel \<in> {js ''=='', js ''>='', js ''<''} \<Longrightarrow> 32 \<notin> set rel"
  by (auto simp: js_Cons)

definition relation_mode :: "jstring \<Rightarrow> jstring" where
  "relation_mode rel = (case map_of [(js ''=='', MATCH_EQ), (js ''>='', MATCH_GTE), (js ''<'', MATCH_LT)] rel of
     Some md \<Rightarrow> md | None \<Rightarrow> MATCH_EQ)"

lemma parse_time_compare:
  assumes "f \<in> set TIME_FUNCS" "tz \<noteq> []" "34 \<notin> set tz" "rel \<in> {js ''=='', js ''>='', js ''<''}" "v \<noteq> []" "\<forall>x \<in> set v. num_char x"
  shows "tryParseRequestCondition (call_text f tz @ js '' '' @ rel @ js '' '' @ v) =
    Returns (Some (TimeCondition f tz (relation_mode rel) v [] []))"
proof -
  define s where "s = call_text f tz @ js '' '' @ rel @ js '' '' @ v"
  note c = time_callable [OF assms(1,2,3)]
  have "js '' '' @ rel @ js '' '' @ v \<noteq> js '' >= '' @ a @ js '' || '' @ t" for a t
    using assms(4) num_text_no_space [OF assms(6)] by (auto simp: js_Cons)
  then have "full_captures time_range s = {}" unfolding s_def using call_time_range [OF c] by blast
  moreover have "full_captures ([lit (js ''('')] @ time_range @ [lit (js '')'')]) s = {}"
    unfolding s_def by (rule call_wrapped [OF c])
  moreover have "c' \<in> full_captures time_compare s \<longleftrightarrow> c' = [1 \<mapsto> f, 2 \<mapsto> tz, 3 \<mapsto> rel, 4 \<mapsto> v]" for c'
  proof -
    have "js '' '' @ rel @ js '' '' @ v = js '' '' @ rel' @ js '' '' @ v' \<longleftrightarrow> rel = rel' \<and> v = v'"
      if "rel' \<in> {js ''=='', js ''>='', js ''<''}" for rel' v'
      using split_char [OF relation_no_space [OF assms(4)] relation_no_space [OF that]] by (simp add: js_Cons)
    then have "(\<exists>rel' v'. js '' '' @ rel @ js '' '' @ v = js '' '' @ rel' @ js '' '' @ v' \<and> rel' \<in> {js ''=='', js ''>='', js ''<''} \<and>
        v' \<noteq> [] \<and> (\<forall>x \<in> set v'. num_char x) \<and> c' = [1 \<mapsto> f, 2 \<mapsto> tz, 3 \<mapsto> rel', 4 \<mapsto> v']) \<longleftrightarrow>
        c' = [1 \<mapsto> f, 2 \<mapsto> tz, 3 \<mapsto> rel, 4 \<mapsto> v]"
      using assms(4,5,6) by metis
    then show ?thesis unfolding s_def call_time_compare [OF c] using assms(1) by simp
  qed
  then have "re_match (anchored time_compare) s = Some [1 \<mapsto> f, 2 \<mapsto> tz, 3 \<mapsto> rel, 4 \<mapsto> v]" by (rule one_capture)
  ultimately have "tryParseTimeCondition s = Some (TimeCondition f tz (relation_mode rel) v [] [])"
    by (simp add: tryParseTimeCondition_def no_captures relation_mode_def)
  then show ?thesis by (simp add: tryParseRequestCondition_def s_def)
qed

definition range_text :: "jstring \<Rightarrow> jstring \<Rightarrow> jstring \<Rightarrow> jstring \<Rightarrow> jstring" where
  "range_text f tz a b = call_text f tz @ js '' >= '' @ a @ js '' || '' @ call_text f tz @ js '' < '' @ b"

lemma range_captures:
  assumes "f \<in> set TIME_FUNCS" "tz \<noteq> []" "34 \<notin> set tz" "a \<noteq> []" "\<forall>x \<in> set a. num_char x" "b \<noteq> []" "\<forall>x \<in> set b. num_char x"
  shows "c \<in> full_captures time_range (range_text f tz a b) \<longleftrightarrow> c = [1 \<mapsto> f, 2 \<mapsto> tz, 3 \<mapsto> a, 4 \<mapsto> b]"
proof -
  have e: "js '' >= '' @ a @ js '' || '' @ t @ js '' < '' @ b = js '' >= '' @ a' @ js '' || '' @ t @ js '' < '' @ b' \<longleftrightarrow> a = a' \<and> b = b'"
    if "\<forall>x \<in> set a'. num_char x" for a' b' t
    using split_char [OF num_text_no_space [OF assms(5)] num_text_no_space [OF that]] by (auto simp: js_Cons)
  show ?thesis
    unfolding range_text_def call_time_range [OF time_callable [OF assms(1,2,3)]]
    using assms e [of _ "f @ open_name @ tz @ close_name"] by (auto simp: call_text_def)
qed

lemma parse_range:
  assumes "f \<in> set TIME_FUNCS" "tz \<noteq> []" "34 \<notin> set tz" "a \<noteq> []" "\<forall>x \<in> set a. num_char x" "b \<noteq> []" "\<forall>x \<in> set b. num_char x"
  shows "tryParseRequestCondition (range_text f tz a b) = Returns (Some (TimeCondition f tz MATCH_RANGE [] a b))"
    and "tryParseRequestCondition (js ''('' @ range_text f tz a b @ js '')'') = Returns (Some (TimeCondition f tz MATCH_RANGE [] a b))"
proof -
  have m: "re_match (anchored time_range) (range_text f tz a b) = Some [1 \<mapsto> f, 2 \<mapsto> tz, 3 \<mapsto> a, 4 \<mapsto> b]"
    using range_captures [OF assms] by (rule one_capture)
  show "tryParseRequestCondition (range_text f tz a b) = Returns (Some (TimeCondition f tz MATCH_RANGE [] a b))"
    by (simp add: tryParseRequestCondition_def tryParseTimeCondition_def m)
  define s where "s = js ''('' @ range_text f tz a b @ js '')''"
  have "g \<in> set TIME_FUNCS \<Longrightarrow> s \<noteq> g @ t" for g t
    unfolding s_def TIME_FUNCS_def by (auto simp: js_Cons)
  then have "full_captures time_range s = {}" using time_range_captures [of _ s] by blast
  moreover have "re_match (anchored ([lit (js ''('')] @ time_range @ [lit (js '')'')])) s = Some [1 \<mapsto> f, 2 \<mapsto> tz, 3 \<mapsto> a, 4 \<mapsto> b]"
  proof (rule one_capture)
    have e: "s = js ''('' @ t @ js '')'' \<longleftrightarrow> t = range_text f tz a b" for t
      by (auto simp: s_def)
    show "c \<in> full_captures ([lit (js ''('')] @ time_range @ [lit (js '')'')]) s \<longleftrightarrow> c = [1 \<mapsto> f, 2 \<mapsto> tz, 3 \<mapsto> a, 4 \<mapsto> b]" for c
      unfolding wrapped_range_captures e range_captures [OF assms, symmetric] by blast
  qed
  ultimately show "tryParseRequestCondition (js ''('' @ range_text f tz a b @ js '')'') = Returns (Some (TimeCondition f tz MATCH_RANGE [] a b))"
    by (simp add: tryParseRequestCondition_def tryParseTimeCondition_def no_captures s_def)
qed

text \<open>A text that begins with \<open>has(\<close> can only be read as a test of a header.\<close>

lemma has_no_call:
  assumes "callable f' p'" "f \<in> {js ''param'', js ''header''}"
  shows "js ''has('' @ call_text f p @ t \<noteq> f' @ open_name @ u"
proof -
  have "js ''has'' @ 40 # call_text f p @ t = f' @ 40 # 34 # u' \<longleftrightarrow> js ''has'' = f' \<and> call_text f p @ t = 34 # u'" for u'
    using assms(1) split_char [of 40 "js ''has''" f'] by (simp add: callable_def js_Cons)
  then show ?thesis using assms(2) by (auto simp: open_name_def call_text_def js_Cons)
qed

lemma parse_has:
  assumes "f \<in> {js ''param'', js ''header''}"
  shows "tryParseRequestCondition (js ''has('' @ call_text f p @ t) =
    (case re_match (anchored header_has) (js ''has('' @ call_text f p @ t) of
       Some m \<Rightarrow> contains_condition SOURCE_HEADER (capture m 1) (capture m 2) | None \<Rightarrow> Returns None)"
proof -
  define s where "s = js ''has('' @ call_text f p @ t"
  have n: "callable g q \<Longrightarrow> s \<noteq> g @ open_name @ u" for g q u
    unfolding s_def using has_no_call assms by blast
  have t: "g \<in> set TIME_FUNCS \<Longrightarrow> s \<noteq> g @ open_name @ u" for g u
    using n time_callable [of g "[0]"] by simp
  have src: "g \<in> {js ''param'', js ''header''} \<Longrightarrow> s \<noteq> g @ open_name @ u" for g u
    using n source_callable [of "[0]"] by auto
  have "full_captures time_range s = {}" using t time_range_captures [of _ s] by blast
  moreover have "full_captures time_compare s = {}" using t time_compare_captures [of _ s] by blast
  moreover have "s \<noteq> js ''('' @ u" for u by (simp add: s_def js_Cons)
  then have "full_captures ([lit (js ''('')] @ time_range @ [lit (js '')'')]) s = {}" using wrapped_range_captures [of _ s] by blast
  ultimately have "tryParseTimeCondition s = None" by (simp add: tryParseTimeCondition_def no_captures)
  moreover have "full_captures header_exists s = {}" using src header_exists_captures [of _ s] by blast
  moreover have "full_captures param_exists s = {}" using src param_exists_captures [of _ s] by blast
  moreover have "full_captures param_has s = {}" using src param_has_captures [of _ s] by blast
  moreover have "full_captures param_compare s = {}" using src param_compare_captures [of _ s] by blast
  moreover have "full_captures value_equals s = {}" using src value_equals_captures [of _ s] by blast
  ultimately show ?thesis
    unfolding s_def [symmetric]
    by (simp add: tryParseRequestCondition_def no_captures tryParseCompare_def tryParseEquals_def split: option.split)
qed

lemma header_has_match:
  assumes "p \<noteq> []" "34 \<notin> set p" "literal_units b"
  shows "re_match (anchored header_has) (js ''has('' @ call_text (js ''header'') p @ js '', '' @ (34 # b @ [34]) @ js '')'') =
    Some [1 \<mapsto> p, 2 \<mapsto> 34 # b @ [34]]"
proof (rule one_capture)
  fix c
  define s where "s = js ''has('' @ call_text (js ''header'') p @ js '', '' @ (34 # b @ [34]) @ js '')''"
  have "s = js ''has(header'' @ open_name @ q @ close_name @ js '', '' @ (34 # b' @ [34]) @ js '')'' \<longleftrightarrow> p = q \<and> b = b'"
    if "q \<noteq> []" "34 \<notin> set q" for q b'
    using split_char [OF assms(2) that(2)] by (auto simp: s_def call_text_def open_name_def close_name_def js_Cons)
  then show "c \<in> full_captures header_has (js ''has('' @ call_text (js ''header'') p @ js '', '' @ (34 # b @ [34]) @ js '')'') \<longleftrightarrow>
      c = [1 \<mapsto> p, 2 \<mapsto> 34 # b @ [34]]"
    unfolding s_def [symmetric] header_has_captures using assms by blast
qed

lemma parse_header_has:
  assumes "p \<noteq> []" "34 \<notin> set p" "literal_units b" "json_parse (34 # b @ [34]) = Some (JStr v)"
  shows "tryParseRequestCondition (js ''has('' @ call_text (js ''header'') p @ js '', '' @ (34 # b @ [34]) @ js '')'') =
    Returns (Some (ParamHeaderCondition SOURCE_HEADER p MATCH_CONTAINS v))"
  using parse_has [of "js ''header''" p] header_has_match [OF assms(1,2,3)] assms(4) by (simp add: contains_condition_def)

lemma parse_param_has:
  "tryParseRequestCondition (js ''has('' @ call_text (js ''param'') p @ t) = Returns None"
proof -
  have "full_captures header_has (js ''has('' @ call_text (js ''param'') p @ t) = {}"
  proof -
    have "js ''has('' @ call_text (js ''param'') p @ t \<noteq> js ''has(header'' @ u" for u by (simp add: call_text_def js_Cons)
    then show ?thesis using header_has_captures by blast
  qed
  then show ?thesis by (simp add: parse_has no_captures)
qed

section \<open>Conditions of the editor that survive printing and reading\<close>

text \<open>
  Names and values without the characters that the printed text gives a meaning: the splitting into
  parts counts parentheses also inside of string literals, and looks for \<open>&&\<close> and \<open>||\<close> there.
\<close>

definition markup :: "jchar \<Rightarrow> bool" where
  "markup c \<longleftrightarrow> c = 40 \<or> c = 41 \<or> c = 38 \<or> c = 124"

definition plain_name :: "jstring \<Rightarrow> bool" where
  "plain_name p \<longleftrightarrow> p \<noteq> [] \<and> js_trim p = p \<and> quote_body p = p \<and> 34 \<notin> set p \<and> list_all (\<lambda>c. \<not> markup c) p"

definition plain_value :: "jstring \<Rightarrow> bool" where
  "plain_value v \<longleftrightarrow> js_trim v = v \<and> unit16 v \<and> list_all (\<lambda>c. \<not> markup c \<and> c \<noteq> 8232 \<and> c \<noteq> 8233) v"

definition editable :: "RequestCondition \<Rightarrow> bool" where
  "editable cond = (case cond of
     TimeCondition f tz md v a b \<Rightarrow> f \<in> set TIME_FUNCS \<and> plain_name tz \<and>
       (md \<in> {MATCH_EQ, MATCH_GTE, MATCH_LT} \<and> is_numeric_literal v \<and> a = [] \<and> b = [] \<or>
        md = MATCH_RANGE \<and> v = [] \<and> is_numeric_literal a \<and> is_numeric_literal b)
   | ParamHeaderCondition s p md v \<Rightarrow> s \<in> {SOURCE_PARAM, SOURCE_HEADER} \<and> plain_name p \<and>
       (md = MATCH_EXISTS \<and> v = [] \<or> md = MATCH_EQ \<and> plain_value v \<or>
        s = SOURCE_HEADER \<and> md = MATCH_CONTAINS \<and> plain_value v))"

lemma numeric_trim: "is_numeric_literal v \<Longrightarrow> js_trim v = v"
  using numeric_literal_chars num_char_not by (intro js_trim_no_ws) blast

lemma numericD: "is_numeric_literal v \<Longrightarrow> v \<noteq> []" "is_numeric_literal v \<Longrightarrow> \<forall>x \<in> set v. num_char x"
  using numeric_literal_chars by blast+

lemma plain_nameD: "plain_name p \<Longrightarrow> p \<noteq> []" "plain_name p \<Longrightarrow> 34 \<notin> set p" "plain_name p \<Longrightarrow> js_trim p = p"
  by (simp_all add: plain_name_def)

lemma plain_name_call: "plain_name p \<Longrightarrow> f @ js ''('' @ json_quote p @ js '')'' = call_text f p"
  by (simp add: plain_name_def json_quote_def call_text_def open_name_def close_name_def js_Cons)

lemma option_mode_in: "md \<in> set (map fst (getRequestRuleMatchOptions s)) \<Longrightarrow> option_mode s d (JStr md) = md"
  by (auto simp: option_mode_def find_Some_iff find_None_iff split: option.split) (metis fst_conv in_set_conv_nth)

lemma match_options:
  "map fst (getRequestRuleMatchOptions SOURCE_TIME) = [MATCH_EQ, MATCH_GTE, MATCH_LT, MATCH_RANGE]"
  "map fst (getRequestRuleMatchOptions SOURCE_HEADER) = [MATCH_EQ, MATCH_CONTAINS, MATCH_EXISTS]"
  "map fst (getRequestRuleMatchOptions SOURCE_PARAM) =
     [MATCH_EQ, MATCH_CONTAINS, MATCH_EXISTS, MATCH_GT, MATCH_GTE, MATCH_LT, MATCH_LTE]"
  by (simp_all add: getRequestRuleMatchOptions_def SOURCE_TIME_def SOURCE_HEADER_def SOURCE_PARAM_def js_Cons)

lemma source_distinct: "SOURCE_TIME \<noteq> SOURCE_HEADER" "SOURCE_TIME \<noteq> SOURCE_PARAM" "SOURCE_HEADER \<noteq> SOURCE_PARAM"
  by (simp_all add: SOURCE_TIME_def SOURCE_HEADER_def SOURCE_PARAM_def js_Cons)

lemma condition_object_fields:
  "get_prop (condition_object (ParamHeaderCondition s p md v)) (js ''source'') = JStr s"
  "get_prop (condition_object (ParamHeaderCondition s p md v)) (js ''path'') = JStr p"
  "get_prop (condition_object (ParamHeaderCondition s p md v)) (js ''mode'') = JStr md"
  "get_prop (condition_object (ParamHeaderCondition s p md v)) (js ''value'') = JStr v"
  "get_prop (condition_object (TimeCondition f tz md v a b)) (js ''source'') = JStr SOURCE_TIME"
  "get_prop (condition_object (TimeCondition f tz md v a b)) (js ''timeFunc'') = JStr f"
  "get_prop (condition_object (TimeCondition f tz md v a b)) (js ''timezone'') = JStr tz"
  "get_prop (condition_object (TimeCondition f tz md v a b)) (js ''mode'') = JStr md"
  "get_prop (condition_object (TimeCondition f tz md v a b)) (js ''value'') = JStr v"
  "get_prop (condition_object (TimeCondition f tz md v a b)) (js ''rangeStart'') = JStr a"
  "get_prop (condition_object (TimeCondition f tz md v a b)) (js ''rangeEnd'') = JStr b"
  by (simp_all add: get_prop_def js_Cons)

lemma match_option_set:
  "fst ` set (getRequestRuleMatchOptions SOURCE_TIME) = {MATCH_EQ, MATCH_GTE, MATCH_LT, MATCH_RANGE}"
  "fst ` set (getRequestRuleMatchOptions SOURCE_HEADER) = {MATCH_EQ, MATCH_CONTAINS, MATCH_EXISTS}"
  "fst ` set (getRequestRuleMatchOptions SOURCE_PARAM) =
     {MATCH_EQ, MATCH_CONTAINS, MATCH_EXISTS, MATCH_GT, MATCH_GTE, MATCH_LT, MATCH_LTE}"
  unfolding set_map [symmetric] match_options by simp_all

text \<open>A condition whose mode is among the options of its source is normal.\<close>

lemma normalize_param_header:
  assumes "s \<in> {SOURCE_PARAM, SOURCE_HEADER}" "md \<in> set (map fst (getRequestRuleMatchOptions s))"
  shows "normalizeCondition (condition_object (ParamHeaderCondition s p md v)) = ParamHeaderCondition s p md v"
  using assms(1) source_distinct option_mode_in [OF assms(2)]
  by (auto simp: normalizeCondition_def condition_object_fields Let_def js_or_def nullish_to_string_def simp del: condition_object.simps)

lemma normalize_time:
  assumes "f \<in> set TIME_FUNCS" "tz \<noteq> []" "md \<in> set (map fst (getRequestRuleMatchOptions SOURCE_TIME))"
  shows "normalizeCondition (condition_object (TimeCondition f tz md v a b)) = TimeCondition f tz md v a b"
  using assms(1,2) option_mode_in [OF assms(3)]
  by (simp add: normalizeCondition_def condition_object_fields Let_def js_or_def nullish_to_string_def isTimeFunc_def del: condition_object.simps)

text \<open>What is printed for a condition of the editor.\<close>

fun condition_text :: "RequestCondition \<Rightarrow> jstring" where
  "condition_text (TimeCondition f tz md v a b) =
     (if md = MATCH_RANGE then range_text f tz a b else call_text f tz @ js '' '' @ time_op md @ js '' '' @ v)"
| "condition_text (ParamHeaderCondition s p md v) =
     (if md = MATCH_EXISTS then (if s = SOURCE_HEADER then call_text s p @ js '' != '' @ [34, 34] else call_text s p @ js '' != nil'')
      else if md = MATCH_CONTAINS then js ''has('' @ call_text s p @ js '', '' @ json_quote v @ js '')''
      else call_text s p @ js '' == '' @ buildExprLiteral MATCH_EQ v)"

lemma match_distinct: "MATCH_EXISTS \<noteq> MATCH_EQ" "MATCH_CONTAINS \<noteq> MATCH_EQ" "MATCH_RANGE \<noteq> MATCH_EQ" "MATCH_RANGE \<noteq> MATCH_GTE"
  "MATCH_RANGE \<noteq> MATCH_LT" "MATCH_CONTAINS \<noteq> MATCH_EXISTS" "MATCH_EQ \<noteq> MATCH_GTE" "MATCH_EQ \<noteq> MATCH_LT" "MATCH_EQ \<noteq> MATCH_GT"
  "MATCH_EQ \<noteq> MATCH_LTE" "MATCH_LT \<noteq> MATCH_GTE"
  by (simp_all add: match_defs js_Cons)

lemma build_editable_time:
  assumes "editable (TimeCondition f tz md v a b)"
  shows "buildRequestConditionExpr (TimeCondition f tz md v a b) = condition_text (TimeCondition f tz md v a b)"
proof -
  have e: "f \<in> set TIME_FUNCS" "plain_name tz"
      "md \<in> {MATCH_EQ, MATCH_GTE, MATCH_LT} \<and> is_numeric_literal v \<or> md = MATCH_RANGE \<and> is_numeric_literal a \<and> is_numeric_literal b"
    using assms by (auto simp: editable_def)
  have "normalizeCondition (condition_object (TimeCondition f tz md v a b)) = TimeCondition f tz md v a b"
    using e(1) plain_nameD(1) [OF e(2)] e(3) by (intro normalize_time) (auto simp: match_option_set)
  then show ?thesis
    using e(3) match_distinct numeric_trim
    by (auto simp: buildRequestConditionExpr_def buildTimeConditionExpr_def build_time_def Let_def plain_name_call [OF e(2)] range_text_def
        simp del: condition_object.simps)
qed

lemma build_editable_param_header:
  assumes "editable (ParamHeaderCondition s p md v)"
  shows "buildRequestConditionExpr (ParamHeaderCondition s p md v) = condition_text (ParamHeaderCondition s p md v)"
proof -
  have e: "s \<in> {SOURCE_PARAM, SOURCE_HEADER}" "plain_name p"
      "md = MATCH_EXISTS \<or> md = MATCH_EQ \<or> s = SOURCE_HEADER \<and> md = MATCH_CONTAINS \<and> js_trim v = v"
    using assms by (auto simp: editable_def plain_value_def)
  have n: "normalizeCondition (condition_object (ParamHeaderCondition s p md v)) = ParamHeaderCondition s p md v"
    using e(1,3) by (intro normalize_param_header) (auto simp: match_option_set)
  have s: "(if s = SOURCE_HEADER then js ''header'' else js ''param'') = s"
    using e(1) by (auto simp: SOURCE_HEADER_def SOURCE_PARAM_def js_Cons)
  have b: "buildRequestConditionExpr (ParamHeaderCondition s p md v) = build_param_header (ParamHeaderCondition s p md v)"
    by (simp add: buildRequestConditionExpr_def n del: condition_object.simps)
  have src: "(if s = SOURCE_HEADER then js ''header'' else js ''param'') @ js ''('' @ json_quote p @ js '')'' @ t = call_text s p @ t" for t
    using plain_name_call [OF e(2), of s] unfolding s append_assoc [symmetric] by simp
  note bd = build_param_header_def Let_def plain_nameD(1,3) [OF e(2)] RequestCondition.sel append_assoc src
  show ?thesis
    using e(3)
  proof (elim disjE conjE)
    assume "md = MATCH_EXISTS"
    then show ?thesis unfolding b bd using plain_nameD(1) [OF e(2)] by simp
  next
    assume "md = MATCH_EQ"
    then show ?thesis unfolding b bd using plain_nameD(1) [OF e(2)] match_distinct by simp
  next
    assume "s = SOURCE_HEADER" "md = MATCH_CONTAINS" "js_trim v = v"
    then show ?thesis unfolding b bd using plain_nameD(1) [OF e(2)] match_distinct by (simp add: buildExprLiteral_def)
  qed
qed

lemma build_editable: "editable c \<Longrightarrow> buildRequestConditionExpr c = condition_text c"
  using build_editable_time build_editable_param_header by (cases c) blast+

text \<open>Literals read back.\<close>

lemma hex_digit_plain: "hex_digit n \<noteq> 92" "hex_digit n \<noteq> 34"
  by (auto simp: hex_digit_def)

lemma quote_char_units:
  "literal_units (quote_char c @ s) = literal_units s" "literal_units (unicode_escape c @ s) = literal_units s"
  by (auto simp: quote_char_def unicode_escape_def dot_def hex_digit_plain)

lemma surrogate_plain: "high_surrogate c \<or> low_surrogate c \<Longrightarrow> c \<noteq> 92 \<and> c \<noteq> 34"
  by (auto simp: high_surrogate_def low_surrogate_def)

lemma quote_body_units: "literal_units (quote_body v)"
proof (induction v rule: quote_body.induct)
  case (2 c)
  then show ?case using quote_char_units [of c "[]"] by simp
next
  case (3 c d cs)
  then show ?case using quote_char_units surrogate_plain [of c] surrogate_plain [of d] by simp
qed simp

definition escape_char :: "jchar \<Rightarrow> bool" where
  "escape_char x \<longleftrightarrow> x \<in> {34, 92} \<or> 48 \<le> x \<and> x \<le> 57 \<or> 97 \<le> x \<and> x \<le> 122"

lemma quote_char_chars:
  "x \<in> set (quote_char c) \<Longrightarrow> c < 65536 \<Longrightarrow> x = c \<and> 32 \<le> c \<or> escape_char x"
  "x \<in> set (unicode_escape c) \<Longrightarrow> c < 65536 \<Longrightarrow> escape_char x"
proof -
  have h: "n < 16 \<Longrightarrow> escape_char (hex_digit n)" for n by (auto simp: hex_digit_def escape_char_def)
  have e: "escape_char 92" "escape_char 117" "escape_char 34" "escape_char 98" "escape_char 102" "escape_char 110"
      "escape_char 114" "escape_char 116"
    by (simp_all add: escape_char_def)
  show u: "x \<in> set (unicode_escape c) \<Longrightarrow> c < 65536 \<Longrightarrow> escape_char x"
  proof -
    assume x: "x \<in> set (unicode_escape c)" and c: "c < 65536"
    have "c div 4096 < 16" using c by (simp add: less_mult_imp_div_less)
    then have "escape_char (hex_digit (c div 4096))" by (rule h)
    moreover have "escape_char (hex_digit (n mod 16))" for n by (rule h) simp
    ultimately show "escape_char x" using x e(1,2) unfolding unicode_escape_def by auto
  qed
  show "x \<in> set (quote_char c) \<Longrightarrow> c < 65536 \<Longrightarrow> x = c \<and> 32 \<le> c \<or> escape_char x"
    using u e unfolding quote_char_def by (auto split: if_splits)
qed

lemma quote_body_chars: "x \<in> set (quote_body v) \<Longrightarrow> unit16 v \<Longrightarrow> x \<in> set v \<and> 32 \<le> x \<or> escape_char x"
proof (induction v rule: quote_body.induct)
  case (2 c)
  then show ?case using quote_char_chars [of x c] by (auto simp: unit16_def split: if_splits)
next
  case (3 c d cs)
  have u: "c < 65536" "d < 65536" "unit16 cs" "unit16 (d # cs)" using 3(4) by (auto simp: unit16_def)
  have s: "high_surrogate y \<or> low_surrogate y \<Longrightarrow> 32 \<le> y" for y by (auto simp: high_surrogate_def low_surrogate_def)
  show ?case
  proof (cases "high_surrogate c \<and> low_surrogate d")
    case True
    then have "x = c \<or> x = d \<or> x \<in> set (quote_body cs)" using 3(3) by simp
    then show ?thesis using True 3(1) [OF True _ u(3)] s by auto
  next
    case False
    then have "x \<in> set (unicode_escape c) \<or> x \<in> set (quote_char c) \<or> x \<in> set (quote_body (d # cs))"
      using 3(3) by (auto split: if_splits)
    then show ?thesis using quote_char_chars [OF _ u(1), of x] 3(2) [OF False _ u(4)] by auto
  qed
qed simp

lemma json_parse_quote: "unit16 v \<Longrightarrow> json_parse (json_quote v) = Some (JStr v)"
  using json_parse_stringify [of "JStr v" 0] by (auto simp: json_stringify_def)

lemma json_quote_trim: "js_trim (json_quote v) = json_quote v"
  by (rule trimmed_id) (simp add: trimmed_def json_quote_def is_ws_def)

lemma parse_literal:
  assumes "plain_value v"
  shows "parseExprLiteral (buildExprLiteral MATCH_EQ v) = JStr v" "buildExprLiteral MATCH_EQ v \<noteq> []"
    "\<forall>x \<in> set (buildExprLiteral MATCH_EQ v). dot x \<and> \<not> markup x"
proof -
  have v: "js_trim v = v" "unit16 v" and c: "\<forall>x \<in> set v. \<not> markup x \<and> x \<noteq> 8232 \<and> x \<noteq> 8233"
    using assms by (auto simp: plain_value_def list_all_iff)
  have tf: "v = js ''true'' \<or> v = js ''false'' \<Longrightarrow> v \<noteq> [] \<and> (\<forall>x \<in> set v. dot x)"
    by (auto simp: js_Cons dot_def)
  have n: "is_numeric_literal v \<Longrightarrow> v \<noteq> [] \<and> (\<forall>x \<in> set v. dot x)"
    using numeric_literal_chars num_char_not by blast
  have q: "\<not> is_numeric_literal (json_quote v)" "json_quote v \<noteq> js ''true''" "json_quote v \<noteq> js ''false''" "json_quote v \<noteq> []"
    using numericD(2) [of "json_quote v"] num_char_not [of 34] by (auto simp: json_quote_def js_Cons)
  have e: "escape_char x \<Longrightarrow> dot x \<and> \<not> markup x" for x by (auto simp: escape_char_def dot_def markup_def)
  have qc: "\<forall>x \<in> set (json_quote v). dot x \<and> \<not> markup x"
    using quote_body_chars [OF _ v(2)] c e by (fastforce simp: json_quote_def dot_def markup_def)
  have b: "buildExprLiteral MATCH_EQ v =
      (if v = js ''true'' \<or> v = js ''false'' \<or> is_numeric_literal v then v else json_quote v)"
    using match_distinct(2) by (simp add: buildExprLiteral_def Let_def v(1))
  show "parseExprLiteral (buildExprLiteral MATCH_EQ v) = JStr v"
  proof (cases "v = js ''true'' \<or> v = js ''false'' \<or> is_numeric_literal v")
    case True
    then show ?thesis unfolding b by (auto simp: parseExprLiteral_def Let_def v(1))
  next
    case False
    then show ?thesis
      unfolding b using q json_parse_quote [OF v(2)] by (simp add: parseExprLiteral_def Let_def json_quote_trim)
  qed
  show "buildExprLiteral MATCH_EQ v \<noteq> []" unfolding b using tf n q(4) by simp
  show "\<forall>x \<in> set (buildExprLiteral MATCH_EQ v). dot x \<and> \<not> markup x"
  proof (cases "v = js ''true'' \<or> v = js ''false'' \<or> is_numeric_literal v")
    case True
    then show ?thesis unfolding b using tf n c by auto
  next
    case False
    then show ?thesis unfolding b using qc by simp
  qed
qed

text \<open>Every condition of the editor is read back from its text, a range also with parentheses around it.\<close>

lemma time_op_mode: "md \<in> {MATCH_EQ, MATCH_GTE, MATCH_LT} \<Longrightarrow> relation_mode (time_op md) = md \<and> time_op md \<in> {js ''=='', js ''>='', js ''<''}"
  by (auto simp: relation_mode_def time_op_def match_defs js_Cons)

lemma source_eq: "SOURCE_PARAM = js ''param''" "SOURCE_HEADER = js ''header''"
  by (simp_all add: SOURCE_PARAM_def SOURCE_HEADER_def)

lemma parse_condition_text:
  assumes "editable c"
  shows "tryParseRequestCondition (condition_text c) = Returns (Some c)"
proof (cases c)
  case (TimeCondition f tz md v a b)
  have e: "f \<in> set TIME_FUNCS" "plain_name tz"
      "md \<in> {MATCH_EQ, MATCH_GTE, MATCH_LT} \<and> is_numeric_literal v \<and> a = [] \<and> b = [] \<or>
       md = MATCH_RANGE \<and> v = [] \<and> is_numeric_literal a \<and> is_numeric_literal b"
    using assms TimeCondition by (auto simp: editable_def)
  note tz = plain_nameD(1,2) [OF e(2)]
  from e(3) show ?thesis
  proof
    assume "md \<in> {MATCH_EQ, MATCH_GTE, MATCH_LT} \<and> is_numeric_literal v \<and> a = [] \<and> b = []"
    then show ?thesis
      using parse_time_compare [OF e(1) tz, of "time_op md" v] time_op_mode [of md] numericD [of v] match_distinct TimeCondition by auto
  next
    assume "md = MATCH_RANGE \<and> v = [] \<and> is_numeric_literal a \<and> is_numeric_literal b"
    then show ?thesis
      using parse_range(1) [OF e(1) tz, of a b] numericD [of a] numericD [of b] TimeCondition by simp
  qed
next
  case (ParamHeaderCondition s p md v)
  have e: "s \<in> {SOURCE_PARAM, SOURCE_HEADER}" "plain_name p"
      "md = MATCH_EXISTS \<and> v = [] \<or> md = MATCH_EQ \<and> plain_value v \<or> s = SOURCE_HEADER \<and> md = MATCH_CONTAINS \<and> plain_value v"
    using assms ParamHeaderCondition by (auto simp: editable_def)
  note p = plain_nameD(1,2) [OF e(2)]
  from e(3) consider "md = MATCH_EXISTS" "v = []" | "md = MATCH_EQ" "plain_value v" | "s = SOURCE_HEADER" "md = MATCH_CONTAINS" "plain_value v"
    by blast
  then show ?thesis
  proof cases
    case 1
    then show ?thesis
      using e(1) parse_header_exists [OF p] parse_param_exists [OF p] ParamHeaderCondition source_distinct by (auto simp: source_eq)
  next
    case 2
    then show ?thesis
      using e(1) parse_equals [OF _ p parse_literal(2), of s v] parse_literal [OF 2(2)] ParamHeaderCondition match_distinct
      by (auto simp: source_eq)
  next
    case 3
    then have "unit16 v" by (simp add: plain_value_def)
    then have "tryParseRequestCondition (js ''has('' @ call_text (js ''header'') p @ js '', '' @ (34 # quote_body v @ [34]) @ js '')'') =
        Returns (Some (ParamHeaderCondition SOURCE_HEADER p MATCH_CONTAINS v))"
      using json_parse_quote by (intro parse_header_has [OF p quote_body_units]) (simp add: json_quote_def)
    then show ?thesis using 3 ParamHeaderCondition match_distinct by (simp add: source_eq json_quote_def)
  qed
qed

section \<open>Splitting at the top level\<close>

text \<open>The depth of parentheses after a text; \<open>calm_depth\<close> also refuses \<open>&\<close> outside of parentheses.\<close>

fun paren_depth :: "nat \<Rightarrow> jstring \<Rightarrow> nat option" where
  "paren_depth d [] = Some d"
| "paren_depth d (c # cs) =
     (if c = 40 then paren_depth (Suc d) cs
      else if c = 41 then (case d of 0 \<Rightarrow> None | Suc e \<Rightarrow> paren_depth e cs)
      else paren_depth d cs)"

fun calm_depth :: "nat \<Rightarrow> jstring \<Rightarrow> nat option" where
  "calm_depth d [] = Some d"
| "calm_depth d (c # cs) =
     (if c = 40 then calm_depth (Suc d) cs
      else if c = 41 then (case d of 0 \<Rightarrow> None | Suc e \<Rightarrow> calm_depth e cs)
      else if c = 38 \<and> d = 0 then None
      else calm_depth d cs)"

lemma paren_depth_append: "paren_depth d (a @ b) = Option.bind (paren_depth d a) (\<lambda>e. paren_depth e b)"
  by (induction d a rule: paren_depth.induct) (auto split: nat.split)

lemma calm_depth_append: "calm_depth d (a @ b) = Option.bind (calm_depth d a) (\<lambda>e. calm_depth e b)"
  by (induction d a rule: calm_depth.induct) (auto split: nat.split)

lemma calm_paren_depth: "calm_depth d s = Some e \<Longrightarrow> paren_depth d s = Some e"
  by (induction d s rule: calm_depth.induct) (auto split: nat.splits if_splits)

lemma calm_depth_plain: "\<forall>x \<in> set s. \<not> markup x \<Longrightarrow> calm_depth d s = Some d"
  by (induction s) (auto simp: markup_def)

lemma outer_parens_inside:
  "paren_depth d s = Some e \<Longrightarrow> t \<noteq> [] \<Longrightarrow> outer_parens (int d + 1) (s @ t) = outer_parens (int e + 1) t"
proof (induction d s rule: paren_depth.induct)
  case (2 d c cs)
  show ?case
  proof (cases "c = 41")
    case True
    then obtain d' where d: "d = Suc d'" "paren_depth d' cs = Some e" using 2(4) by (auto split: nat.splits)
    then show ?thesis using 2(2) [OF _ True d(1) d(2) 2(5)] True by (simp add: Let_def add.commute)
  next
    case False
    then show ?thesis using 2 by (auto simp: Let_def split: if_splits)
  qed
qed simp

definition enclosed :: "jstring \<Rightarrow> bool" where
  "enclosed p \<longleftrightarrow> (\<exists>b. p = 40 # b @ [41] \<and> paren_depth 0 b = Some 0)"

lemma enclosed_outer: "enclosed p \<Longrightarrow> outer_parens 0 p \<and> p \<noteq> [] \<and> last p = 41 \<and> js_trim p = p \<and> hd p = 40"
proof -
  assume "enclosed p"
  then obtain b where p: "p = 40 # b @ [41]" "paren_depth 0 b = Some 0" by (auto simp: enclosed_def)
  have "outer_parens 1 (b @ [41]) = outer_parens 1 [41]" using outer_parens_inside [OF p(2), of "[41]"] by simp
  then have "outer_parens 0 p" using p(1) by (simp add: Let_def)
  moreover have "js_trim p = p" using p(1) by (intro trimmed_id) (simp add: trimmed_def is_ws_def)
  ultimately show ?thesis using p(1) by simp
qed

lemma split_top_enclosed:
  "outer_parens d p \<Longrightarrow> p \<noteq> [] \<Longrightarrow> last p = 41 \<Longrightarrow> sep = 32 # sep' \<Longrightarrow>
   split_top sep d part (p @ t) = split_top sep 0 (rev p @ part) t"
proof (induction p arbitrary: d part)
  case (Cons c cs)
  define d' where "d' = (if c = 40 then d + 1 else if c = 41 then d - 1 else d)"
  show ?case
  proof (cases "cs = []")
    case True
    then have "c = 41" "d' = 0" using Cons.prems by (auto simp: d'_def Let_def)
    then show ?thesis using True Cons.prems(4) by (simp add: d'_def)
  next
    case False
    then have o: "outer_parens d' cs" "d' \<noteq> 0" using Cons.prems(1) unfolding d'_def by (auto simp: Let_def split: if_splits)
    have "split_top sep d part ((c # cs) @ t) = split_top sep d' (c # part) (cs @ t)"
      using o(2) by (simp add: d'_def [symmetric] Let_def)
    then show ?thesis using Cons.IH [OF o(1) False, of "c # part"] Cons.prems False by simp
  qed
qed simp

lemma split_top_enclosed_join:
  "list_all enclosed ps \<Longrightarrow> ps \<noteq> [] \<Longrightarrow> split_top (js '' * '') 0 [] (js_join (js '' * '') ps) = ps"
proof (induction ps rule: induct_list012)
  case (2 p)
  then show ?case using split_top_enclosed [of 0 p "js '' * ''" _ "[]" "[]"] enclosed_outer [of p] by (simp add: js_Cons)
next
  case (3 p q ps)
  define r where "r = js_join (js '' * '') (q # ps)"
  have "split_top (js '' * '') 0 [] (p @ js '' * '' @ r) = split_top (js '' * '') 0 (rev p) (js '' * '' @ r)"
    using split_top_enclosed [of 0 p "js '' * ''" _ "[]" "js '' * '' @ r"] enclosed_outer [of p] 3(3) by (simp add: js_Cons)
  also have "\<dots> = p # split_top (js '' * '') 0 [] r" by (simp add: js_Cons)
  finally show ?case using 3 by (simp add: r_def)
qed simp

lemma splitTopLevelMultiply_join:
  assumes "list_all enclosed ps" "ps \<noteq> []"
  shows "splitTopLevelMultiply (js_join (js '' * '') ps) = ps"
proof -
  have "map js_trim ps = ps" "filter (\<lambda>p. p \<noteq> []) ps = ps"
    using assms(1) enclosed_outer by (auto simp: list_all_iff map_idI filter_id_conv)
  then show ?thesis by (simp add: splitTopLevelMultiply_def split_top_enclosed_join [OF assms])
qed

lemma split_top_calm:
  "calm_depth d p = Some 0 \<Longrightarrow> t = [] \<or> hd t = 32 \<Longrightarrow>
   split_top (js '' && '') (int d) part (p @ t) = split_top (js '' && '') 0 (rev p @ part) t"
proof (induction d p arbitrary: part rule: calm_depth.induct)
  case (2 d c cs)
  have n: "js_starts_with (c # cs @ t) (js '' && '') = False" if "d = 0" "c \<noteq> 40" "c \<noteq> 41"
  proof -
    have "calm_depth 0 cs = Some 0" using 2(4) that by (auto split: if_splits)
    then have "cs = [] \<or> hd cs \<noteq> 38" by (cases cs) auto
    then show ?thesis using 2(5) by (cases cs; cases t) (auto simp: js_Cons)
  qed
  consider "c = 40" | "c = 41" | "c \<noteq> 40" "c \<noteq> 41" by blast
  then show ?case
  proof cases
    case 1
    then show ?thesis using 2(1) [of "c # part"] 2(4,5) by (simp add: Let_def js_Cons add.commute)
  next
    case 2
    then obtain e where "d = Suc e" "calm_depth e cs = Some 0" using \<open>calm_depth d (c # cs) = Some 0\<close> by (auto split: nat.splits)
    then show ?thesis using 2 "2.IH"(2) [of e "c # part"] "2.prems"(2) by (simp add: Let_def js_Cons)
  next
    case 3
    then have "calm_depth d cs = Some 0" "\<not> (c = 38 \<and> d = 0)" using "2.prems"(1) by (auto split: if_splits)
    then have "split_top (js '' && '') (int d) (c # part) (cs @ t) = split_top (js '' && '') 0 (rev cs @ c # part) t"
      using "2.IH"(3) [of "c # part"] "2.prems"(2) 3 by simp
    then show ?thesis using 3 n by (auto simp: Let_def)
  qed
qed simp

lemma split_top_calm_join:
  "list_all (\<lambda>p. calm_depth 0 p = Some 0) ps \<Longrightarrow> ps \<noteq> [] \<Longrightarrow>
   split_top (js '' && '') 0 [] (js_join (js '' && '') ps) = ps"
proof (induction ps rule: induct_list012)
  case (2 p)
  then show ?case using split_top_calm [of 0 p "[]" "[]"] by simp
next
  case (3 p q ps)
  define r where "r = js_join (js '' && '') (q # ps)"
  have "split_top (js '' && '') 0 [] (p @ js '' && '' @ r) = split_top (js '' && '') 0 (rev p) (js '' && '' @ r)"
    using split_top_calm [of 0 p "js '' && '' @ r" "[]"] 3(3) by (simp add: js_Cons)
  also have "\<dots> = p # split_top (js '' && '') 0 [] r" by (simp add: js_Cons)
  finally show ?case using 3 by (simp add: r_def)
qed simp

definition and_part :: "jstring \<Rightarrow> bool" where
  "and_part p \<longleftrightarrow> calm_depth 0 p = Some 0 \<and> p \<noteq> [] \<and> js_trim p = p"

lemma splitTopLevelAnd_join:
  assumes "list_all and_part ps" "ps \<noteq> []"
  shows "splitTopLevelAnd (js_join (js '' && '') ps) = ps"
proof -
  have "list_all (\<lambda>p. calm_depth 0 p = Some 0) ps" using assms(1) by (auto simp: list_all_iff and_part_def)
  moreover have "map js_trim ps = ps" "filter (\<lambda>p. p \<noteq> []) ps = ps"
    using assms(1) by (auto simp: list_all_iff map_idI filter_id_conv and_part_def)
  ultimately show ?thesis using assms(2) by (simp add: splitTopLevelAnd_def split_top_calm_join)
qed

section \<open>The printed conditions as parts\<close>

lemma trim_ends: "a \<noteq> [] \<Longrightarrow> b \<noteq> [] \<Longrightarrow> \<not> is_ws (hd a) \<Longrightarrow> \<not> is_ws (last b) \<Longrightarrow> js_trim (a @ m @ b) = a @ m @ b"
  by (rule trimmed_id) (simp add: trimmed_def)

lemma plain_name_chars: "plain_name p \<Longrightarrow> \<forall>x \<in> set p. \<not> markup x"
  by (auto simp: plain_name_def list_all_iff)

lemma num_text_chars: "is_numeric_literal v \<Longrightarrow> \<forall>x \<in> set v. \<not> markup x \<and> \<not> is_ws x"
  using numericD(2) num_char_not by (auto simp: markup_def)

lemma func_chars: "f \<in> set TIME_FUNCS \<or> f \<in> {js ''param'', js ''header''} \<Longrightarrow> f \<noteq> [] \<and> (\<forall>x \<in> set f. \<not> markup x \<and> \<not> is_ws x)"
  by (auto simp: TIME_FUNCS_def js_Cons markup_def is_ws_def)

lemma calm_call_text:
  assumes "\<forall>x \<in> set f. \<not> markup x" "\<forall>x \<in> set p. \<not> markup x"
  shows "calm_depth d (call_text f p @ r) = calm_depth d r"
  using calm_depth_plain [OF assms(1), of d] calm_depth_plain [OF assms(2), of "Suc d"]
  by (simp add: call_text_def calm_depth_append open_name_def close_name_def js_Cons)

lemma calm_simps:
  "calm_depth d (js '' >= '' @ r) = calm_depth d r" "calm_depth d (js '' || '' @ r) = calm_depth d r"
  "calm_depth d (js '' < '' @ r) = calm_depth d r" "calm_depth d (js '' '' @ r) = calm_depth d r"
  "calm_depth d (js '' == '' @ r) = calm_depth d r" "calm_depth d (js '', '' @ r) = calm_depth d r"
  "calm_depth d (js '' != nil'') = Some d" "calm_depth d (js '' != '' @ [34, 34]) = Some d"
  "calm_depth d (js ''has('' @ r) = calm_depth (Suc d) r" "calm_depth (Suc d) (js '')'') = Some d"
  by (simp_all add: js_Cons)

lemma calm_plain_append: "\<forall>x \<in> set s. \<not> markup x \<Longrightarrow> calm_depth d (s @ r) = calm_depth d r"
  by (simp add: calm_depth_append calm_depth_plain)

lemma quote_chars: "plain_value v \<Longrightarrow> \<forall>x \<in> set (json_quote v). \<not> markup x"
proof -
  assume "plain_value v"
  then have u: "unit16 v" "\<forall>x \<in> set v. \<not> markup x" by (auto simp: plain_value_def list_all_iff)
  have e: "escape_char x \<Longrightarrow> \<not> markup x" for x by (auto simp: escape_char_def markup_def)
  show ?thesis using quote_body_chars [OF _ u(1)] u(2) e by (fastforce simp: json_quote_def markup_def)
qed

lemma calm_condition_text:
  assumes "editable c"
  shows "calm_depth 0 (condition_text c) = Some 0"
proof (cases c)
  case (TimeCondition f tz md v a b)
  have e: "f \<in> set TIME_FUNCS" "plain_name tz"
      "md \<in> {MATCH_EQ, MATCH_GTE, MATCH_LT} \<and> is_numeric_literal v \<or> md = MATCH_RANGE \<and> is_numeric_literal a \<and> is_numeric_literal b"
    using assms TimeCondition by (auto simp: editable_def)
  have t: "md \<in> {MATCH_EQ, MATCH_GTE, MATCH_LT} \<Longrightarrow> \<forall>x \<in> set (time_op md). \<not> markup x"
    using time_op_mode [of md] by (auto simp: js_Cons markup_def)
  note ct = calm_call_text [of f tz] func_chars [of f] plain_name_chars [OF e(2)]
  from e(3) show ?thesis
  proof (elim disjE conjE)
    assume "md \<in> {MATCH_EQ, MATCH_GTE, MATCH_LT}" "is_numeric_literal v"
    then show ?thesis using ct e(1) t num_text_chars [of v] match_distinct TimeCondition
      by (auto simp: calm_simps calm_plain_append calm_depth_plain)
  next
    assume "md = MATCH_RANGE" "is_numeric_literal a" "is_numeric_literal b"
    then show ?thesis using ct e(1) num_text_chars [of a] num_text_chars [of b] TimeCondition
      by (simp add: range_text_def calm_simps calm_plain_append calm_depth_plain)
  qed
next
  case (ParamHeaderCondition s p md v)
  have e: "s \<in> {SOURCE_PARAM, SOURCE_HEADER}" "plain_name p"
      "md = MATCH_EXISTS \<or> md = MATCH_EQ \<and> plain_value v \<or> md = MATCH_CONTAINS \<and> plain_value v"
    using assms ParamHeaderCondition by (auto simp: editable_def)
  have s: "s \<in> {js ''param'', js ''header''}" using e(1) by (simp add: source_eq)
  note ct = calm_call_text [of s p] func_chars [of s] plain_name_chars [OF e(2)] s
  from e(3) show ?thesis
  proof (elim disjE conjE)
    assume "md = MATCH_EXISTS"
    then show ?thesis using ct ParamHeaderCondition by (auto simp: calm_simps)
  next
    assume "md = MATCH_EQ" "plain_value v"
    then show ?thesis using ct parse_literal(3) [of v] match_distinct ParamHeaderCondition
      by (simp add: calm_simps calm_depth_plain)
  next
    assume "md = MATCH_CONTAINS" "plain_value v"
    then show ?thesis using ct quote_chars [of v] match_distinct ParamHeaderCondition
      by (simp add: calm_simps calm_plain_append)
  qed
qed

definition tight :: "jstring \<Rightarrow> bool" where
  "tight s \<longleftrightarrow> s \<noteq> [] \<and> \<not> is_ws (hd s) \<and> \<not> is_ws (last s)"

lemma tight_trim: "tight s \<Longrightarrow> s \<noteq> [] \<and> js_trim s = s"
  by (simp add: tight_def trimmed_id trimmed_def)

lemma tight_append: "tight a \<Longrightarrow> tight b \<Longrightarrow> tight (a @ m @ b)"
  by (simp add: tight_def)

lemma tight_lits: "tight [34]" "tight (js ''l'')" "tight (js ''has('')" "tight (js '')'')"
  by (simp_all add: tight_def js_Cons is_ws_def)

lemma tight_no_ws: "s \<noteq> [] \<Longrightarrow> \<forall>x \<in> set s. \<not> is_ws x \<Longrightarrow> tight s"
  by (simp add: tight_def)

lemma tight_literal: "plain_value v \<Longrightarrow> tight (buildExprLiteral MATCH_EQ v)"
proof -
  assume v: "plain_value v"
  have "js_trim w = w \<Longrightarrow> w \<noteq> [] \<Longrightarrow> tight w" for w
    using trimmed_js_trim [of w] by (simp add: trimmed_def tight_def)
  moreover have "buildExprLiteral MATCH_EQ v = v \<or> buildExprLiteral MATCH_EQ v = json_quote v"
    using v match_distinct(2) by (simp add: buildExprLiteral_def Let_def plain_value_def)
  ultimately show ?thesis using parse_literal(2) [OF v] json_quote_trim [of v] v unfolding plain_value_def by metis
qed

lemma tight_condition_text:
  assumes "editable c"
  shows "tight (condition_text c)"
proof (cases c)
  case (TimeCondition f tz md v a b)
  have e: "f \<in> set TIME_FUNCS"
      "md \<in> {MATCH_EQ, MATCH_GTE, MATCH_LT} \<and> is_numeric_literal v \<or> md = MATCH_RANGE \<and> is_numeric_literal b"
    using assms TimeCondition by (auto simp: editable_def)
  have f: "tight f" using func_chars [of f] e(1) by (simp add: tight_no_ws)
  have n: "is_numeric_literal w \<Longrightarrow> tight w" for w using num_text_chars [of w] numericD(1) [of w] by (simp add: tight_no_ws)
  show ?thesis
  proof (cases "md = MATCH_RANGE")
    case True
    then have "tight b" using e(2) match_distinct n by auto
    then show ?thesis
      using True TimeCondition tight_append [OF f, of b "open_name @ tz @ close_name @ js '' >= '' @ a @ js '' || '' @ call_text f tz @ js '' < ''"]
      by (simp add: range_text_def call_text_def)
  next
    case False
    then have "tight v" using e(2) n by auto
    then show ?thesis
      using False TimeCondition tight_append [OF f, of v "open_name @ tz @ close_name @ js '' '' @ time_op md @ js '' ''"]
      by (simp add: call_text_def)
  qed
next
  case (ParamHeaderCondition s p md v)
  have e: "s \<in> {js ''param'', js ''header''}"
      "md = MATCH_EXISTS \<or> md = MATCH_EQ \<and> plain_value v \<or> md = MATCH_CONTAINS"
    using assms ParamHeaderCondition by (auto simp: editable_def source_eq)
  have s: "tight s" using func_chars [of s] e(1) by (simp add: tight_no_ws)
  from e(2) show ?thesis
  proof (elim disjE conjE)
    assume "md = MATCH_EXISTS"
    then show ?thesis
      using ParamHeaderCondition tight_append [OF s tight_lits(1), of "open_name @ p @ close_name @ js '' != '' @ [34]"]
        tight_append [OF s tight_lits(2), of "open_name @ p @ close_name @ js '' != ni''"]
      by (auto simp: call_text_def js_Cons)
  next
    assume "md = MATCH_EQ" "plain_value v"
    then show ?thesis
      using ParamHeaderCondition match_distinct tight_append [OF s tight_literal, of v "open_name @ p @ close_name @ js '' == ''"]
      by (simp add: call_text_def)
  next
    assume "md = MATCH_CONTAINS"
    then show ?thesis
      using ParamHeaderCondition match_distinct tight_append [OF tight_lits(3,4), of "call_text s p @ js '', '' @ json_quote v"] by simp
  qed
qed

text \<open>Only the text of a range contains \<open>||\<close>, so only a range gets parentheses.\<close>

definition is_range :: "RequestCondition \<Rightarrow> bool" where
  "is_range c \<longleftrightarrow> (case c of TimeCondition f tz md v a b \<Rightarrow> md = MATCH_RANGE | _ \<Rightarrow> False)"

lemma no_bar: "124 \<notin> set s \<Longrightarrow> \<not> js_includes s (js '' || '')"
  by (auto simp: js_includes_iff js_Cons)

lemma range_includes: "js_includes (range_text f tz a b) (js '' || '')"
  unfolding js_includes_iff range_text_def
  by (intro exI [of _ "call_text f tz @ js '' >= '' @ a"] exI [of _ "call_text f tz @ js '' < '' @ b"]) simp

lemma plain_no_bar: "\<forall>x \<in> set s. \<not> markup x \<Longrightarrow> 124 \<notin> set s"
  by (auto simp: markup_def)

lemma no_bar_lits: "124 \<notin> set (js '' '')" "124 \<notin> set (js '' == '')" "124 \<notin> set (js '' != nil'')" "124 \<notin> set (js '' != '')"
  "124 \<notin> set (js ''has('')" "124 \<notin> set (js '', '')" "124 \<notin> set (js '')'')" "124 \<notin> set open_name" "124 \<notin> set close_name"
  by (simp_all add: js_Cons open_name_def close_name_def)

lemma includes_bar: "editable c \<Longrightarrow> js_includes (condition_text c) (js '' || '') \<longleftrightarrow> is_range c"
proof (cases c)
  case (TimeCondition f tz md v a b)
  moreover assume "editable c"
  ultimately have e: "f \<in> set TIME_FUNCS" "plain_name tz" "md \<noteq> MATCH_RANGE \<Longrightarrow> md \<in> {MATCH_EQ, MATCH_GTE, MATCH_LT} \<and> is_numeric_literal v"
    by (auto simp: editable_def)
  have "md \<noteq> MATCH_RANGE \<Longrightarrow> 124 \<notin> set (condition_text c)"
    using e(3) plain_no_bar func_chars [of f] e(1) plain_name_chars [OF e(2)] num_text_chars [of v] time_op_mode [of md] TimeCondition
    by (auto simp: call_text_def no_bar_lits js_Cons)
  then show ?thesis using TimeCondition range_includes no_bar by (auto simp: is_range_def)
next
  case (ParamHeaderCondition s p md v)
  moreover assume "editable c"
  ultimately have e: "s \<in> {js ''param'', js ''header''}" "plain_name p"
      "md = MATCH_EXISTS \<or> md = MATCH_EQ \<and> plain_value v \<or> md = MATCH_CONTAINS \<and> plain_value v"
    by (auto simp: editable_def source_eq)
  have c: "124 \<notin> set (call_text s p)"
    using plain_no_bar [of s] plain_no_bar [of p] func_chars [of s] e(1) plain_name_chars [OF e(2)] by (simp add: call_text_def no_bar_lits)
  have "124 \<notin> set (condition_text c)"
    using e(3) c plain_no_bar quote_chars [of v] parse_literal(3) [of v] match_distinct ParamHeaderCondition
    by (elim disjE conjE) (auto simp: no_bar_lits)
  then show ?thesis using ParamHeaderCondition no_bar by (simp add: is_range_def)
qed

definition part_text :: "RequestCondition \<Rightarrow> jstring" where
  "part_text c = (if is_range c then js ''('' @ condition_text c @ js '')'' else condition_text c)"

lemma parse_part_text: "editable c \<Longrightarrow> tryParseRequestCondition (part_text c) = Returns (Some c)"
proof (cases "is_range c")
  case True
  moreover assume "editable c"
  ultimately obtain f tz a b where c: "c = TimeCondition f tz MATCH_RANGE [] a b" "f \<in> set TIME_FUNCS" "plain_name tz"
      "is_numeric_literal a" "is_numeric_literal b"
    using match_distinct by (cases c) (auto simp: is_range_def editable_def)
  then show ?thesis
    using True parse_range(2) [OF c(2) plain_nameD(1,2) [OF c(3)] numericD [OF c(4)] numericD [OF c(5)]]
    by (simp add: part_text_def)
qed (simp add: part_text_def parse_condition_text)

lemma and_part_text: "editable c \<Longrightarrow> and_part (part_text c)" "editable c \<Longrightarrow> and_part (condition_text c)"
proof -
  assume c: "editable c"
  note t = tight_trim [OF tight_condition_text [OF c]]
  have "tight (js ''('' @ condition_text c @ js '')'')"
    by (simp add: tight_def js_Cons is_ws_def)
  moreover have "calm_depth 0 (js ''('' @ condition_text c @ js '')'') = Some 0"
  proof -
    have "calm_depth (Suc d) s = Some (Suc e)" if "calm_depth d s = Some e" for d s e
      using that by (induction d s rule: calm_depth.induct) (auto split: nat.splits if_splits)
    then show ?thesis using calm_condition_text [OF c] by (simp add: js_Cons calm_depth_append)
  qed
  ultimately show "and_part (part_text c)" "and_part (condition_text c)"
    using t calm_condition_text [OF c] tight_trim by (auto simp: and_part_def part_text_def)
qed

section \<open>Rule groups\<close>

definition editable_group :: "RequestRuleGroup \<Rightarrow> bool" where
  "editable_group g \<longleftrightarrow> conditions g \<noteq> [] \<and> list_all editable (conditions g) \<and> is_numeric_literal (multiplier g) \<and>
     conditionText g = None \<and> matched g = None"

definition combined_text :: "RequestCondition list \<Rightarrow> jstring" where
  "combined_text cs = (if length cs = 1 then condition_text (hd cs) else js_join (js '' && '') (map part_text cs))"

definition factor_text :: "RequestRuleGroup \<Rightarrow> jstring" where
  "factor_text g = js ''('' @ combined_text (conditions g) @ js '' ? '' @ multiplier g @ js '' : 1)''"

lemma build_factor: "editable_group g \<Longrightarrow> buildRuleGroupFactor g = factor_text g"
proof -
  assume g: "editable_group g"
  then have e: "\<forall>c \<in> set (conditions g). editable c" "conditions g \<noteq> []" "is_numeric_literal (multiplier g)"
    by (auto simp: editable_group_def list_all_iff)
  have b: "map buildRequestConditionExpr (conditions g) = map condition_text (conditions g)"
    using e(1) build_editable by simp
  have f: "filter (\<lambda>e. e \<noteq> []) (map condition_text (conditions g)) = map condition_text (conditions g)"
    using e(1) tight_condition_text tight_trim by (auto simp: filter_id_conv)
  have p: "map (\<lambda>e. if js_includes e (js '' || '') then js ''('' @ e @ js '')'' else e) (map condition_text (conditions g)) =
      map part_text (conditions g)"
    using e(1) by (simp add: includes_bar part_text_def)
  show ?thesis
    using e(2,3) by (simp add: buildRuleGroupFactor_def Let_def b f p numeric_trim factor_text_def combined_text_def hd_map del: map_map)
qed

lemma combined_parts: "list_all editable cs \<Longrightarrow> cs \<noteq> [] \<Longrightarrow>
  \<exists>ps. combined_text cs = js_join (js '' && '') ps \<and> list_all and_part ps \<and> ps \<noteq> [] \<and>
    map tryParseRequestCondition ps = map (\<lambda>c. Returns (Some c)) cs"
proof (cases "length cs = 1")
  case True
  moreover assume "list_all editable cs"
  ultimately obtain c where "cs = [c]" "editable c" by (cases cs) auto
  then show ?thesis
    using and_part_text(2) parse_condition_text by (intro exI [of _ "[condition_text c]"]) (simp add: combined_text_def)
next
  case False
  moreover assume "list_all editable cs" "cs \<noteq> []"
  ultimately show ?thesis
    using and_part_text(1) parse_part_text by (intro exI [of _ "map part_text cs"]) (auto simp: combined_text_def list_all_iff)
qed

lemma parse_parts_map: "map f ps = map (\<lambda>x. Returns (Some x)) xs \<Longrightarrow> parse_parts f ps = Returns (Some xs)"
proof (induction ps arbitrary: xs)
  case (Cons p ps)
  then obtain y ys where "xs = y # ys" "f p = Returns (Some y)" "map f ps = map (\<lambda>x. Returns (Some x)) ys" by (cases xs) auto
  then show ?case using Cons.IH by simp
qed simp

lemma parse_combined:
  assumes "list_all editable cs" "cs \<noteq> []"
  shows "tryParseRequestConditions (combined_text cs) = Returns (Some cs)"
proof -
  obtain ps where ps: "combined_text cs = js_join (js '' && '') ps" "list_all and_part ps" "ps \<noteq> []"
      "map tryParseRequestCondition ps = map (\<lambda>c. Returns (Some c)) cs"
    using combined_parts [OF assms] by blast
  have "map (\<lambda>p. tryParseRequestCondition (js_trim p)) ps = map (\<lambda>c. Returns (Some c)) cs"
  proof -
    have "map (\<lambda>p. tryParseRequestCondition (js_trim p)) ps = map tryParseRequestCondition ps"
      using ps(2) by (simp add: list_all_iff and_part_def)
    then show ?thesis using ps(4) by simp
  qed
  then have "parse_parts (\<lambda>p. tryParseRequestCondition (js_trim p)) ps = Returns (Some cs)" by (rule parse_parts_map)
  then show ?thesis
    unfolding tryParseRequestConditions_def ps(1) splitTopLevelAnd_join [OF ps(2,3)]
    using assms(2) by (cases cs) auto
qed

lemma combined_not_Nil: "list_all editable cs \<Longrightarrow> cs \<noteq> [] \<Longrightarrow> combined_text cs \<noteq> []"
proof -
  assume "list_all editable cs" "cs \<noteq> []"
  from combined_parts [OF this] obtain ps where "combined_text cs = js_join (js '' && '') ps" "list_all and_part ps" "ps \<noteq> []"
    by blast
  then show ?thesis by (induction ps rule: induct_list012) (auto simp: and_part_def)
qed

lemma paren_depth_join: "list_all and_part ps \<Longrightarrow> paren_depth 0 (js_join (js '' && '') ps) = Some 0"
proof (induction ps rule: induct_list012)
  case (3 p q ps)
  have "paren_depth 0 (js '' && '' @ s) = paren_depth 0 s" for s by (simp add: js_Cons)
  then show ?case using 3 calm_paren_depth by (simp add: paren_depth_append and_part_def)
qed (auto simp: and_part_def calm_paren_depth)

lemma factor_captures:
  assumes "e \<noteq> []" "is_numeric_literal m"
  shows "re_match (anchored rule_factor) (js ''('' @ e @ js '' ? '' @ m @ js '' : 1)'') = Some [1 \<mapsto> e, 2 \<mapsto> m]"
proof (rule one_capture)
  fix c
  note m = numericD [OF assms(2)]
  have "e @ js '' ? '' @ m @ js '' : 1)'' = e' @ js '' ? '' @ m' @ js '' : 1)'' \<longleftrightarrow> e = e' \<and> m = m'"
    if "\<forall>x \<in> set m'. num_char x" for e' m'
  proof -
    have "e @ js '' ? '' @ m @ js '' : 1)'' = e' @ js '' ? '' @ m' @ js '' : 1)'' \<longleftrightarrow>
        (e @ js '' ?'') @ 32 # m = (e' @ js '' ?'') @ 32 # m'"
      by (simp add: js_Cons)
    also have "\<dots> \<longleftrightarrow> m = m' \<and> e @ js '' ?'' = e' @ js '' ?''"
      by (rule split_last_char [OF num_text_no_space [OF m(2)] num_text_no_space [OF that]])
    finally show ?thesis by auto
  qed
  then show "c \<in> full_captures rule_factor (js ''('' @ e @ js '' ? '' @ m @ js '' : 1)'') \<longleftrightarrow> c = [1 \<mapsto> e, 2 \<mapsto> m]"
    unfolding rule_factor_captures same_append_eq using assms(1) m by metis
qed

lemma parse_factor:
  assumes "editable_group g"
  shows "tryParseRuleGroupFactor (factor_text g) = Returns (Some g)"
proof -
  have e: "list_all editable (conditions g)" "conditions g \<noteq> []" "is_numeric_literal (multiplier g)"
    and n: "conditionText g = None" "matched g = None"
    using assms by (auto simp: editable_group_def)
  have g: "\<lparr>conditions = conditions g, multiplier = multiplier g, conditionText = None, matched = None\<rparr> = g"
    using n by simp
  show ?thesis
    unfolding tryParseRuleGroupFactor_def factor_text_def factor_captures [OF combined_not_Nil [OF e(1,2)] e(3)]
    using parse_combined [OF e(1,2)] g by simp
qed

lemma enclosed_factor:
  assumes "editable_group g"
  shows "enclosed (factor_text g)"
proof -
  have e: "list_all editable (conditions g)" "conditions g \<noteq> []" "is_numeric_literal (multiplier g)"
    using assms by (auto simp: editable_group_def)
  obtain ps where ps: "combined_text (conditions g) = js_join (js '' && '') ps" "list_all and_part ps"
    using combined_parts [OF e(1,2)] by blast
  have m: "paren_depth 0 (multiplier g) = Some 0"
    using num_text_chars [OF e(3)] by (intro calm_paren_depth calm_depth_plain) auto
  have "factor_text g = 40 # (combined_text (conditions g) @ js '' ? '' @ multiplier g @ js '' : 1'') @ [41]"
    by (simp add: factor_text_def js_Cons)
  moreover have "paren_depth 0 (js '' ? '') = Some 0" "paren_depth 0 (js '' : 1'') = Some 0"
    by (simp_all add: js_Cons)
  then have "paren_depth 0 (combined_text (conditions g) @ js '' ? '' @ multiplier g @ js '' : 1'') = Some 0"
    using ps paren_depth_join m by (simp add: paren_depth_append)
  ultimately show ?thesis unfolding enclosed_def by blast
qed

lemma enclosed_tight: "enclosed p \<Longrightarrow> tight p"
  by (auto simp: enclosed_def tight_def is_ws_def)

lemma tight_join: "list_all tight ps \<Longrightarrow> ps \<noteq> [] \<Longrightarrow> tight (js_join sep ps)"
  by (induction ps rule: induct_list012) (auto intro: tight_append)

lemma rules_read_back:
  assumes "list_all editable_group gs"
  shows "tryParseRequestRuleExpr (buildRequestRuleExpr gs) = Returns (Some gs)"
proof (cases "gs = []")
  case False
  have e: "list_all enclosed (map factor_text gs)" using assms enclosed_factor by (auto simp: list_all_iff)
  have "map buildRuleGroupFactor gs = map factor_text gs" using assms build_factor by (auto simp: list_all_iff)
  moreover have "filter (\<lambda>e. e \<noteq> []) (map factor_text gs) = map factor_text gs"
    using e enclosed_outer by (fastforce simp: filter_id_conv list_all_iff)
  ultimately have b: "buildRequestRuleExpr gs = js_join (js '' * '') (map factor_text gs)" by (simp only: buildRequestRuleExpr_def)
  have "tight (buildRequestRuleExpr gs)" unfolding b using e enclosed_tight False by (intro tight_join) (auto simp: list_all_iff)
  then have t: "js_trim (buildRequestRuleExpr gs) = buildRequestRuleExpr gs" "buildRequestRuleExpr gs \<noteq> []"
    using tight_trim by blast+
  have "parse_parts tryParseRuleGroupFactor (map factor_text gs) = Returns (Some gs)"
    using assms parse_factor by (intro parse_parts_map) (auto simp: list_all_iff)
  then show ?thesis
    unfolding tryParseRequestRuleExpr_def Let_def t(1)
    using t(2) splitTopLevelMultiply_join [OF e] False by (simp add: b)
qed (simp add: buildRequestRuleExpr_def tryParseRequestRuleExpr_def)

definition read_rules :: "jstring \<Rightarrow> RequestRuleGroup list option" where
  "read_rules s = (case tryParseRequestRuleExpr s of Returns r \<Rightarrow> r | Raises \<Rightarrow> None)"

interpretation rule_text: codec buildRequestRuleExpr read_rules "list_all editable_group"
  by unfold_locales (simp add: read_rules_def rules_read_back)

text \<open>Different rules of the editor have different texts.\<close>

lemmas build_rules_inj = rule_text.enc_inj


lemma digits_numeric:
  assumes "s \<noteq> []" "\<forall>x \<in> set s. is_digit x"
  shows "is_numeric_literal s"
proof -
  have step: "lang a c u m \<Longrightarrow> lang (seqs as) m v c' \<Longrightarrow> lang (seqs (a # as)) c (u @ v) c'" for a as c m c' u v
    by auto
  have "lang (seqs [re_plus (Cls is_digit), opt (lit [46]), Star (Cls is_digit)]) Map.empty (s @ [] @ [] @ []) Map.empty"
    by (intro step [where m = Map.empty]) (use assms in simp_all)
  then have "lang (seqs numeric_literal) Map.empty ([] @ s @ [] @ []) Map.empty"
    unfolding numeric_literal_def by (intro step [where m = Map.empty]) (simp_all del: lang_seqs_Cons)
  then have "lang (seqs numeric_literal) Map.empty s Map.empty" by simp
  moreover have "list_all context_free numeric_literal" by (simp add: numeric_literal_def)
  ultimately have "full_captures numeric_literal s \<noteq> {}" using full_captures_lang by blast
  then show ?thesis
    using re_match_anchored_None [of numeric_literal s] by (simp add: is_numeric_literal_def NUMERIC_LITERAL_REGEX_def)
qed

definition sample_groups :: "RequestRuleGroup list" where
  "sample_groups =
     [\<lparr>conditions = [TimeCondition (js ''hour'') (js ''UTC'') MATCH_RANGE [] (js ''22'') (js ''6''),
                    ParamHeaderCondition SOURCE_HEADER (js ''x-tier'') MATCH_EQ (js ''gold'')],
       multiplier = js ''2'', conditionText = None, matched = None\<rparr>,
      \<lparr>conditions = [ParamHeaderCondition SOURCE_PARAM (js ''stream'') MATCH_EXISTS []],
       multiplier = js ''3'', conditionText = None, matched = None\<rparr>]"

lemma sample_groups_editable: "list_all editable_group sample_groups"
proof -
  have n: "is_numeric_literal (js ''22'')" "is_numeric_literal (js ''6'')" "is_numeric_literal (js ''2'')" "is_numeric_literal (js ''3'')"
    by (simp_all add: digits_numeric js_Cons is_digit_def)
  have p: "plain_name (js ''UTC'')" "plain_name (js ''x-tier'')" "plain_name (js ''stream'')" "plain_value (js ''gold'')"
    by (simp_all add: plain_name_def plain_value_def js_Cons trim_defs is_ws_def markup_def quote_char_def
        high_surrogate_def low_surrogate_def unit16_def)
  show ?thesis using n p by (simp add: sample_groups_def editable_group_def editable_def TIME_FUNCS_def)
qed


text \<open>
  A comparison of a parameter is printed as a test that it exists and the comparison.  The reader
  splits the condition at this \<open>&&\<close> and knows no comparison without the test.
\<close>

definition split_mode :: "jstring \<Rightarrow> jstring \<Rightarrow> bool" where
  "split_mode md v \<longleftrightarrow> md = MATCH_CONTAINS \<and> plain_value v \<or> md \<in> {MATCH_GT, MATCH_GTE, MATCH_LT, MATCH_LTE} \<and> is_numeric_literal v"

lemma build_split:
  assumes "plain_name p" "split_mode md v"
  shows "\<exists>r. buildRequestConditionExpr (ParamHeaderCondition SOURCE_PARAM p md v) = call_text (js ''param'') p @ js '' != nil && '' @ r \<and>
    and_part r \<and> tryParseRequestCondition r = Returns None"
proof -
  have n: "normalizeCondition (condition_object (ParamHeaderCondition SOURCE_PARAM p md v)) = ParamHeaderCondition SOURCE_PARAM p md v"
    using assms(2) by (intro normalize_param_header) (auto simp: match_option_set split_mode_def)
  have b: "buildRequestConditionExpr (ParamHeaderCondition SOURCE_PARAM p md v) = build_param_header (ParamHeaderCondition SOURCE_PARAM p md v)"
    by (simp add: buildRequestConditionExpr_def n del: condition_object.simps)
  have src: "js ''param'' @ js ''('' @ json_quote p @ js '')'' @ t = call_text (js ''param'') p @ t" for t
    using plain_name_call [OF assms(1), of "js ''param''"] by (simp flip: append_assoc)
  have ct: "calm_depth d (call_text (js ''param'') p @ t) = calm_depth d t" for d t
    using func_chars [of "js ''param''"] plain_name_chars [OF assms(1)] by (intro calm_call_text) auto
  have tp: "tight (js ''param'')" by (simp add: tight_def js_Cons is_ws_def)
  show ?thesis
  proof (cases "md = MATCH_CONTAINS")
    case True
    then have v: "plain_value v" "js_trim v = v" using assms(2) by (auto simp: split_mode_def match_defs js_Cons plain_value_def)
    have h: "js '' != nil && has('' = js '' != nil && '' @ js ''has(''" by (simp add: js_Cons)
    define r where "r = js ''has('' @ (call_text (js ''param'') p @ js '', '' @ json_quote v) @ js '')''"
    have "tight r" unfolding r_def by (rule tight_append [OF tight_lits(3,4)])
    moreover have "calm_depth 0 r = Some 0" using quote_chars [OF v(1)] by (simp add: r_def ct calm_simps calm_plain_append)
    moreover have "tryParseRequestCondition r = Returns None" using parse_param_has [of p] by (simp add: r_def)
    ultimately show ?thesis
      using True v(2) match_distinct plain_nameD [OF assms(1)] source_distinct tight_trim unfolding b
      by (intro exI [of _ r]) (simp add: build_param_header_def Let_def src and_part_def r_def buildExprLiteral_def h)
  next
    case False
    then have v: "md \<in> {MATCH_GT, MATCH_GTE, MATCH_LT, MATCH_LTE}" "is_numeric_literal v" using assms(2) by (auto simp: split_mode_def)
    have rel: "param_op md \<in> {js ''>'', js ''>='', js ''<'', js ''<=''}" using v(1) by (auto simp: param_op_def match_defs js_Cons)
    have ex: "md \<noteq> MATCH_EXISTS" using v(1) by (auto simp: match_defs js_Cons)
    define r where "r = js ''param'' @ (open_name @ p @ close_name @ js '' '' @ param_op md @ js '' '') @ v"
    have r: "r = call_text (js ''param'') p @ js '' '' @ param_op md @ js '' '' @ v" by (simp add: r_def call_text_def)
    have "tight v" using numericD(1) [OF v(2)] num_text_chars [OF v(2)] by (simp add: tight_no_ws)
    then have "tight r" unfolding r_def by (rule tight_append [OF tp])
    moreover have "\<forall>x \<in> set (param_op md). \<not> markup x" using rel by (auto simp: js_Cons markup_def)
    then have "calm_depth 0 r = Some 0" using num_text_chars [OF v(2)] by (simp add: r ct calm_simps calm_plain_append calm_depth_plain)
    moreover have "tryParseRequestCondition r = Returns None"
      unfolding r using parse_param_rest [OF plain_nameD(1,2) [OF assms(1)] rel] by simp
    ultimately show ?thesis
      using v False ex plain_nameD [OF assms(1)] source_distinct tight_trim numeric_trim [OF v(2)] unfolding b
      by (intro exI [of _ r]) (simp add: build_param_header_def Let_def src and_part_def r)
  qed
qed



section \<open>Billing expression and rules, joined and separated\<close>

lemma unwrap_loop_done: "\<not> hasFullOuterParens (unwrap_loop s)"
proof (induction s rule: unwrap_loop.induct)
  case (1 s)
  then show ?case by (cases "hasFullOuterParens s") (simp_all add: unwrap_loop.simps [of s])
qed

lemma enclosed_full: "enclosed p \<Longrightarrow> hasFullOuterParens p"
  using enclosed_outer [of p] by (cases p) (auto simp: hasFullOuterParens_def js_Cons)

text \<open>An expression of tiers that can be taken for neither a rule nor an expression in parentheses.\<close>

definition base_expr :: "jstring \<Rightarrow> bool" where
  "base_expr b \<longleftrightarrow> b \<noteq> [] \<and> js_trim b = b \<and> paren_depth 0 b = Some 0 \<and> \<not> hasFullOuterParens b \<and> \<not> (\<exists>a. b = a @ js '' : 1'')"

lemma base_not_rule:
  assumes "base_expr b"
  shows "tryParseRequestRuleExpr (js ''('' @ b @ js '')'') = Returns None"
proof -
  define f where "f = js ''('' @ b @ js '')''"
  have en: "enclosed f" using assms by (auto simp: base_expr_def enclosed_def f_def js_Cons)
  have "f \<noteq> js ''('' @ e @ js '' ? '' @ m @ js '' : 1)''" for e m
  proof
    assume "f = js ''('' @ e @ js '' ? '' @ m @ js '' : 1)''"
    then have "b = (e @ js '' ? '' @ m) @ js '' : 1''" by (simp add: f_def js_Cons)
    then show False using assms by (auto simp: base_expr_def)
  qed
  then have "full_captures rule_factor f = {}" using rule_factor_captures [of _ f] by blast
  then have "tryParseRuleGroupFactor f = Returns None" by (simp add: tryParseRuleGroupFactor_def no_captures)
  then show ?thesis
    using enclosed_outer [OF en] splitTopLevelMultiply_join [of "[f]"] en unfolding f_def [symmetric]
    by (simp add: tryParseRequestRuleExpr_def)
qed

lemma factor_is_rule:
  assumes "editable_group g"
  shows "tryParseRequestRuleExpr (factor_text g) = Returns (Some [g])"
proof -
  note en = enclosed_factor [OF assms]
  show ?thesis
    using enclosed_outer [OF en] splitTopLevelMultiply_join [of "[factor_text g]"] en parse_factor [OF assms]
    by (simp add: tryParseRequestRuleExpr_def)
qed

lemma classify_factors:
  "list_all editable_group gs \<Longrightarrow> classify_parts (map factor_text gs) = Returns (map factor_text gs, [])"
  by (induction gs) (simp_all add: factor_is_rule)

lemma build_join:
  assumes "list_all editable_group gs"
  shows "buildRequestRuleExpr gs = js_join (js '' * '') (map factor_text gs)"
proof -
  have "map buildRuleGroupFactor gs = map factor_text gs" using assms build_factor by (auto simp: list_all_iff)
  moreover have "filter (\<lambda>e. e \<noteq> []) (map factor_text gs) = map factor_text gs"
    using assms enclosed_factor enclosed_outer by (fastforce simp: filter_id_conv list_all_iff)
  ultimately show ?thesis by (simp only: buildRequestRuleExpr_def)
qed

lemma combine_split:
  assumes "base_expr b" "list_all editable_group gs" "gs \<noteq> []"
  shows "splitBillingExprAndRequestRules (combineBillingExpr b (buildRequestRuleExpr gs)) = Returns (b, buildRequestRuleExpr gs)"
proof -
  define f where "f = js ''('' @ b @ js '')''"
  define ps where "ps = f # map factor_text gs"
  have en: "enclosed f" using assms(1) by (auto simp: base_expr_def enclosed_def f_def js_Cons)
  then have e: "list_all enclosed ps" using assms(2) enclosed_factor by (auto simp: ps_def list_all_iff)
  have r: "buildRequestRuleExpr gs = js_join (js '' * '') (map factor_text gs)" by (rule build_join [OF assms(2)])
  have "tight (buildRequestRuleExpr gs)"
    unfolding r using assms(2,3) enclosed_factor enclosed_tight by (intro tight_join) (auto simp: list_all_iff)
  note rt = tight_trim [OF this]
  have c: "combineBillingExpr b (buildRequestRuleExpr gs) = js_join (js '' * '') ps"
  proof -
    have "js '') * '' = js '')'' @ js '' * ''" by (simp add: js_Cons)
    moreover obtain x xs where "map factor_text gs = x # xs" using assms(3) by (cases gs) auto
    ultimately show ?thesis
      using assms(1) rt by (simp add: combineBillingExpr_def base_expr_def Let_def r ps_def f_def)
  qed
  have "tight (js_join (js '' * '') ps)" using e enclosed_tight by (intro tight_join) (auto simp: list_all_iff ps_def)
  note pt = tight_trim [OF this]
  have "length ps > 1" using assms(3) by (simp add: ps_def)
  moreover have "classify_parts ps = Returns (map factor_text gs, [f])"
    using base_not_rule [OF assms(1)] classify_factors [OF assms(2)] by (simp add: ps_def f_def)
  moreover have "unwrapOuterParens f = b"
  proof -
    have "inner_text f = b" using assms(1) by (simp add: inner_text_def f_def js_Cons base_expr_def)
    moreover have "unwrap_loop b = b" using assms(1) unwrap_loop.simps [of b] by (simp add: base_expr_def)
    ultimately show ?thesis
      using enclosed_full [OF en] enclosed_outer [OF en] unwrap_loop.simps [of f] by (simp add: unwrapOuterParens_def)
  qed
  ultimately show ?thesis
    unfolding c splitBillingExprAndRequestRules_def Let_def pt [THEN conjunct2]
    using splitTopLevelMultiply_join [OF e] pt assms(3) r by (simp add: ps_def)
qed

text \<open>
  The expression that is saved is taken apart again: from the base expression and the rules of the
  editor, joined by \<open>combineBillingExpr\<close>, \<open>splitBillingExprAndRequestRules\<close> gives back both.
\<close>

theorem combine_split_roundtrip:
  assumes "base_expr b" "list_all editable_group gs" "gs \<noteq> []"
  shows "splitBillingExprAndRequestRules (combineBillingExpr b (buildRequestRuleExpr gs)) = Returns (b, buildRequestRuleExpr gs)"
  by (rule combine_split [OF assms])

lemma sample_base_expr: "base_expr (js ''tier('' @ [34] @ js ''base'' @ [34] @ js '', p * 2 + c * 8)'')"
proof -
  have "js ''tier('' @ [34] @ js ''base'' @ [34] @ js '', p * 2 + c * 8)'' \<noteq> a @ js '' : 1''" for a
  proof
    assume "js ''tier('' @ [34] @ js ''base'' @ [34] @ js '', p * 2 + c * 8)'' = a @ js '' : 1''"
    from arg_cong [OF this, of last] show False by (simp add: js_Cons)
  qed
  then show ?thesis
    by (simp add: base_expr_def hasFullOuterParens_def) (simp add: js_Cons trim_defs is_ws_def)
qed

theorem combine_split_roundtrip_witness:
  "splitBillingExprAndRequestRules (combineBillingExpr (js ''tier('' @ [34] @ js ''base'' @ [34] @ js '', p * 2 + c * 8)'')
     (buildRequestRuleExpr sample_groups)) =
   Returns (js ''tier('' @ [34] @ js ''base'' @ [34] @ js '', p * 2 + c * 8)'', buildRequestRuleExpr sample_groups)"
  by (rule combine_split_roundtrip [OF sample_base_expr sample_groups_editable]) (simp add: sample_groups_def)

text \<open>Without rules the base expression is kept as it is.\<close>

lemma combine_no_rules: "combineBillingExpr b [] = js_trim b"
  by (simp add: combineBillingExpr_def Let_def)

section \<open>Exceptions\<close>

text \<open>A string literal with an escape that JSON does not know raises an exception instead of being refused.\<close>

lemma malformed_literal_raises:
  assumes "p \<noteq> []" "34 \<notin> set p" "literal_units b" "json_parse (34 # b @ [34]) = None"
  shows "tryParseRequestCondition (js ''has('' @ call_text (js ''header'') p @ js '', '' @ (34 # b @ [34]) @ js '')'') = Raises"
  using parse_has [of "js ''header''" p] header_has_match [OF assms(1,2,3)] assms(4) by (simp add: contains_condition_def)

lemma malformed_literal: "literal_units [92, 113]" "json_parse [34, 92, 113, 34] = None"
  using parse_value.simps(2) [of 9 "[34, 92, 113, 34]"]
  by (simp_all add: dot_def json_parse_def json_fuel_def skip_ws_def json_ws_def simple_escape_def)

end
