(* ===== verification/Currency.thy ===== *)
theory Currency
  imports JS_Number
begin

text \<open>
  The system configuration (\<open>stores/system-config-store.ts\<close>) and the formatting of amounts
  (\<open>lib/currency.ts\<close>).

  A stored currency configuration may lack fields, as a page can load one that an earlier version
  stored; \<open>None\<close> is an absent field.  \<open>Intl.NumberFormat\<close> depends on the tables of the browser and is
  an argument, a function of its options and of the number.  \<open>Math.pow(10, -d)\<close> is the double nearest
  to the power.
\<close>

section \<open>The configuration store\<close>

record CurrencyConfig =
  displayInCurrency :: bool
  quotaDisplayType :: jstring
  quotaPerUnit :: jsnum
  usdExchangeRate :: jsnum
  customCurrencySymbol :: jstring
  customCurrencyExchangeRate :: jsnum

record stored_currency =
  s_displayInCurrency :: "bool option"
  s_quotaDisplayType :: "jstring option"
  s_quotaPerUnit :: "jsnum option"
  s_usdExchangeRate :: "jsnum option"
  s_customCurrencySymbol :: "jstring option"
  s_customCurrencyExchangeRate :: "jsnum option"

definition DEFAULT_CURRENCY_CONFIG :: CurrencyConfig where
  "DEFAULT_CURRENCY_CONFIG = \<lparr>displayInCurrency = True, quotaDisplayType = js ''USD'', quotaPerUnit = num_int 500000,
     usdExchangeRate = num_int 1, customCurrencySymbol = [164], customCurrencyExchangeRate = num_int 1\<rparr>"

definition stored_default :: stored_currency where
  "stored_default = \<lparr>s_displayInCurrency = Some True, s_quotaDisplayType = Some (js ''USD''), s_quotaPerUnit = Some (num_int 500000),
     s_usdExchangeRate = Some (num_int 1), s_customCurrencySymbol = Some [164], s_customCurrencyExchangeRate = Some (num_int 1)\<rparr>"

definition or_else :: "'a option \<Rightarrow> 'a option \<Rightarrow> 'a option" where
  "or_else x y = (case x of Some v \<Rightarrow> Some v | None \<Rightarrow> y)"

text \<open>\<open>{...old, ...new}\<close>\<close>

definition merge_currency :: "stored_currency \<Rightarrow> stored_currency \<Rightarrow> stored_currency" where
  "merge_currency old new =
     \<lparr>s_displayInCurrency = or_else (s_displayInCurrency new) (s_displayInCurrency old),
      s_quotaDisplayType = or_else (s_quotaDisplayType new) (s_quotaDisplayType old),
      s_quotaPerUnit = or_else (s_quotaPerUnit new) (s_quotaPerUnit old),
      s_usdExchangeRate = or_else (s_usdExchangeRate new) (s_usdExchangeRate old),
      s_customCurrencySymbol = or_else (s_customCurrencySymbol new) (s_customCurrencySymbol old),
      s_customCurrencyExchangeRate = or_else (s_customCurrencyExchangeRate new) (s_customCurrencyExchangeRate old)\<rparr>"

record SystemConfig =
  systemName :: jstring
  logo :: jstring
  footerHtml :: "jstring option"
  demoSiteEnabled :: "bool option"
  displayTokenStatEnabled :: "bool option"
  currency :: "stored_currency option"

record partial_config =
  p_systemName :: "jstring option"
  p_logo :: "jstring option"
  p_footerHtml :: "jstring option"
  p_demoSiteEnabled :: "bool option"
  p_displayTokenStatEnabled :: "bool option"
  p_currency :: "stored_currency option"

record SystemConfigState =
  sys_config :: SystemConfig
  sys_loading :: bool
  loadedLogoUrl :: jstring

text \<open>The default name and logo are constants of another file.\<close>

definition initial_system_config :: "jstring \<Rightarrow> jstring \<Rightarrow> SystemConfigState" where
  "initial_system_config default_name default_logo =
     \<lparr>sys_config = \<lparr>systemName = default_name, logo = default_logo, footerHtml = None, demoSiteEnabled = None,
        displayTokenStatEnabled = None, currency = Some stored_default\<rparr>,
      sys_loading = True, loadedLogoUrl = default_logo\<rparr>"

definition no_currency :: stored_currency where
  "no_currency = \<lparr>s_displayInCurrency = None, s_quotaDisplayType = None, s_quotaPerUnit = None, s_usdExchangeRate = None,
     s_customCurrencySymbol = None, s_customCurrencyExchangeRate = None\<rparr>"

definition setConfig :: "partial_config \<Rightarrow> SystemConfigState \<Rightarrow> SystemConfigState" where
  "setConfig new s =
     (let old = sys_config s; cur = (\<lambda>c. case c of Some x \<Rightarrow> x | None \<Rightarrow> no_currency)
      in s\<lparr>sys_config :=
        \<lparr>systemName = (case p_systemName new of Some v \<Rightarrow> v | None \<Rightarrow> systemName old),
         logo = (case p_logo new of Some v \<Rightarrow> v | None \<Rightarrow> logo old),
         footerHtml = or_else (p_footerHtml new) (footerHtml old),
         demoSiteEnabled = or_else (p_demoSiteEnabled new) (demoSiteEnabled old),
         displayTokenStatEnabled = or_else (p_displayTokenStatEnabled new) (displayTokenStatEnabled old),
         currency = Some (merge_currency (cur (currency old)) (cur (p_currency new)))\<rparr>\<rparr>)"

definition setLoadedLogoUrl :: "jstring \<Rightarrow> SystemConfigState \<Rightarrow> SystemConfigState" where
  "setLoadedLogoUrl url s = s\<lparr>loadedLogoUrl := url\<rparr>"

definition setLoading :: "bool \<Rightarrow> SystemConfigState \<Rightarrow> SystemConfigState" where
  "setLoading b s = s\<lparr>sys_loading := b\<rparr>"

text \<open>What is persisted: everything but the loading flag.\<close>

definition partialize :: "SystemConfigState \<Rightarrow> SystemConfig \<times> jstring" where
  "partialize s = (sys_config s, loadedLogoUrl s)"

definition getSystemName :: "SystemConfigState \<Rightarrow> jstring" where "getSystemName s = systemName (sys_config s)"
definition getLogo :: "SystemConfigState \<Rightarrow> jstring" where "getLogo s = logo (sys_config s)"
definition getFooterHtml :: "SystemConfigState \<Rightarrow> jstring option" where "getFooterHtml s = footerHtml (sys_config s)"

section \<open>Display of amounts\<close>

datatype DisplayMeta =
  CurrencyMeta (meta_symbol: jstring) (currencyCode: jstring) (exchangeRate: jsnum)
| CustomMeta (meta_symbol: jstring) (exchangeRate: jsnum)
| TokensMeta (meta_quotaPerUnit: jsnum)

record CurrencyFormatOptions =
  o_digitsLarge :: "nat option"
  o_digitsSmall :: "nat option"
  o_abbreviate :: "bool option"
  o_minimumNonZero :: "jsnum option"
  o_compact :: "bool option"
  o_showSymbol :: "bool option"
  o_locale :: "jstring option"

record ResolvedCurrencyFormatOptions =
  digitsLarge :: nat
  digitsSmall :: nat
  abbreviate :: bool
  minimumNonZero :: jsnum
  compact :: bool
  showSymbol :: bool
  fmt_locale :: "jstring option"

definition DEFAULT_FORMAT_OPTIONS :: ResolvedCurrencyFormatOptions where
  "DEFAULT_FORMAT_OPTIONS = \<lparr>digitsLarge = 2, digitsSmall = 4, abbreviate = True, minimumNonZero = Num 0, compact = False,
     showSymbol = True, fmt_locale = None\<rparr>"

definition DISPLAY_TYPE_VALUES :: "jstring list" where
  "DISPLAY_TYPE_VALUES = [js ''USD'', js ''CNY'', js ''TOKENS'', js ''CUSTOM'']"

definition isCurrencyDisplayType :: "jsval \<Rightarrow> bool" where
  "isCurrencyDisplayType v = (case v of JStr s \<Rightarrow> s \<in> set DISPLAY_TYPE_VALUES | _ \<Rightarrow> False)"

definition parseCurrencyDisplayType :: "jsval \<Rightarrow> jstring \<Rightarrow> jstring" where
  "parseCurrencyDisplayType v fallback = (case v of JStr s \<Rightarrow> if s \<in> set DISPLAY_TYPE_VALUES then s else fallback | _ \<Rightarrow> fallback)"

text \<open>A positive number of the configuration, or the default.\<close>

definition positive_or :: "jsnum \<Rightarrow> jsnum option \<Rightarrow> jsnum" where
  "positive_or dflt x = (case x of Some v \<Rightarrow> if num_truthy v \<and> num_less (Num 0) v then v else dflt | None \<Rightarrow> dflt)"

definition getConfig :: "SystemConfigState \<Rightarrow> CurrencyConfig" where
  "getConfig s =
     (let cur = (case currency (sys_config s) of Some c \<Rightarrow> c | None \<Rightarrow> stored_default); d = DEFAULT_CURRENCY_CONFIG
      in \<lparr>displayInCurrency = (case s_displayInCurrency cur of Some b \<Rightarrow> b | None \<Rightarrow> displayInCurrency d),
          quotaDisplayType = (case s_quotaDisplayType cur of Some t \<Rightarrow> t | None \<Rightarrow> quotaDisplayType d),
          quotaPerUnit = positive_or (quotaPerUnit d) (s_quotaPerUnit cur),
          usdExchangeRate = positive_or (usdExchangeRate d) (s_usdExchangeRate cur),
          customCurrencySymbol = (case s_customCurrencySymbol cur of
             Some t \<Rightarrow> if js_trim t = [] then customCurrencySymbol d else js_trim t | None \<Rightarrow> customCurrencySymbol d),
          customCurrencyExchangeRate = positive_or (customCurrencyExchangeRate d) (s_customCurrencyExchangeRate cur)\<rparr>)"

definition getDisplayMeta :: "CurrencyConfig \<Rightarrow> DisplayMeta" where
  "getDisplayMeta config =
     (if quotaDisplayType config = js ''CNY'' then CurrencyMeta [165] (js ''CNY'') (usdExchangeRate config)
      else if quotaDisplayType config = js ''CUSTOM''
      then CustomMeta (customCurrencySymbol config) (customCurrencyExchangeRate config)
      else if quotaDisplayType config = js ''TOKENS'' then TokensMeta (quotaPerUnit config)
      else CurrencyMeta (js ''$'') (js ''USD'') (num_int 1))"

definition getBillingDisplayMeta :: "CurrencyConfig \<Rightarrow> DisplayMeta" where
  "getBillingDisplayMeta config = (case getDisplayMeta config of
     TokensMeta q \<Rightarrow> CurrencyMeta (js ''$'') (js ''USD'') (num_int 1) | m \<Rightarrow> m)"

definition default_to :: "'a \<Rightarrow> 'a option \<Rightarrow> 'a" where
  "default_to d x = (case x of Some v \<Rightarrow> v | None \<Rightarrow> d)"

definition mergeOptions :: "CurrencyFormatOptions option \<Rightarrow> ResolvedCurrencyFormatOptions" where
  "mergeOptions options = (case options of
     None \<Rightarrow> DEFAULT_FORMAT_OPTIONS
   | Some p \<Rightarrow> (let d = DEFAULT_FORMAT_OPTIONS
       in \<lparr>digitsLarge = default_to (digitsLarge d) (o_digitsLarge p), digitsSmall = default_to (digitsSmall d) (o_digitsSmall p),
           abbreviate = default_to (abbreviate d) (o_abbreviate p),
           minimumNonZero = default_to (minimumNonZero d) (o_minimumNonZero p),
           compact = default_to (compact d) (o_compact p), showSymbol = default_to (showSymbol d) (o_showSymbol p),
           fmt_locale = or_else (o_locale p) (fmt_locale d)\<rparr>))"

definition getFractionDigits :: "jsnum \<Rightarrow> nat \<Rightarrow> nat \<Rightarrow> nat" where
  "getFractionDigits v large small = (if num_le (num_int 1) (num_abs v) then large else small)"

definition getCurrencyFractionDigits :: "jsnum \<Rightarrow> CurrencyFormatOptions option \<Rightarrow> nat" where
  "getCurrencyFractionDigits v options =
     (let merged = mergeOptions options in getFractionDigits v (digitsLarge merged) (digitsSmall merged))"

text \<open>
  \<open>/(\.[0-9]*?)0+$/\<close> can only begin at the last point, if only digits follow it; it takes the zeros at
  the end.  \<open>/\.$/\<close> takes a point at the end.
\<close>

definition removeTrailingZeros :: "jstring \<Rightarrow> jstring" where
  "removeTrailingZeros s =
     (if 46 \<notin> set s then s
      else let fraction = rev (takeWhile is_digit (rev s)); front = rev (dropWhile is_digit (rev s))
           in if front \<noteq> [] \<and> last front = 46
              then (let kept = rev (dropWhile (\<lambda>c. c = 48) (rev fraction)) in if kept = [] then butlast front else front @ kept)
              else s)"

definition formatNumberWithSuffix :: "jsnum \<Rightarrow> nat \<Rightarrow> nat \<Rightarrow> bool \<Rightarrow> jstring" where
  "formatNumberWithSuffix v large small abbr =
     (if abbr \<and> num_le (num_int 1000) (num_abs v)
      then removeTrailingZeros (toFixed 1 (num_div v (num_int 1000))) @ js ''k''
      else removeTrailingZeros (toFixed (getFractionDigits v large small) v))"

definition adjustForMinimum :: "jsnum \<Rightarrow> nat \<Rightarrow> jsnum \<Rightarrow> jsnum" where
  "adjustForMinimum v digits minimum =
     (let threshold = (if num_less (Num 0) minimum then minimum else round_double (1 / 10 ^ digits))
      in if v = Num 0 then v
         else if num_less (Num 0) (num_abs v) \<and> num_less (num_abs v) threshold
         then (if num_less (Num 0) v then threshold else num_neg threshold)
         else v)"

text \<open>The options that are handed to \<open>Intl.NumberFormat\<close>.\<close>

record number_format =
  nf_locale :: "jstring option"
  nf_currency :: "jstring option"
  nf_compact :: bool
  nf_minimum :: "nat option"
  nf_maximum :: nat

type_synonym intl = "number_format \<Rightarrow> jsnum \<Rightarrow> jstring"

definition compact_format :: "jstring option \<Rightarrow> number_format" where
  "compact_format l = \<lparr>nf_locale = l, nf_currency = None, nf_compact = True, nf_minimum = None, nf_maximum = 1\<rparr>"

definition amount_format :: "ResolvedCurrencyFormatOptions \<Rightarrow> jstring option \<Rightarrow> nat \<Rightarrow> number_format" where
  "amount_format opts code digits = \<lparr>nf_locale = fmt_locale opts, nf_currency = code, nf_compact = compact opts, nf_minimum = Some 0,
     nf_maximum = (if compact opts then 1 else digits)\<rparr>"

definition formatCurrencyValue :: "intl \<Rightarrow> jsnum \<Rightarrow> ResolvedCurrencyFormatOptions \<Rightarrow> DisplayMeta \<Rightarrow> jstring" where
  "formatCurrencyValue intl v opts meta =
     (let digits = getFractionDigits v (digitsLarge opts) (digitsSmall opts);
          adjusted = adjustForMinimum v digits (minimumNonZero opts)
      in case meta of
           TokensMeta q \<Rightarrow>
             if compact opts then intl (compact_format (fmt_locale opts)) v
             else formatNumberWithSuffix v (digitsLarge opts) (digitsSmall opts) (abbreviate opts)
         | CurrencyMeta symb code rate \<Rightarrow>
             if \<not> showSymbol opts then intl (amount_format opts None digits) adjusted
             else intl (amount_format opts (Some code) digits) adjusted
         | CustomMeta symb rate \<Rightarrow>
             (let decimal = intl (amount_format opts None digits) adjusted
              in if showSymbol opts then symb @ js '' '' @ decimal else decimal))"

definition getCurrencyDisplay :: "SystemConfigState \<Rightarrow> CurrencyConfig \<times> DisplayMeta" where
  "getCurrencyDisplay s = (let config = getConfig s in (config, getDisplayMeta config))"

text \<open>An amount \<open>null\<close> or \<open>undefined\<close> is \<open>None\<close>.\<close>

definition formatCurrencyFromUSD :: "intl \<Rightarrow> SystemConfigState \<Rightarrow> jsnum option \<Rightarrow> CurrencyFormatOptions option \<Rightarrow> jstring" where
  "formatCurrencyFromUSD intl s amountUSD options = (case amountUSD of
     None \<Rightarrow> js ''-''
   | Some a \<Rightarrow>
       if a = NaN then js ''-''
       else (let (config, meta) = getCurrencyDisplay s; merged = mergeOptions options
             in case meta of
                  TokensMeta q \<Rightarrow>
                    (let tokens = num_mul a (quotaPerUnit config)
                     in if compact merged then intl (compact_format (fmt_locale merged)) tokens
                        else formatNumberWithSuffix tokens 0 (digitsSmall merged) (abbreviate merged))
                | _ \<Rightarrow> formatCurrencyValue intl (num_mul a (exchangeRate meta)) merged meta))"

definition formatBillingCurrencyFromUSD :: "intl \<Rightarrow> SystemConfigState \<Rightarrow> jsnum option \<Rightarrow> CurrencyFormatOptions option \<Rightarrow> jstring" where
  "formatBillingCurrencyFromUSD intl s amountUSD options = (case amountUSD of
     None \<Rightarrow> js ''-''
   | Some a \<Rightarrow>
       if a = NaN then js ''-''
       else (let meta = getBillingDisplayMeta (fst (getCurrencyDisplay s))
             in formatCurrencyValue intl (case meta of TokensMeta q \<Rightarrow> a | _ \<Rightarrow> num_mul a (exchangeRate meta)) (mergeOptions options) meta))"

definition formatQuotaWithCurrency :: "intl \<Rightarrow> SystemConfigState \<Rightarrow> jsnum option \<Rightarrow> CurrencyFormatOptions option \<Rightarrow> jstring" where
  "formatQuotaWithCurrency intl s quota options = (case quota of
     None \<Rightarrow> js ''-''
   | Some q \<Rightarrow>
       if q = NaN then js ''-''
       else formatCurrencyFromUSD intl s (Some (num_div q (quotaPerUnit (fst (getCurrencyDisplay s))))) options)"

definition getCurrencyLabel :: "SystemConfigState \<Rightarrow> jstring" where
  "getCurrencyLabel s =
     (let (config, meta) = getCurrencyDisplay s
      in case meta of
           TokensMeta q \<Rightarrow> js ''Tokens''
         | _ \<Rightarrow> if quotaDisplayType config = js ''CNY'' then js ''CNY''
                else if quotaDisplayType config = js ''CUSTOM''
                then (case meta of CustomMeta symb r \<Rightarrow> symb | _ \<Rightarrow> js ''Custom'')
                else js ''USD'')"

definition isCurrencyDisplayEnabled :: "SystemConfigState \<Rightarrow> bool" where
  "isCurrencyDisplayEnabled s = (case snd (getCurrencyDisplay s) of TokensMeta q \<Rightarrow> False | _ \<Rightarrow> True)"

definition formatLocalCurrencyAmount :: "intl \<Rightarrow> SystemConfigState \<Rightarrow> jsnum option \<Rightarrow> CurrencyFormatOptions option \<Rightarrow> jstring" where
  "formatLocalCurrencyAmount intl s amount options = (case amount of
     None \<Rightarrow> js ''-''
   | Some a \<Rightarrow>
       if a = NaN then js ''-''
       else formatCurrencyValue intl a (mergeOptions options) (getBillingDisplayMeta (fst (getCurrencyDisplay s))))"

section \<open>Lemmas\<close>

lemma positive_or_pos: "num_less (Num 0) d \<Longrightarrow> num_less (Num 0) (positive_or d x)"
  by (simp add: positive_or_def split: option.split)

lemma default_config [simp]:
  "quotaPerUnit DEFAULT_CURRENCY_CONFIG = num_int 500000" "usdExchangeRate DEFAULT_CURRENCY_CONFIG = num_int 1"
  "customCurrencyExchangeRate DEFAULT_CURRENCY_CONFIG = num_int 1" "customCurrencySymbol DEFAULT_CURRENCY_CONFIG = [164]"
  "quotaDisplayType DEFAULT_CURRENCY_CONFIG = js ''USD''" "displayInCurrency DEFAULT_CURRENCY_CONFIG"
  by (simp_all add: DEFAULT_CURRENCY_CONFIG_def)

lemma num_int_pos: "num_less (Num 0) (num_int i) \<longleftrightarrow> 0 < i"
  by (simp add: num_int_def)

text \<open>Whatever is stored, the rates in use are positive and the symbol is not blank.\<close>

lemma getConfig_positive:
  "num_less (Num 0) (quotaPerUnit (getConfig s))" "num_less (Num 0) (usdExchangeRate (getConfig s))"
  "num_less (Num 0) (customCurrencyExchangeRate (getConfig s))" "js_trim (customCurrencySymbol (getConfig s)) \<noteq> []"
  by (auto simp: getConfig_def Let_def num_int_pos intro!: positive_or_pos split: option.split)
    (auto simp: trim_defs is_ws_def)

lemma getDisplayMeta_positive:
  "(case getDisplayMeta (getConfig s) of TokensMeta q \<Rightarrow> num_less (Num 0) q | m \<Rightarrow> num_less (Num 0) (exchangeRate m))"
  using getConfig_positive [of s] by (simp add: getDisplayMeta_def num_int_pos)

text \<open>The administrator sets the display to dollars.\<close>

definition show_dollars :: partial_config where
  "show_dollars = \<lparr>p_systemName = None, p_logo = None, p_footerHtml = None, p_demoSiteEnabled = None, p_displayTokenStatEnabled = None,
     p_currency = Some (no_currency\<lparr>s_quotaDisplayType := Some (js ''USD'')\<rparr>)\<rparr>"

lemma getConfig_show_dollars: "getConfig (setConfig show_dollars s) = (getConfig s)\<lparr>quotaDisplayType := js ''USD''\<rparr>"
  by (cases "currency (sys_config s)")
    (simp_all add: getConfig_def setConfig_def Let_def show_dollars_def merge_currency_def no_currency_def stored_default_def
      or_else_def positive_or_def DEFAULT_CURRENCY_CONFIG_def num_truthy_def num_int_def trim_defs is_ws_def split: option.split)

lemma meta_dollars: "getDisplayMeta (c\<lparr>quotaDisplayType := js ''USD''\<rparr>) = CurrencyMeta (js ''$'') (js ''USD'') (num_int 1)"
  by (simp add: getDisplayMeta_def)

lemma getCurrencyDisplay_simps: "getCurrencyDisplay s = (getConfig s, getDisplayMeta (getConfig s))"
  by (simp add: getCurrencyDisplay_def Let_def)

text \<open>
  C39. Amounts of bills are never shown in tokens: they are formatted like balances, or, when
  balances are shown in tokens, as if the administrator had chosen dollars.
\<close>

theorem billing_never_tokens:
  "formatBillingCurrencyFromUSD intl s a options =
   formatCurrencyFromUSD intl (if isCurrencyDisplayEnabled s then s else setConfig show_dollars s) a options"
proof (cases "getDisplayMeta (getConfig s)")
  case (TokensMeta q)
  then show ?thesis
    by (simp add: formatBillingCurrencyFromUSD_def formatCurrencyFromUSD_def getCurrencyDisplay_simps isCurrencyDisplayEnabled_def
        getBillingDisplayMeta_def getConfig_show_dollars meta_dollars Let_def split: option.split)
qed (simp_all add: formatBillingCurrencyFromUSD_def formatCurrencyFromUSD_def getCurrencyDisplay_simps isCurrencyDisplayEnabled_def
    getBillingDisplayMeta_def Let_def split: option.split)

text \<open>A small amount is shown with the same sign, and not below the threshold.\<close>

lemma adjustForMinimum_shows:
  fixes v m :: jsnum and d :: nat
  assumes "v \<noteq> Num 0" "v \<noteq> NaN"
  defines "thr \<equiv> if num_less (Num 0) m then m else round_double (1 / 10 ^ d)"
  assumes "num_less (Num 0) thr"
  shows "num_sgn (adjustForMinimum v d m) = num_sgn v \<and> \<not> num_less (num_abs (adjustForMinimum v d m)) thr \<and>
    (\<not> num_less (num_abs v) thr \<longrightarrow> adjustForMinimum v d m = v)"
proof -
  have a: "num_less (Num 0) (num_abs v)" using assms(1,2) by (cases v) (auto simp: num_abs_def)
  have t: "num_sgn thr = 1" "num_abs thr = thr" "num_sgn (num_neg thr) = - 1" "num_abs (num_neg thr) = thr" "\<not> num_less thr thr"
    using assms(4) by (cases thr; simp add: num_sgn_def num_abs_def num_neg_def)+
  have s: "num_less (num_abs v) thr \<Longrightarrow> num_sgn v = (if num_less (Num 0) v then 1 else - 1)"
    using assms(1,2) by (cases v; cases thr) (auto simp: num_sgn_def num_abs_def)
  show ?thesis
    unfolding adjustForMinimum_def Let_def thr_def [symmetric] using a t s assms(1) by auto
qed

text \<open>Cutting the zeros at the end of a decimal does not change the number that is read.\<close>

lemma digits_val_zeros: "digits_val (ds @ replicate k 48) = digits_val ds * 10 ^ k"
proof (induction k)
  case (Suc k)
  have "digits_val (ds @ replicate (Suc k) 48) = digits_val ((ds @ replicate k 48) @ [48])" by (simp add: replicate_append_same)
  also have "\<dots> = 10 * digits_val (ds @ replicate k 48)" by (simp add: digits_val_def)
  finally show ?case using Suc by simp
qed simp

lemma digits_val_leading: "digits_val (replicate k 48 @ ds) = digits_val ds"
  by (induction k) (simp_all add: digits_val_def)

lemma decimal_value_point:
  assumes "ip \<noteq> []" "\<forall>c \<in> set ip. is_digit c" "\<forall>c \<in> set fs. is_digit c"
  shows "decimal_value (ip @ 46 # fs) = round_double (of_nat (digits_val (ip @ fs)) / 10 ^ length fs)"
    "decimal_value ip = round_double (of_nat (digits_val ip))"
proof -
  have i: "takeWhile is_digit (ip @ 46 # fs) = ip" "dropWhile is_digit (ip @ 46 # fs) = 46 # fs"
    "takeWhile is_digit ip = ip" "dropWhile is_digit ip = []" "takeWhile is_digit fs = fs" "dropWhile is_digit fs = []"
    using assms by (auto simp: takeWhile_append dropWhile_append takeWhile_eq_all_conv dropWhile_eq_Nil_conv is_digit_def)
  have n: "ip @ r \<noteq> js ''Infinity''" for r using assms(1,2) by (cases ip) (auto simp: js_Cons is_digit_def)
  show "decimal_value (ip @ 46 # fs) = round_double (of_nat (digits_val (ip @ fs)) / 10 ^ length fs)"
    using assms(1) n [of "46 # fs"] by (simp add: decimal_value_def span_digits_def i parse_exp_def pow10_def)
  show "decimal_value ip = round_double (of_nat (digits_val ip))"
    using assms(1) n [of "[]"] by (simp add: decimal_value_def span_digits_def i parse_exp_def pow10_def)
qed

text \<open>The parts before and after the point.\<close>

lemma fixed_digits_parts:
  assumes "0 < f"
  obtains ip fs where "fixed_digits f x = ip @ 46 # fs" "ip \<noteq> []" "length fs = f" "\<forall>c \<in> set (ip @ fs). is_digit c"
    "digits_val (ip @ fs) = nat \<lfloor>x * 10 ^ f + 1 / 2\<rfloor>"
proof -
  define n where "n = nat \<lfloor>x * 10 ^ f + 1 / 2\<rfloor>"
  define ds where "ds = replicate (Suc f - length (show_nat n)) 48 @ show_nat n"
  have l: "f < length ds" by (simp add: ds_def)
  have "fixed_digits f x = take (length ds - f) ds @ 46 # drop (length ds - f) ds"
    unfolding fixed_digits_def Let_def n_def [symmetric] ds_def [symmetric] using assms by simp
  moreover have "\<forall>c \<in> set ds. is_digit c" using show_nat_digits [of n] by (auto simp: ds_def is_digit_def)
  moreover have "digits_val ds = n" by (simp add: ds_def digits_val_leading)
  moreover have "ds \<noteq> []" using l by auto
  ultimately show ?thesis
    using l by (intro that [of "take (length ds - f) ds" "drop (length ds - f) ds"]) (simp_all add: n_def)
qed

lemma trailing_zeros: "\<exists>k. fs = rev (dropWhile (\<lambda>c. c = 48) (rev fs)) @ replicate k (48 :: nat)"
proof -
  have "rev fs = takeWhile (\<lambda>c. c = 48) (rev fs) @ dropWhile (\<lambda>c. c = 48) (rev fs)" by simp
  moreover have "takeWhile (\<lambda>c. c = 48) (rev fs) = replicate (length (takeWhile (\<lambda>c. c = 48) (rev fs))) 48"
    by (intro replicate_eqI) (auto dest: set_takeWhileD)
  ultimately show ?thesis by (metis rev_append rev_replicate rev_rev_ident)
qed

lemma removeTrailingZeros_parts:
  assumes "\<forall>c \<in> set fs. is_digit c"
  shows "removeTrailingZeros (ip @ 46 # fs) =
    (let kept = rev (dropWhile (\<lambda>c. c = 48) (rev fs)) in if kept = [] then ip else ip @ 46 # kept)"
proof -
  have "takeWhile is_digit (rev fs @ 46 # rev ip) = rev fs" "dropWhile is_digit (rev fs @ 46 # rev ip) = 46 # rev ip"
    using assms by (simp_all add: takeWhile_append dropWhile_append is_digit_def)
  then show ?thesis by (simp add: removeTrailingZeros_def Let_def)
qed

lemma removeTrailingZeros_value:
  assumes "ip \<noteq> []" "\<forall>c \<in> set (ip @ fs). is_digit c"
  shows "decimal_value (removeTrailingZeros (ip @ 46 # fs)) = decimal_value (ip @ 46 # fs)"
proof -
  define kept where "kept = rev (dropWhile (\<lambda>c. c = 48) (rev fs))"
  obtain k where k: "fs = kept @ replicate k 48" using trailing_zeros unfolding kept_def by blast
  have d: "\<forall>c \<in> set ip. is_digit c" "\<forall>c \<in> set fs. is_digit c" "\<forall>c \<in> set kept. is_digit c" using assms(2) k by auto
  have "digits_val (ip @ fs) = digits_val (ip @ kept) * 10 ^ k" unfolding k using digits_val_zeros [of "ip @ kept" k] by simp
  then have v: "of_nat (digits_val (ip @ fs)) / 10 ^ length fs = (of_nat (digits_val (ip @ kept)) / 10 ^ length kept :: rat)"
    by (simp add: k power_add)
  show ?thesis
  proof (cases "kept = []")
    case True
    then have "decimal_value (ip @ 46 # fs) = decimal_value ip"
      using v decimal_value_point [OF assms(1) d(1,2)] by simp
    then show ?thesis using True by (simp add: removeTrailingZeros_parts [OF d(2)] flip: kept_def)
  next
    case False
    have "decimal_value (ip @ 46 # fs) = decimal_value (ip @ 46 # kept)"
      unfolding decimal_value_point(1) [OF assms(1) d(1,2)] decimal_value_point(1) [OF assms(1) d(1,3)] v ..
    then show ?thesis using False by (simp add: removeTrailingZeros_parts [OF d(2)] flip: kept_def)
  qed
qed

lemma fixed_digits_value:
  assumes "0 \<le> x"
  shows "decimal_value (removeTrailingZeros (fixed_digits f x)) = round_double (of_int \<lfloor>x * 10 ^ f + 1 / 2\<rfloor> / 10 ^ f)"
proof (cases "f = 0")
  case True
  define n where "n = nat \<lfloor>x + 1 / 2\<rfloor>"
  have n: "of_nat n = (of_int \<lfloor>x + 1 / 2\<rfloor> :: rat)" using assms by (simp add: n_def)
  have d: "\<forall>c \<in> set (show_nat n). is_digit c" by (rule show_nat_digits)
  then have "46 \<notin> set (show_nat n)" by (auto simp: is_digit_def)
  then show ?thesis
    using True n decimal_value_point(2) [of "show_nat n" "[]"] d
    by (simp add: fixed_digits_def removeTrailingZeros_def Let_def flip: n_def)
next
  case False
  then obtain ip fs where p: "fixed_digits f x = ip @ 46 # fs" "ip \<noteq> []" "length fs = f" "\<forall>c \<in> set (ip @ fs). is_digit c"
    "digits_val (ip @ fs) = nat \<lfloor>x * 10 ^ f + 1 / 2\<rfloor>" using fixed_digits_parts [of f x] by blast
  have "0 \<le> \<lfloor>x * 10 ^ f + 1 / 2\<rfloor>" using assms by simp
  then show ?thesis
    unfolding p(1) removeTrailingZeros_value [OF p(2,4)] using decimal_value_point(1) [of ip fs] p by simp
qed


text \<open>A decimal numeral is read as a decimal.\<close>

definition decimal_text :: "jstring \<Rightarrow> bool" where
  "decimal_text s \<longleftrightarrow> s \<noteq> [] \<and> is_digit (hd s) \<and> (\<forall>c \<in> set s. is_digit c \<or> c = 46)"

lemma js_Number_decimal:
  assumes "decimal_text s"
  shows "js_Number s = decimal_value s" "js_Number (45 # s) = num_neg (decimal_value s)"
proof -
  have "\<not> is_ws 46" by (simp add: is_ws_def)
  then have w: "\<forall>c \<in> set s. \<not> is_ws c" using assms digit_no_ws by (auto simp: decimal_text_def)
  then have t: "js_trim s = s" "js_trim (45 # s) = 45 # s" by (auto intro!: js_trim_no_ws simp: is_ws_def [of 45])
  obtain c cs where s: "s = c # cs" using assms by (cases s) (auto simp: decimal_text_def)
  have "c \<noteq> 45" "c \<noteq> 43" using assms by (auto simp: decimal_text_def s is_digit_def)
  moreover have "cs \<noteq> [] \<Longrightarrow> hd cs \<notin> {120, 88, 111, 79, 98, 66}" using assms by (cases cs) (auto simp: decimal_text_def s is_digit_def)
  ultimately show "js_Number s = decimal_value s" using t(1) by (auto simp: js_Number_def s)
  show "js_Number (45 # s) = num_neg (decimal_value s)" using t(2) by (simp add: js_Number_def)
qed

lemma fixed_text: "decimal_text (removeTrailingZeros (fixed_digits f x))"
proof (cases "f = 0")
  case True
  obtain n where "fixed_digits f x = show_nat n" using True by (simp add: fixed_digits_def Let_def)
  moreover have "46 \<notin> set (show_nat n)" using show_nat_digits [of n] by (auto simp: is_digit_def)
  ultimately show ?thesis
    using show_nat_digits [of n] by (auto simp: removeTrailingZeros_def decimal_text_def)
next
  case False
  then obtain ip fs where p: "fixed_digits f x = ip @ 46 # fs" "ip \<noteq> []" "length fs = f" "\<forall>c \<in> set (ip @ fs). is_digit c"
    using fixed_digits_parts [of f x] by blast
  have "set (rev (dropWhile (\<lambda>c. c = 48) (rev fs))) \<subseteq> set fs" by (auto dest: set_dropWhileD)
  then show ?thesis
    using p by (auto simp: removeTrailingZeros_parts Let_def decimal_text_def)
qed

lemma removeTrailingZeros_sign: "removeTrailingZeros (45 # fixed_digits f x) = 45 # removeTrailingZeros (fixed_digits f x)"
proof (cases "f = 0")
  case True
  obtain n where "fixed_digits f x = show_nat n" using True by (simp add: fixed_digits_def Let_def)
  moreover have "46 \<notin> set (show_nat n)" using show_nat_digits [of n] by (auto simp: is_digit_def)
  ultimately show ?thesis by (simp add: removeTrailingZeros_def)
next
  case False
  then obtain ip fs where p: "fixed_digits f x = ip @ 46 # fs" "\<forall>c \<in> set (ip @ fs). is_digit c"
    using fixed_digits_parts [of f x] by blast
  then show ?thesis using removeTrailingZeros_parts [of fs ip] removeTrailingZeros_parts [of fs "45 # ip"] by (simp add: Let_def)
qed

text \<open>
  A number that is shown without suffix reads as the number rounded to the digits in use, halves
  away from zero; cutting the zeros at the end never changes it.
\<close>

theorem formatNumberWithSuffix_value:
  assumes "\<bar>q\<bar> < 10 ^ 21" "\<not> abbr \<or> \<bar>q\<bar> < 1000"
  shows "js_Number (formatNumberWithSuffix (Num q) large small abbr) =
    (let f = getFractionDigits (Num q) large small in round_double (sgn q * of_int \<lfloor>\<bar>q\<bar> * 10 ^ f + 1 / 2\<rfloor> / 10 ^ f))"
proof -
  define f where "f = getFractionDigits (Num q) large small"
  define v where "v = (of_int \<lfloor>\<bar>q\<bar> * 10 ^ f + 1 / 2\<rfloor> / 10 ^ f :: rat)"
  have s: "formatNumberWithSuffix (Num q) large small abbr = removeTrailingZeros (toFixed f (Num q))"
    using assms(2) by (auto simp: formatNumberWithSuffix_def f_def num_le_def num_abs_def num_int_def)
  show ?thesis
  proof (cases "q < 0")
    case True
    then have "js_Number (formatNumberWithSuffix (Num q) large small abbr) = num_neg (round_double v)"
      using assms(1) js_Number_decimal(2) [OF fixed_text] fixed_digits_value [of "- q" f]
      by (simp add: s toFixed_def removeTrailingZeros_sign v_def)
    also have "\<dots> = round_double (- v)" using round_double_minus [of v] by (simp add: num_neg_def split: jsnum.split)
    finally show ?thesis using True by (simp add: v_def flip: f_def)
  next
    case False
    then have "js_Number (formatNumberWithSuffix (Num q) large small abbr) = round_double v"
      using assms(1) js_Number_decimal(1) [OF fixed_text] fixed_digits_value [of q f] by (simp add: s toFixed_def v_def)
    moreover have "\<lfloor>1 / 2 :: rat\<rfloor> = 0" by (rule floor_unique) simp_all
    ultimately show ?thesis using False by (cases "q = 0") (simp_all add: v_def flip: f_def)
  qed
qed

theorem formatNumberWithSuffix_value_witness:
  "js_Number (formatNumberWithSuffix (Num (25 / 2)) 2 4 False) = round_double (25 / 2)"
proof -
  have "\<bar>25 / 2 :: rat\<bar> < 10 ^ 21" "\<not> False \<or> \<bar>25 / 2 :: rat\<bar> < 1000" by simp_all
  moreover have "\<lfloor>2501 / 2 :: rat\<rfloor> = 1250" by (rule floor_unique) simp_all
  ultimately show ?thesis using formatNumberWithSuffix_value [of "25 / 2" False 2 4]
    by (simp add: getFractionDigits_def num_le_def num_abs_def num_int_def)
qed

end
