(* ===== verification/JS_Collections.thy ===== *)
theory JS_Collections
  imports JS_Number "HOL-Library.Multiset"
begin

text \<open>
  Sorting and maps of the language.

  \<open>Array.prototype.sort\<close> is stable; for a comparison that is not consistent its order is left open by the
  language, and the model inserts one element after another.  A \<open>Map\<close> is an association list in the order
  in which the keys were first set.
\<close>

section \<open>Sorting\<close>

text \<open>A stable sort with a comparison whose result is a number; \<open>NaN\<close> counts as equal.\<close>

fun sort_insert :: "('a \<Rightarrow> 'a \<Rightarrow> jsnum) \<Rightarrow> 'a \<Rightarrow> 'a list \<Rightarrow> 'a list" where
  "sort_insert cmp x [] = [x]"
| "sort_insert cmp x (y # ys) = (if num_gt0 (cmp x y) then y # sort_insert cmp x ys else x # y # ys)"

definition js_sort :: "('a \<Rightarrow> 'a \<Rightarrow> jsnum) \<Rightarrow> 'a list \<Rightarrow> 'a list" where
  "js_sort cmp xs = foldr (sort_insert cmp) xs []"

lemma mset_sort_insert: "mset (sort_insert cmp x ys) = add_mset x (mset ys)"
  by (induction ys) auto

lemma mset_js_sort: "mset (js_sort cmp xs) = mset xs"
  by (induction xs) (simp_all add: js_sort_def mset_sort_insert)

lemma set_js_sort [simp]: "set (js_sort cmp xs) = set xs"
  by (rule mset_eq_setD [OF mset_js_sort])

lemma set_sort_insert: "set (sort_insert cmp x ys) = insert x (set ys)"
  by (induction ys) auto

text \<open>What the language asks of a comparison, on the elements that occur.\<close>

locale comparison_function =
  fixes cmp :: "'a \<Rightarrow> 'a \<Rightarrow> jsnum" and ok :: "'a \<Rightarrow> bool"
  assumes gt_asym: "ok x \<Longrightarrow> ok y \<Longrightarrow> num_gt0 (cmp x y) \<Longrightarrow> \<not> num_gt0 (cmp y x)"
    and le_trans: "ok x \<Longrightarrow> ok y \<Longrightarrow> ok z \<Longrightarrow> \<not> num_gt0 (cmp x y) \<Longrightarrow> \<not> num_gt0 (cmp y z) \<Longrightarrow> \<not> num_gt0 (cmp x z)"
begin

lemma sort_insert_sorted:
  assumes "sorted_wrt (\<lambda>a b. \<not> num_gt0 (cmp a b)) ys" "ok x" "\<forall>y \<in> set ys. ok y"
  shows "sorted_wrt (\<lambda>a b. \<not> num_gt0 (cmp a b)) (sort_insert cmp x ys)"
  using assms
proof (induction ys)
  case (Cons y ys)
  show ?case
  proof (cases "num_gt0 (cmp x y)")
    case True
    then have "\<not> num_gt0 (cmp y x)" using Cons.prems gt_asym by simp
    then show ?thesis using Cons True by (simp add: set_sort_insert)
  next
    case False
    have "\<not> num_gt0 (cmp x z)" if "z \<in> set ys" for z using le_trans [of x y z] Cons.prems False that by simp
    then show ?thesis using Cons.prems False by simp
  qed
qed simp

lemma js_sort_sorted: "\<forall>x \<in> set xs. ok x \<Longrightarrow> sorted_wrt (\<lambda>a b. \<not> num_gt0 (cmp a b)) (js_sort cmp xs)"
proof (induction xs)
  case (Cons x xs)
  have "js_sort cmp (x # xs) = sort_insert cmp x (js_sort cmp xs)" by (simp add: js_sort_def)
  moreover have "\<forall>y \<in> set (js_sort cmp xs). ok y" using Cons.prems by simp
  ultimately show ?case using Cons sort_insert_sorted by simp
qed (simp add: js_sort_def)

lemma sort_insert_stable:
  assumes "P x" "\<forall>y \<in> set ys. P y \<longrightarrow> \<not> num_gt0 (cmp x y)"
  shows "filter P (sort_insert cmp x ys) = x # filter P ys"
  using assms by (induction ys) auto

lemma sort_insert_other: "\<not> P x \<Longrightarrow> filter P (sort_insert cmp x ys) = filter P ys"
  by (induction ys) auto

text \<open>Elements that are equal for the comparison keep their order.\<close>

lemma js_sort_stable:
  assumes "\<forall>x \<in> set xs. ok x" "\<forall>x \<in> set xs. \<forall>y \<in> set xs. P x \<longrightarrow> P y \<longrightarrow> \<not> num_gt0 (cmp x y)"
  shows "filter P (js_sort cmp xs) = filter P xs"
  using assms
proof (induction xs)
  case (Cons x xs)
  have "js_sort cmp (x # xs) = sort_insert cmp x (js_sort cmp xs)" by (simp add: js_sort_def)
  moreover have ih: "filter P (js_sort cmp xs) = filter P xs"
    using Cons by simp
  moreover have "filter P (sort_insert cmp x (js_sort cmp xs)) = filter P (x # xs)"
  proof (cases "P x")
    case True
    have "filter P (sort_insert cmp x (js_sort cmp xs)) = x # filter P (js_sort cmp xs)"
    proof (rule sort_insert_stable)
      show "\<forall>y \<in> set (js_sort cmp xs). P y \<longrightarrow> \<not> num_gt0 (cmp x y)" using Cons.prems(2) True by simp
    qed (rule True)
    then show ?thesis using ih True by simp
  next
    case False
    then show ?thesis using ih sort_insert_other by simp
  qed
  ultimately show ?case by simp
qed (simp add: js_sort_def)

end

section \<open>Maps\<close>

text \<open>\<open>m.set(k, f(m.get(k)))\<close>\<close>

fun upsert :: "'k \<Rightarrow> ('v option \<Rightarrow> 'v) \<Rightarrow> ('k \<times> 'v) list \<Rightarrow> ('k \<times> 'v) list" where
  "upsert k f [] = [(k, f None)]"
| "upsert k f ((k', v) # m) = (if k' = k then (k, f (Some v)) # m else (k', v) # upsert k f m)"

lemma map_of_upsert: "map_of (upsert k f m) = (map_of m)(k \<mapsto> f (map_of m k))"
  by (induction k f m rule: upsert.induct) (auto simp: fun_eq_iff)

lemma keys_upsert: "map fst (upsert k f m) = (if k \<in> fst ` set m then map fst m else map fst m @ [k])"
  by (induction k f m rule: upsert.induct) auto

lemma distinct_upsert: "distinct (map fst m) \<Longrightarrow> distinct (map fst (upsert k f m))"
  by (simp add: keys_upsert)

lemma upsert_all:
  assumes "\<forall>(k', v) \<in> set m. P k' v" "\<forall>v. (k, v) \<in> set m \<longrightarrow> P k (f (Some v))" "P k (f None)"
  shows "\<forall>(k', v) \<in> set (upsert k f m). P k' v"
  using assms by (induction k f m rule: upsert.induct) auto

end
