(* ===== verification/Pricing.thy ===== *)
theory Pricing
  imports Currency JS_Regex JS_Collections
begin

text \<open>
  The prices of models (\<open>features/pricing/lib\<close>): groups and their ratios (\<open>model-helpers.ts\<close>), filters and
  sorting (\<open>filters.ts\<close>) and the prices that are shown (\<open>price.ts\<close>).

  Lower case and the comparison of names depend on the tables of Unicode and of the browser; they are
  arguments.  An absent field is \<open>None\<close>.
\<close>

section \<open>Models and constants\<close>

text \<open>A model, with the fields that these files read.\<close>

record PricingModel =
  model_name :: jstring
  model_description :: "jstring option"
  vendor_name :: "jstring option"
  quota_type :: jsnum
  model_ratio :: jsnum
  completion_ratio :: jsnum
  model_price :: "jsnum option"
  cache_ratio :: "jsnum option"
  create_cache_ratio :: "jsnum option"
  image_ratio :: "jsnum option"
  audio_ratio :: "jsnum option"
  audio_completion_ratio :: "jsnum option"
  enable_groups :: "jstring list option"
  model_tags :: "jstring option"
  supported_endpoint_types :: "jstring list option"
  group_ratio :: "(jstring \<times> jsnum) list option"
  billing_mode :: "jstring option"
  billing_expr :: "jstring option"

definition FILTER_ALL :: jstring where "FILTER_ALL = js ''all''"
definition EXCLUDED_GROUPS :: "jstring list" where "EXCLUDED_GROUPS = [[], js ''auto'']"
definition QUOTA_TYPE_TOKEN :: jsnum where "QUOTA_TYPE_TOKEN = num_int 0"
definition QUOTA_TYPE_REQUEST :: jsnum where "QUOTA_TYPE_REQUEST = num_int 1"
definition SORT_NAME :: jstring where "SORT_NAME = js ''name''"
definition SORT_PRICE_LOW :: jstring where "SORT_PRICE_LOW = js ''price-low''"
definition SORT_PRICE_HIGH :: jstring where "SORT_PRICE_HIGH = js ''price-high''"

datatype TokenUnit = PerMillion | PerThousand

definition TOKEN_UNIT_DIVISORS :: "TokenUnit \<Rightarrow> jsnum" where
  "TOKEN_UNIT_DIVISORS u = (case u of PerMillion \<Rightarrow> num_int 1 | PerThousand \<Rightarrow> num_int 1000)"

section \<open>Groups\<close>

definition groups_of :: "PricingModel \<Rightarrow> jstring list" where
  "groups_of model = (case enable_groups model of Some gs \<Rightarrow> gs | None \<Rightarrow> [])"

text \<open>\<open>usable\<close> are the keys of the object of usable groups.\<close>

definition getAvailableGroups :: "PricingModel \<Rightarrow> jstring list \<Rightarrow> jstring list" where
  "getAvailableGroups model usable = filter (\<lambda>g. g \<in> set (groups_of model)) (filter (\<lambda>g. g \<notin> set EXCLUDED_GROUPS) usable)"

definition getConfiguredGroupRatio :: "(jstring \<times> jsnum) list \<Rightarrow> jstring \<Rightarrow> jsnum" where
  "getConfiguredGroupRatio ratios g = (case map_of ratios g of Some r \<Rightarrow> if is_finite_num r then r else num_int 1 | None \<Rightarrow> num_int 1)"

text \<open>The loop over the groups, with the smallest ratio so far.\<close>

definition min_step :: "(jstring \<times> jsnum) list \<Rightarrow> jsnum \<Rightarrow> jstring \<Rightarrow> jsnum" where
  "min_step ratios minRatio g = (case map_of ratios g of
     Some r \<Rightarrow> if is_finite_num r \<and> num_less r minRatio then r else minRatio
   | None \<Rightarrow> minRatio)"

definition getDisplayGroupRatio :: "PricingModel \<Rightarrow> jstring option \<Rightarrow> jsnum" where
  "getDisplayGroupRatio model selectedGroup =
     (let groups = groups_of model; ratios = (case group_ratio model of Some r \<Rightarrow> r | None \<Rightarrow> []);
          minRatio = foldl (min_step ratios) PosInf groups;
          best = (if groups = [] then num_int 1 else if minRatio = PosInf then num_int 1 else minRatio)
      in case selectedGroup of
           Some g \<Rightarrow> if g \<noteq> [] \<and> g \<noteq> FILTER_ALL \<and> g \<in> set groups then getConfiguredGroupRatio ratios g else best
         | None \<Rightarrow> best)"

text \<open>
  \<open>path.replaceAll('{model}', name)\<close>: in the replacement, a dollar sign with another one, an ampersand
  or a quote stands for itself, the match, or the text around it.
\<close>

fun expand_replacement :: "jstring \<Rightarrow> jstring \<Rightarrow> jstring \<Rightarrow> jstring \<Rightarrow> jstring" where
  "expand_replacement found before after [] = []"
| "expand_replacement found before after [c] = [c]"
| "expand_replacement found before after (c # d # r) =
     (if c \<noteq> 36 then c # expand_replacement found before after (d # r)
      else if d = 36 then 36 # expand_replacement found before after r
      else if d = 38 then found @ expand_replacement found before after r
      else if d = 96 then before @ expand_replacement found before after r
      else if d = 39 then after @ expand_replacement found before after r
      else c # expand_replacement found before after (d # r))"

function replace_all :: "jstring \<Rightarrow> jstring \<Rightarrow> jstring \<Rightarrow> jstring \<Rightarrow> jstring" where
  "replace_all pat repl before [] = []"
| "replace_all pat repl before (c # cs) =
     (if pat \<noteq> [] \<and> js_starts_with (c # cs) pat
      then expand_replacement pat before (drop (length pat) (c # cs)) repl @
           replace_all pat repl (before @ pat) (drop (length pat) (c # cs))
      else c # replace_all pat repl (before @ [c]) cs)"
  by pat_completeness auto
termination by (relation "measure (\<lambda>(pat, repl, before, s). length s)") auto

definition replaceModelInPath :: "jstring \<Rightarrow> jstring \<Rightarrow> jstring" where
  "replaceModelInPath path modelName = replace_all (js ''{model}'') modelName [] path"

definition isTokenBasedModel :: "PricingModel \<Rightarrow> bool" where
  "isTokenBasedModel model \<longleftrightarrow> quota_type model = QUOTA_TYPE_TOKEN"

section \<open>Filters\<close>

definition search_hit :: "(jstring \<Rightarrow> jstring) \<Rightarrow> jstring \<Rightarrow> jstring option \<Rightarrow> bool" where
  "search_hit lower lowerQuery field = (case field of Some s \<Rightarrow> js_includes (lower s) lowerQuery | None \<Rightarrow> False)"

definition filterBySearch :: "(jstring \<Rightarrow> jstring) \<Rightarrow> PricingModel list \<Rightarrow> jstring \<Rightarrow> PricingModel list" where
  "filterBySearch lower models query =
     (if query = [] then models
      else filter (\<lambda>m. search_hit lower (lower query) (Some (model_name m)) \<or> search_hit lower (lower query) (model_description m) \<or>
             search_hit lower (lower query) (model_tags m) \<or> search_hit lower (lower query) (vendor_name m)) models)"

definition filterByVendor :: "PricingModel list \<Rightarrow> jstring \<Rightarrow> PricingModel list" where
  "filterByVendor models vendor = (if vendor = FILTER_ALL then models else filter (\<lambda>m. vendor_name m = Some vendor) models)"

definition filterByGroup :: "PricingModel list \<Rightarrow> jstring \<Rightarrow> PricingModel list" where
  "filterByGroup models g = (if g = FILTER_ALL then models else filter (\<lambda>m. g \<in> set (groups_of m)) models)"

definition filterByQuotaType :: "PricingModel list \<Rightarrow> jstring \<Rightarrow> PricingModel list" where
  "filterByQuotaType models quotaType =
     (if quotaType = js ''all'' then models
      else filter (\<lambda>m. quota_type m = (if quotaType = js ''token'' then QUOTA_TYPE_TOKEN else QUOTA_TYPE_REQUEST)) models)"

definition filterByEndpointType :: "PricingModel list \<Rightarrow> jstring \<Rightarrow> PricingModel list" where
  "filterByEndpointType models endpointType =
     (if endpointType = js ''all'' then models
      else filter (\<lambda>m. case supported_endpoint_types m of Some ts \<Rightarrow> endpointType \<in> set ts | None \<Rightarrow> False) models)"

definition getModelPrice :: "PricingModel \<Rightarrow> jsnum" where
  "getModelPrice model = (if quota_type model = num_int 0 then model_ratio model
     else case model_price model of Some p \<Rightarrow> if num_truthy p then p else Num 0 | None \<Rightarrow> Num 0)"

definition sortModels :: "(jstring \<Rightarrow> jstring \<Rightarrow> jsnum) \<Rightarrow> PricingModel list \<Rightarrow> jstring \<Rightarrow> PricingModel list" where
  "sortModels localeCompare models sortBy =
     (if sortBy = SORT_NAME then js_sort (\<lambda>a b. localeCompare (model_name a) (model_name b)) models
      else if sortBy = SORT_PRICE_LOW then js_sort (\<lambda>a b. num_sub (getModelPrice a) (getModelPrice b)) models
      else if sortBy = SORT_PRICE_HIGH then js_sort (\<lambda>a b. num_sub (getModelPrice b) (getModelPrice a)) models
      else models)"

text \<open>\<open>split(/[,;|\s]+/)\<close>, then trimmed, without empty parts: the runs between separators.\<close>

definition tag_separator :: "jchar \<Rightarrow> bool" where
  "tag_separator c \<longleftrightarrow> c = 44 \<or> c = 59 \<or> c = 124 \<or> is_ws c"

function split_tags :: "jstring \<Rightarrow> jstring list" where
  "split_tags s = (case dropWhile (\<lambda>c. \<not> tag_separator c) s of
     [] \<Rightarrow> [takeWhile (\<lambda>c. \<not> tag_separator c) s]
   | c # cs \<Rightarrow> takeWhile (\<lambda>c. \<not> tag_separator c) s # split_tags (dropWhile tag_separator cs))"
  by pat_completeness auto
termination
proof (relation "measure length")
  fix s c and cs :: jstring
  assume "dropWhile (\<lambda>c. \<not> tag_separator c) s = c # cs"
  then have "length (c # cs) \<le> length s" by (metis length_dropWhile_le)
  moreover have "length (dropWhile tag_separator cs) \<le> length cs" by (rule length_dropWhile_le)
  ultimately show "(dropWhile tag_separator cs, s) \<in> measure length" by simp
qed simp

declare split_tags.simps [simp del]

definition parseTags :: "jstring option \<Rightarrow> jstring list" where
  "parseTags tagsString = (case tagsString of None \<Rightarrow> []
     | Some s \<Rightarrow> if s = [] then [] else filter (\<lambda>t. t \<noteq> []) (map js_trim (split_tags s)))"

definition extractAllTags :: "(jstring \<Rightarrow> jstring) \<Rightarrow> (jstring \<Rightarrow> jstring \<Rightarrow> jsnum) \<Rightarrow> PricingModel list \<Rightarrow> jstring list" where
  "extractAllTags lower localeCompare models =
     js_sort localeCompare (rev (remdups (rev (concat (map (\<lambda>m. map lower (parseTags (model_tags m))) models)))))"

definition filterByTag :: "(jstring \<Rightarrow> jstring) \<Rightarrow> PricingModel list \<Rightarrow> jstring \<Rightarrow> PricingModel list" where
  "filterByTag lower models tag =
     (if tag = FILTER_ALL then models
      else filter (\<lambda>m. model_tags m \<noteq> None \<and> model_tags m \<noteq> Some [] \<and> lower tag \<in> set (map lower (parseTags (model_tags m)))) models)"

record pricing_filters =
  f_search :: jstring
  f_vendor :: jstring
  f_group :: jstring
  f_quotaType :: jstring
  f_endpointType :: jstring
  f_tag :: jstring
  f_sortBy :: jstring

definition filterAndSortModels ::
  "(jstring \<Rightarrow> jstring) \<Rightarrow> (jstring \<Rightarrow> jstring \<Rightarrow> jsnum) \<Rightarrow> PricingModel list \<Rightarrow> pricing_filters \<Rightarrow> PricingModel list" where
  "filterAndSortModels lower localeCompare models filters =
     (let result = filterBySearch lower models (f_search filters);
          result = filterByVendor result (f_vendor filters);
          result = filterByGroup result (f_group filters);
          result = filterByQuotaType result (f_quotaType filters);
          result = filterByEndpointType result (f_endpointType filters);
          result = filterByTag lower result (f_tag filters)
      in sortModels localeCompare result (f_sortBy filters))"

section \<open>Prices\<close>

text \<open>\<open>Number.parseFloat\<close>: the longest beginning that is a decimal literal.\<close>

definition float_prefix :: "jstring \<Rightarrow> jsnum" where
  "float_prefix s =
     (let (ip, r1) = span_digits s;
          (fs, r2) = (case r1 of [] \<Rightarrow> ([], r1) | c # cs \<Rightarrow> if c = 46 then span_digits cs else ([], r1));
          e = (case parse_exp r2 of Some (e, _) \<Rightarrow> e | None \<Rightarrow> 0)
      in if js_starts_with s (js ''Infinity'') then PosInf
         else if ip = [] \<and> fs = [] then NaN
         else round_double (of_int (int (digits_val (ip @ fs))) * pow10 (e - int (length fs))))"

definition parseFloat :: "jstring \<Rightarrow> jsnum" where
  "parseFloat s = (case trim_start s of
     [] \<Rightarrow> NaN
   | c # cs \<Rightarrow> if c = 45 then num_neg (float_prefix cs) else if c = 43 then float_prefix cs else float_prefix (c # cs))"

text \<open>\<open>/^([^\d-]*)([-\d,]+\.?\d*)(k?)$/\<close>\<close>

definition price_pattern :: "re list" where
  "price_pattern = [Cap 1 (Star (Cls (\<lambda>c. \<not> is_digit c \<and> c \<noteq> 45))),
     Cap 2 (seqs [re_plus (Cls (\<lambda>c. c = 45 \<or> is_digit c \<or> c = 44)), opt (lit (js ''.'')), Star (Cls is_digit)]),
     Cap 3 (opt (lit (js ''k'')))]"

text \<open>\<open>replace(/\.?0+$/, '')\<close> on a decimal: the zeros at the end, and a point before them.\<close>

definition strip_zero_end :: "jstring \<Rightarrow> jstring" where
  "strip_zero_end s =
     (let front = rev (dropWhile (\<lambda>c. c = 48) (rev s))
      in if front = s then s else if front \<noteq> [] \<and> last front = 46 then butlast front else front)"

definition stripTrailingZeros :: "jstring \<Rightarrow> jstring" where
  "stripTrailingZeros formatted = (case re_match (anchored price_pattern) formatted of
     None \<Rightarrow> formatted
   | Some m \<Rightarrow>
       (let part = (\<lambda>n. case m n of Some w \<Rightarrow> w | None \<Rightarrow> []);
            parsed = parseFloat (filter (\<lambda>c. c \<noteq> 44) (part 2));
            shown = num_to_string parsed;
            result = (if 101 \<in> set shown then strip_zero_end (toFixed 20 parsed) else shown)
        in if parsed = NaN then formatted else part 1 @ result @ part 3))"

datatype PriceType = InputPrice | OutputPrice | CachePrice | CreateCachePrice | ImagePrice | AudioInputPrice | AudioOutputPrice

definition hasRatio :: "jsnum option \<Rightarrow> bool" where
  "hasRatio v = (case v of Some x \<Rightarrow> is_finite_num x | None \<Rightarrow> False)"

definition times_ratio :: "jsnum \<Rightarrow> jsnum option \<Rightarrow> jsnum" where
  "times_ratio base r = (if hasRatio r then num_mul base (the r) else NaN)"

definition calculateTokenPrice :: "PricingModel \<Rightarrow> PriceType \<Rightarrow> jsnum \<Rightarrow> jsnum" where
  "calculateTokenPrice model ty ratio =
     (let base = num_mul (num_mul (model_ratio model) (num_int 2)) ratio
      in case ty of
           InputPrice \<Rightarrow> base
         | OutputPrice \<Rightarrow> num_mul base (completion_ratio model)
         | CachePrice \<Rightarrow> times_ratio base (cache_ratio model)
         | CreateCachePrice \<Rightarrow> times_ratio base (create_cache_ratio model)
         | ImagePrice \<Rightarrow> times_ratio base (image_ratio model)
         | AudioInputPrice \<Rightarrow> times_ratio base (audio_ratio model)
         | AudioOutputPrice \<Rightarrow> if hasRatio (audio_ratio model) \<and> hasRatio (audio_completion_ratio model)
             then num_mul (num_mul base (the (audio_ratio model))) (the (audio_completion_ratio model)) else NaN)"

definition applyRechargeRate :: "jsnum \<Rightarrow> bool \<Rightarrow> jsnum \<Rightarrow> jsnum \<Rightarrow> jsnum" where
  "applyRechargeRate price showWithRecharge priceRate exchange =
     (if \<not> showWithRecharge then price else num_div (num_mul price priceRate) exchange)"

record recharge =
  showWithRecharge :: bool
  priceRate :: jsnum
  rechargeExchange :: jsnum

definition recharged :: "recharge \<Rightarrow> jsnum \<Rightarrow> jsnum" where
  "recharged r price = applyRechargeRate price (showWithRecharge r) (priceRate r) (rechargeExchange r)"

definition price_options :: "nat \<Rightarrow> nat \<Rightarrow> CurrencyFormatOptions" where
  "price_options large small = \<lparr>o_digitsLarge = Some large, o_digitsSmall = Some small, o_abbreviate = Some False,
     o_minimumNonZero = None, o_compact = None, o_showSymbol = None, o_locale = None\<rparr>"

definition formatPrice :: "intl \<Rightarrow> SystemConfigState \<Rightarrow> PricingModel \<Rightarrow> PriceType \<Rightarrow> TokenUnit \<Rightarrow> recharge \<Rightarrow> jstring option \<Rightarrow> jstring" where
  "formatPrice intl s model ty tokenUnit r selectedGroup =
     (if quota_type model = QUOTA_TYPE_REQUEST then js ''-''
      else let priceInUSD = recharged r (calculateTokenPrice model ty (getDisplayGroupRatio model selectedGroup))
           in formatCurrencyFromUSD intl s (Some (num_div priceInUSD (TOKEN_UNIT_DIVISORS tokenUnit))) (Some (price_options 4 6)))"

definition formatGroupPrice ::
  "intl \<Rightarrow> SystemConfigState \<Rightarrow> PricingModel \<Rightarrow> jstring \<Rightarrow> PriceType \<Rightarrow> TokenUnit \<Rightarrow> recharge \<Rightarrow> (jstring \<times> jsnum) list \<Rightarrow> jstring" where
  "formatGroupPrice intl s model g ty tokenUnit r ratios =
     (if quota_type model = QUOTA_TYPE_REQUEST then js ''-''
      else let priceInUSD = recharged r (calculateTokenPrice model ty (getConfiguredGroupRatio ratios g))
           in formatCurrencyFromUSD intl s (Some (num_div priceInUSD (TOKEN_UNIT_DIVISORS tokenUnit))) (Some (price_options 4 6)))"

definition request_price :: "PricingModel \<Rightarrow> jsnum" where
  "request_price model = (case model_price model of Some p \<Rightarrow> if num_truthy p then p else Num 0 | None \<Rightarrow> Num 0)"

definition formatFixedPrice ::
  "intl \<Rightarrow> SystemConfigState \<Rightarrow> PricingModel \<Rightarrow> jstring \<Rightarrow> recharge \<Rightarrow> (jstring \<times> jsnum) list \<Rightarrow> jstring" where
  "formatFixedPrice intl s model g r ratios =
     (if quota_type model \<noteq> QUOTA_TYPE_REQUEST then js ''-''
      else formatCurrencyFromUSD intl s (Some (recharged r (num_mul (request_price model) (getConfiguredGroupRatio ratios g))))
        (Some (price_options 4 4)))"

definition formatRequestPrice :: "intl \<Rightarrow> SystemConfigState \<Rightarrow> PricingModel \<Rightarrow> recharge \<Rightarrow> jstring option \<Rightarrow> jstring" where
  "formatRequestPrice intl s model r selectedGroup =
     (if quota_type model \<noteq> QUOTA_TYPE_REQUEST then js ''-''
      else formatCurrencyFromUSD intl s (Some (recharged r (num_mul (request_price model) (getDisplayGroupRatio model selectedGroup))))
        (Some (price_options 4 4)))"

section \<open>The ratio of the best group\<close>

text \<open>The finite ratios that are configured for the groups of a model, and the smallest of them.\<close>

definition configured_ratios :: "PricingModel \<Rightarrow> rat list" where
  "configured_ratios model =
     List.map_filter (\<lambda>g. case map_of (case group_ratio model of Some r \<Rightarrow> r | None \<Rightarrow> []) g of Some (Num q) \<Rightarrow> Some q | _ \<Rightarrow> None)
       (groups_of model)"

definition best_ratio :: "PricingModel \<Rightarrow> jsnum" where
  "best_ratio model = (if configured_ratios model = [] then num_int 1 else Num (Min (set (configured_ratios model))))"

lemma min_step_fold:
  "foldl (min_step ratios) m gs = (let qs = List.map_filter (\<lambda>g. case map_of ratios g of Some (Num q) \<Rightarrow> Some q | _ \<Rightarrow> None) gs
     in if qs = [] then m else case m of PosInf \<Rightarrow> Num (Min (set qs)) | Num a \<Rightarrow> Num (Min (insert a (set qs))) | _ \<Rightarrow> m)"
proof (induction gs arbitrary: m)
  case (Cons g gs)
  show ?case
  proof (cases "\<exists>q. map_of ratios g = Some (Num q)")
    case True
    then obtain q where q: "map_of ratios g = Some (Num q)" by blast
    have "min_step ratios m g = (case m of PosInf \<Rightarrow> Num q | Num a \<Rightarrow> Num (min a q) | _ \<Rightarrow> m)"
      by (cases m) (auto simp: min_step_def q is_finite_num_def min_def)
    then show ?thesis
      using Cons by (cases m) (simp_all add: map_filter_simps q Let_def min.assoc)
  next
    case False
    then have "min_step ratios m g = m" by (auto simp: min_step_def is_finite_num_def split: option.split jsnum.split)
    moreover have "(case map_of ratios g of Some (Num q) \<Rightarrow> Some q | _ \<Rightarrow> None) = None"
      using False by (auto split: option.split jsnum.split)
    ultimately show ?thesis using Cons by (simp add: map_filter_simps)
  qed
qed (simp add: map_filter_simps)

text \<open>
  C38. A price is shown with the ratio of the selected group if the model has that group, and otherwise
  with the smallest finite ratio of its groups, or 1 if none is configured.
\<close>

theorem getDisplayGroupRatio_best:
  "getDisplayGroupRatio model selected =
    (case selected of
       Some g \<Rightarrow> if g \<noteq> [] \<and> g \<noteq> FILTER_ALL \<and> g \<in> set (groups_of model)
                then getConfiguredGroupRatio (case group_ratio model of Some r \<Rightarrow> r | None \<Rightarrow> []) g else best_ratio model
     | None \<Rightarrow> best_ratio model)"
proof -
  define ratios where "ratios = (case group_ratio model of Some r \<Rightarrow> r | None \<Rightarrow> [])"
  have e: "(if groups_of model = [] then num_int 1
      else if foldl (min_step ratios) PosInf (groups_of model) = PosInf then num_int 1
      else foldl (min_step ratios) PosInf (groups_of model)) = best_ratio model"
    by (simp add: min_step_fold best_ratio_def configured_ratios_def Let_def map_filter_simps flip: ratios_def)
  show ?thesis unfolding getDisplayGroupRatio_def Let_def ratios_def [symmetric] e ..
qed

section \<open>Sorting by price\<close>

text \<open>Every finite double is a multiple of the smallest one, \<open>2 ^ -1074\<close>.\<close>

definition finite_price :: "PricingModel \<Rightarrow> bool" where
  "finite_price m \<longleftrightarrow> (\<exists>k. getModelPrice m = Num (of_int k * pow2 (-1074)))"

lemma round_double_grid_pos:
  assumes "0 < k"
  shows "num_gt0 (round_double (of_int k * pow2 (-1074)))"
proof -
  define x where "x = of_int k * pow2 (-1074)"
  define u where "u = pow2 (max (floor_log2 x - 52) (-1074))"
  have "pow2 (-1074) * 1 \<le> pow2 (-1074) * of_int k" using assms by (intro mult_left_mono) (simp_all add: less_imp_le)
  then have x: "pow2 (-1074) \<le> x" "0 < x" using assms by (simp_all add: x_def mult.commute)
  have "u \<le> x"
  proof (cases "floor_log2 x - 52 \<le> -1074")
    case False
    then have "u = pow2 (floor_log2 x - 52)" by (simp add: u_def max_def)
    also have "\<dots> \<le> pow2 (floor_log2 x)" by (rule pow2_mono) simp
    finally show ?thesis using floor_log2_lower [OF x(2)] by linarith
  qed (use x in \<open>simp add: u_def max_def\<close>)
  moreover have "0 < u" by (simp add: u_def)
  ultimately have "1 \<le> x / u" by simp
  then have "1 / 2 \<le> (of_int (round_half_even (x / u)) :: rat)" using round_half_even_error [of "x / u"] by linarith
  then have "0 < of_int (round_half_even (x / u)) * u" using \<open>0 < u\<close> by (intro mult_pos_pos) linarith+
  moreover have "round_double x = (if pow2 1024 \<le> of_int (round_half_even (x / u)) * u then PosInf
      else Num (of_int (round_half_even (x / u)) * u))"
    using x(2) by (simp add: round_double_def Let_def u_def)
  ultimately show ?thesis unfolding x_def [symmetric] by (simp add: num_gt0_def)
qed

lemma num_sub_grid:
  "num_gt0 (num_sub (Num (of_int a * pow2 (-1074))) (Num (of_int b * pow2 (-1074)))) \<longleftrightarrow> b < a"
proof -
  have e: "num_sub (Num (of_int a * pow2 (-1074))) (Num (of_int b * pow2 (-1074))) = round_double (of_int (a - b) * pow2 (-1074))"
    by (simp add: num_sub_def num_neg_def left_diff_distrib)
  show ?thesis
  proof (cases a b rule: linorder_cases)
    case less
    have m: "round_double (of_int (a - b) * pow2 (-1074)) = num_neg (round_double (of_int (b - a) * pow2 (-1074)))"
      using round_double_minus [of "of_int (b - a) * pow2 (-1074)"] by (simp add: num_neg_def left_diff_distrib split: jsnum.split)
    have "num_gt0 (round_double (of_int (b - a) * pow2 (-1074)))" using less by (intro round_double_grid_pos) simp
    then have "\<not> num_gt0 (num_neg (round_double (of_int (b - a) * pow2 (-1074))))"
      by (cases "round_double (of_int (b - a) * pow2 (-1074))") (simp_all add: num_gt0_def num_neg_def)
    then show ?thesis unfolding e m using less by simp
  next
    case equal
    then show ?thesis unfolding e by (simp add: round_double_def num_gt0_def)
  next
    case greater
    then show ?thesis unfolding e using round_double_grid_pos [of "a - b"] by simp
  qed
qed

lemma finite_price_le:
  assumes "finite_price x" "finite_price y"
  shows "\<not> num_gt0 (num_sub (getModelPrice x) (getModelPrice y)) \<longleftrightarrow> num_le (getModelPrice x) (getModelPrice y)"
proof -
  obtain a b where p: "getModelPrice x = Num (of_int a * pow2 (-1074))" "getModelPrice y = Num (of_int b * pow2 (-1074))"
    using assms by (auto simp: finite_price_def)
  have "(of_int a * pow2 (-1074) \<le> of_int b * pow2 (-1074)) = (a \<le> b)"
    using mult_le_cancel_right_pos [of "pow2 (-1074)" "of_int a" "of_int b"] by simp
  then show ?thesis unfolding p num_sub_grid by (auto simp: num_le_def le_less)
qed

lemma num_le_trans: "num_le x y \<Longrightarrow> num_le y z \<Longrightarrow> num_le x z"
  by (cases x; cases y; cases z) (auto simp: num_le_def)

lemma num_le_antisym: "num_le x y \<Longrightarrow> num_le y x \<Longrightarrow> x = y"
  by (cases x; cases y) (auto simp: num_le_def)

lemma finite_price_total: "finite_price x \<Longrightarrow> finite_price y \<Longrightarrow> num_le (getModelPrice x) (getModelPrice y) \<or> num_le (getModelPrice y) (getModelPrice x)"
  by (auto simp: finite_price_def num_le_def)

interpretation price_low: comparison_function "\<lambda>a b. num_sub (getModelPrice a) (getModelPrice b)" finite_price
proof
  fix x y assume "finite_price x" "finite_price y" "num_gt0 (num_sub (getModelPrice x) (getModelPrice y))"
  then show "\<not> num_gt0 (num_sub (getModelPrice y) (getModelPrice x))" using finite_price_le finite_price_total by blast
next
  fix x y z
  assume "finite_price x" "finite_price y" "finite_price z" "\<not> num_gt0 (num_sub (getModelPrice x) (getModelPrice y))"
    "\<not> num_gt0 (num_sub (getModelPrice y) (getModelPrice z))"
  then show "\<not> num_gt0 (num_sub (getModelPrice x) (getModelPrice z))" using finite_price_le num_le_trans by blast
qed

interpretation price_high: comparison_function "\<lambda>a b. num_sub (getModelPrice b) (getModelPrice a)" finite_price
proof
  fix x y assume "finite_price x" "finite_price y" "num_gt0 (num_sub (getModelPrice y) (getModelPrice x))"
  then show "\<not> num_gt0 (num_sub (getModelPrice x) (getModelPrice y))" using price_low.gt_asym by blast
next
  fix x y z
  assume "finite_price x" "finite_price y" "finite_price z" "\<not> num_gt0 (num_sub (getModelPrice y) (getModelPrice x))"
    "\<not> num_gt0 (num_sub (getModelPrice z) (getModelPrice y))"
  then show "\<not> num_gt0 (num_sub (getModelPrice z) (getModelPrice x))" using price_low.le_trans by blast
qed

text \<open>What a model must satisfy to be listed.\<close>

definition listed :: "(jstring \<Rightarrow> jstring) \<Rightarrow> pricing_filters \<Rightarrow> PricingModel \<Rightarrow> bool" where
  "listed lower fs m \<longleftrightarrow>
     (f_search fs = [] \<or> search_hit lower (lower (f_search fs)) (Some (model_name m)) \<or> search_hit lower (lower (f_search fs)) (model_description m) \<or>
        search_hit lower (lower (f_search fs)) (model_tags m) \<or> search_hit lower (lower (f_search fs)) (vendor_name m)) \<and>
     (f_vendor fs = FILTER_ALL \<or> vendor_name m = Some (f_vendor fs)) \<and>
     (f_group fs = FILTER_ALL \<or> f_group fs \<in> set (groups_of m)) \<and>
     (f_quotaType fs = js ''all'' \<or> quota_type m = (if f_quotaType fs = js ''token'' then QUOTA_TYPE_TOKEN else QUOTA_TYPE_REQUEST)) \<and>
     (f_endpointType fs = js ''all'' \<or> (\<exists>ts. supported_endpoint_types m = Some ts \<and> f_endpointType fs \<in> set ts)) \<and>
     (f_tag fs = FILTER_ALL \<or> lower (f_tag fs) \<in> lower ` set (parseTags (model_tags m)))"

lemma filters_listed:
  "filterAndSortModels lower cmp models fs = sortModels cmp (filter (listed lower fs) models) (f_sortBy fs)"
proof -
  have t: "model_tags m \<noteq> None \<and> model_tags m \<noteq> Some [] \<and> lower tag \<in> set (map lower (parseTags (model_tags m))) \<longleftrightarrow>
      lower tag \<in> lower ` set (parseTags (model_tags m))" for m tag
    by (cases "model_tags m") (auto simp: parseTags_def)
  have c: "(if b then xs else filter p xs) = filter (\<lambda>x. b \<or> p x) xs" for b p and xs :: "PricingModel list" by simp
  have o: "(case supported_endpoint_types m of Some ts \<Rightarrow> e \<in> set ts | None \<Rightarrow> False) \<longleftrightarrow>
      (\<exists>ts. supported_endpoint_types m = Some ts \<and> e \<in> set ts)" for m e by (simp split: option.split)
  show ?thesis
    unfolding filterAndSortModels_def Let_def filterBySearch_def filterByVendor_def filterByGroup_def filterByQuotaType_def
      filterByEndpointType_def filterByTag_def t o c filter_filter listed_def
    by (intro arg_cong2 [of _ _ _ _ "sortModels cmp"] filter_cong refl)
qed

text \<open>
  C13. The list of prices holds exactly the models that satisfy every filter, each as often as given;
  sorted by price it is in the order of the prices, and models with the same price keep their order.
\<close>

theorem filterAndSortModels_correct:
  assumes "\<forall>m \<in> set models. finite_price m"
  shows "mset (filterAndSortModels lower cmp models fs) = filter_mset (listed lower fs) (mset models) \<and>
    (f_sortBy fs = SORT_PRICE_LOW \<longrightarrow>
       sorted_wrt (\<lambda>a b. num_le (getModelPrice a) (getModelPrice b)) (filterAndSortModels lower cmp models fs)) \<and>
    (f_sortBy fs = SORT_PRICE_HIGH \<longrightarrow>
       sorted_wrt (\<lambda>a b. num_le (getModelPrice b) (getModelPrice a)) (filterAndSortModels lower cmp models fs)) \<and>
    (f_sortBy fs \<noteq> SORT_NAME \<longrightarrow>
       (\<forall>p. filter (\<lambda>m. getModelPrice m = p) (filterAndSortModels lower cmp models fs) =
            filter (\<lambda>m. listed lower fs m \<and> getModelPrice m = p) models))"
proof -
  define xs where "xs = filter (listed lower fs) models"
  have ok: "\<forall>m \<in> set xs. finite_price m" using assms by (simp add: xs_def)
  have m: "mset (sortModels cmp xs by) = mset xs" for "by" by (simp add: sortModels_def mset_js_sort)
  have eq: "getModelPrice x = getModelPrice y \<Longrightarrow> finite_price x \<Longrightarrow> finite_price y \<Longrightarrow>
      \<not> num_gt0 (num_sub (getModelPrice x) (getModelPrice y))" for x y
    using finite_price_le finite_price_total by metis
  have l: "sorted_wrt (\<lambda>a b. num_le (getModelPrice a) (getModelPrice b)) (js_sort (\<lambda>a b. num_sub (getModelPrice a) (getModelPrice b)) xs)"
    using price_low.js_sort_sorted [OF ok] ok finite_price_le by (intro sorted_wrt_mono_rel [OF _ price_low.js_sort_sorted [OF ok]]) auto
  have h: "sorted_wrt (\<lambda>a b. num_le (getModelPrice b) (getModelPrice a)) (js_sort (\<lambda>a b. num_sub (getModelPrice b) (getModelPrice a)) xs)"
    using ok finite_price_le by (intro sorted_wrt_mono_rel [OF _ price_high.js_sort_sorted [OF ok]]) auto
  have s: "filter (\<lambda>m. getModelPrice m = p) (js_sort (\<lambda>a b. num_sub (getModelPrice a) (getModelPrice b)) xs) = filter (\<lambda>m. getModelPrice m = p) xs"
    "filter (\<lambda>m. getModelPrice m = p) (js_sort (\<lambda>a b. num_sub (getModelPrice b) (getModelPrice a)) xs) = filter (\<lambda>m. getModelPrice m = p) xs" for p
    using eq ok by (auto intro!: price_low.js_sort_stable price_high.js_sort_stable)
  have "SORT_PRICE_LOW \<noteq> SORT_NAME" "SORT_PRICE_HIGH \<noteq> SORT_NAME" "SORT_PRICE_HIGH \<noteq> SORT_PRICE_LOW"
    by (simp_all add: SORT_PRICE_LOW_def SORT_NAME_def SORT_PRICE_HIGH_def)
  then show ?thesis
    unfolding filters_listed xs_def [symmetric] m using l h s by (auto simp: sortModels_def xs_def conj_commute)
qed

lemma finite_price_int: "getModelPrice m = Num (of_int n) \<Longrightarrow> finite_price m"
proof -
  assume "getModelPrice m = Num (of_int n)"
  moreover have "(of_int n :: rat) = of_int (n * 2 ^ 1074) * pow2 (-1074)" by (simp add: pow2_def)
  ultimately show ?thesis unfolding finite_price_def by metis
qed

definition model_at :: "jstring \<Rightarrow> jsnum \<Rightarrow> PricingModel" where
  "model_at name ratio = \<lparr>model_name = name, model_description = None, vendor_name = None, quota_type = QUOTA_TYPE_TOKEN,
     model_ratio = ratio, completion_ratio = num_int 1, model_price = None, cache_ratio = None, create_cache_ratio = None,
     image_ratio = None, audio_ratio = None, audio_completion_ratio = None, enable_groups = None, model_tags = None,
     supported_endpoint_types = None, group_ratio = None, billing_mode = None, billing_expr = None\<rparr>"

definition no_filters :: "jstring \<Rightarrow> pricing_filters" where
  "no_filters by_price = \<lparr>f_search = [], f_vendor = FILTER_ALL, f_group = FILTER_ALL, f_quotaType = js ''all'',
     f_endpointType = js ''all'', f_tag = FILTER_ALL, f_sortBy = by_price\<rparr>"

theorem filterAndSortModels_correct_witness:
  "mset (filterAndSortModels id (\<lambda>_ _. Num 0) [model_at (js ''b'') (num_int 3), model_at (js ''a'') (num_int 2)] (no_filters SORT_PRICE_LOW)) =
     {#model_at (js ''b'') (num_int 3), model_at (js ''a'') (num_int 2)#} \<and>
   sorted_wrt (\<lambda>a b. num_le (getModelPrice a) (getModelPrice b))
     (filterAndSortModels id (\<lambda>_ _. Num 0) [model_at (js ''b'') (num_int 3), model_at (js ''a'') (num_int 2)] (no_filters SORT_PRICE_LOW))"
proof -
  have p: "getModelPrice (model_at n (num_int k)) = Num (of_int k)" for n k
    by (simp add: getModelPrice_def model_at_def QUOTA_TYPE_TOKEN_def num_int_def)
  have "\<forall>m \<in> set [model_at (js ''b'') (num_int 3), model_at (js ''a'') (num_int 2)]. finite_price m"
    using finite_price_int [OF p] by simp
  note filterAndSortModels_correct [OF this, of id "\<lambda>_ _. Num 0" "no_filters SORT_PRICE_LOW"]
  moreover have "listed id (no_filters SORT_PRICE_LOW) m" "f_sortBy (no_filters SORT_PRICE_LOW) = SORT_PRICE_LOW" for m
    by (simp_all add: listed_def no_filters_def)
  ultimately show ?thesis by simp
qed

end
