(* ===== verification/Dynamic_Price.thy ===== *)
theory Dynamic_Price
  imports Tier_Prices Billing_Rules Pricing
begin

text \<open>
  The prices of a model that is billed by an expression, as they are shown
  (\<open>features/pricing/lib/dynamic-price.ts\<close>), and the way of a price from the editor to the page: the
  editor prints tiers and rules, the two texts are joined and saved, and the page takes them apart again.

  The outer \<open>None\<close> stands for a reader that does not end; \<open>Raises\<close> for an exception of \<open>JSON.parse\<close>.
\<close>

section \<open>The page\<close>

record DynamicPriceOptions =
  dp_tokenUnit :: TokenUnit
  dp_showRechargePrice :: "bool option"
  dp_priceRate :: "jsnum option"
  dp_usdExchangeRate :: "jsnum option"
  dp_groupRatioMultiplier :: "jsnum option"

record DynamicPriceEntry =
  entry_key :: jstring
  entry_field :: jstring
  entry_label :: jstring
  entry_shortLabel :: jstring
  entry_value :: jsnum
  entry_formatted :: jstring
  entry_variable :: BillingVar

record DynamicPricingSummary =
  ds_tiers :: "ParsedTier list"
  ds_tier :: "ParsedTier option"
  ds_tierCount :: nat
  ds_hasRequestRules :: bool
  ds_isSpecialExpression :: bool
  ds_rawExpression :: jstring
  ds_entries :: "DynamicPriceEntry list"
  ds_primaryEntries :: "DynamicPriceEntry list"
  ds_secondaryEntries :: "DynamicPriceEntry list"

definition PRIMARY_DYNAMIC_FIELDS :: "jstring list" where
  "PRIMARY_DYNAMIC_FIELDS = [js ''inputPrice'', js ''outputPrice'']"

definition isDynamicPricingModel :: "PricingModel \<Rightarrow> bool" where
  "isDynamicPricingModel model \<longleftrightarrow> billing_mode model = Some (js ''tiered_expr'') \<and> billing_expr model \<notin> {None, Some []}"

definition getDynamicDisplayGroupRatio :: "PricingModel \<Rightarrow> jstring option \<Rightarrow> jsnum" where
  "getDynamicDisplayGroupRatio model selectedGroup = getDisplayGroupRatio model selectedGroup"

definition dynamic_applyRechargeRate :: "jsnum \<Rightarrow> bool \<Rightarrow> jsnum \<Rightarrow> jsnum \<Rightarrow> jsnum" where
  "dynamic_applyRechargeRate price with_recharge rate exchange =
     (if \<not> with_recharge then price else num_div (num_mul price rate) exchange)"

definition formatDynamicUnitPrice :: "intl \<Rightarrow> SystemConfigState \<Rightarrow> jsnum \<Rightarrow> DynamicPriceOptions \<Rightarrow> jstring" where
  "formatDynamicUnitPrice intl s valuePerMillionTokens options =
     (let groupRatio = default_to (num_int 1) (dp_groupRatioMultiplier options);
          rate = default_to (num_int 1) (dp_priceRate options);
          exchange = default_to (num_int 1) (dp_usdExchangeRate options);
          priceUSD = num_div (num_mul valuePerMillionTokens groupRatio) (TOKEN_UNIT_DIVISORS (dp_tokenUnit options));
          displayPrice = dynamic_applyRechargeRate priceUSD (default_to False (dp_showRechargePrice options)) rate exchange
      in formatBillingCurrencyFromUSD intl s (Some displayPrice) (Some (price_options 4 6)))"

text \<open>\<open>model.billing_expr || ''\<close>\<close>

definition raw_expression :: "PricingModel \<Rightarrow> jstring" where
  "raw_expression model = (case billing_expr model of Some e \<Rightarrow> e | None \<Rightarrow> [])"

definition getDynamicPricingTiers :: "PricingModel \<Rightarrow> ParsedTier list outcome option" where
  "getDynamicPricingTiers model =
     (if \<not> isDynamicPricingModel model then Some (Returns [])
      else case splitBillingExprAndRequestRules (raw_expression model) of
             Raises \<Rightarrow> Some Raises
           | Returns (billingExpr, _) \<Rightarrow> map_option Returns (parseTiersFromExpr billingExpr))"

definition hasDynamicRequestRules :: "PricingModel \<Rightarrow> bool outcome" where
  "hasDynamicRequestRules model =
     (if \<not> isDynamicPricingModel model then Returns False
      else case splitBillingExprAndRequestRules (raw_expression model) of
             Raises \<Rightarrow> Raises
           | Returns (_, requestRuleExpr) \<Rightarrow> (case tryParseRequestRuleExpr requestRuleExpr of
               Raises \<Rightarrow> Raises
             | Returns None \<Rightarrow> Returns False
             | Returns (Some gs) \<Rightarrow> Returns (gs \<noteq> [])))"

definition primary :: "DynamicPriceEntry \<Rightarrow> bool" where
  "primary e \<longleftrightarrow> entry_field e \<in> set PRIMARY_DYNAMIC_FIELDS"

definition primary_first :: "DynamicPriceEntry \<Rightarrow> DynamicPriceEntry \<Rightarrow> jsnum" where
  "primary_first a b = (if primary a \<noteq> primary b then (if primary a then num_int (-1) else num_int 1) else num_int 0)"

definition price_entry :: "intl \<Rightarrow> SystemConfigState \<Rightarrow> DynamicPriceOptions \<Rightarrow> ParsedTier \<Rightarrow> BillingVar \<Rightarrow> DynamicPriceEntry list" where
  "price_entry intl s options tier variable = (case var_field variable of
     None \<Rightarrow> []
   | Some field \<Rightarrow>
       (let v = (case map_of (tier_prices tier) field of Some x \<Rightarrow> x | None \<Rightarrow> NaN)
        in if field = [] \<or> \<not> is_finite_num v \<or> num_le v (Num 0) then []
           else [\<lparr>entry_key = var_key variable, entry_field = field, entry_label = var_label variable, entry_shortLabel = shortLabel variable,
                  entry_value = v, entry_formatted = formatDynamicUnitPrice intl s v options, entry_variable = variable\<rparr>]))"

definition getDynamicPriceEntries ::
  "intl \<Rightarrow> SystemConfigState \<Rightarrow> ParsedTier option \<Rightarrow> DynamicPriceOptions \<Rightarrow> DynamicPriceEntry list" where
  "getDynamicPriceEntries intl s tier options = (case tier of
     None \<Rightarrow> []
   | Some t \<Rightarrow> js_sort primary_first (concat (map (price_entry intl s options t) BILLING_PRICING_VARS)))"

definition summary_of :: "intl \<Rightarrow> SystemConfigState \<Rightarrow> PricingModel \<Rightarrow> DynamicPriceOptions \<Rightarrow> ParsedTier list \<Rightarrow> bool \<Rightarrow> DynamicPricingSummary" where
  "summary_of intl s model options ts has_rules =
     (let tier = (case ts of [] \<Rightarrow> None | t # _ \<Rightarrow> Some t); es = getDynamicPriceEntries intl s tier options
      in \<lparr>ds_tiers = ts, ds_tier = tier, ds_tierCount = length ts, ds_hasRequestRules = has_rules,
          ds_isSpecialExpression = (js_trim (raw_expression model) \<noteq> [] \<and> ts = []), ds_rawExpression = raw_expression model,
          ds_entries = es, ds_primaryEntries = filter primary es, ds_secondaryEntries = filter (\<lambda>e. \<not> primary e) es\<rparr>)"

definition getDynamicPricingSummary ::
  "intl \<Rightarrow> SystemConfigState \<Rightarrow> PricingModel \<Rightarrow> DynamicPriceOptions \<Rightarrow> DynamicPricingSummary option outcome option" where
  "getDynamicPricingSummary intl s model options =
     (if \<not> isDynamicPricingModel model then Some (Returns None)
      else case getDynamicPricingTiers model of
             None \<Rightarrow> None
           | Some Raises \<Rightarrow> Some Raises
           | Some (Returns ts) \<Rightarrow> Some (case hasDynamicRequestRules model of
               Raises \<Rightarrow> Raises
             | Returns has_rules \<Rightarrow> Returns (Some (summary_of intl s model options ts has_rules))))"

section \<open>The order of the entries\<close>

interpretation primary_order: comparison_function primary_first "\<lambda>_. True"
  by unfold_locales (auto simp: primary_first_def num_gt0_def num_int_def split: if_splits)

lemma sorted_split: "sorted_wrt (\<lambda>x y. P y \<longrightarrow> P x) xs \<Longrightarrow> xs = filter P xs @ filter (\<lambda>x. \<not> P x) xs"
proof (induction xs)
  case (Cons x xs)
  show ?case
  proof (cases "P x")
    case False
    then have "filter P xs = []" using Cons.prems by (auto simp: filter_empty_conv)
    then show ?thesis using Cons False by simp
  qed (use Cons in simp)
qed simp

text \<open>Sorting moves the primary prices to the front and changes nothing else.\<close>

lemma sort_primary: "js_sort primary_first es = filter primary es @ filter (\<lambda>e. \<not> primary e) es"
proof -
  have "sorted_wrt (\<lambda>x y. primary y \<longrightarrow> primary x) (js_sort primary_first es)"
    by (rule sorted_wrt_mono_rel [OF _ primary_order.js_sort_sorted]) (auto simp: primary_first_def num_gt0_def num_int_def split: if_splits)
  note sorted_split [OF this]
  moreover have "filter primary (js_sort primary_first es) = filter primary es"
    "filter (\<lambda>e. \<not> primary e) (js_sort primary_first es) = filter (\<lambda>e. \<not> primary e) es"
    by (rule primary_order.js_sort_stable; simp add: primary_first_def num_gt0_def num_int_def)+
  ultimately show ?thesis by simp
qed

section \<open>The generated expression as a base expression\<close>

text \<open>The depth of parentheses after a text, refusing a star outside of them.\<close>

fun star_depth :: "nat \<Rightarrow> jstring \<Rightarrow> nat option" where
  "star_depth d [] = Some d"
| "star_depth d (c # cs) =
     (if c = 40 then star_depth (Suc d) cs
      else if c = 41 then (case d of 0 \<Rightarrow> None | Suc e \<Rightarrow> star_depth e cs)
      else if c = 42 \<and> d = 0 then None
      else star_depth d cs)"

lemma star_depth_append: "star_depth d (a @ b) = Option.bind (star_depth d a) (\<lambda>e. star_depth e b)"
  by (induction d a rule: star_depth.induct) (auto split: nat.split)

lemma star_paren_depth: "star_depth d s = Some e \<Longrightarrow> paren_depth d s = Some e"
  by (induction d s rule: star_depth.induct) (auto split: nat.splits if_splits)

lemma star_depth_plain: "40 \<notin> set s \<Longrightarrow> 41 \<notin> set s \<Longrightarrow> 42 \<notin> set s \<or> 0 < d \<Longrightarrow> star_depth d s = Some d"
  by (induction s) auto

text \<open>Inside of parentheses, stars do not matter.\<close>

lemma star_depth_inside: "paren_depth d s = Some e \<Longrightarrow> star_depth (Suc d) s = Some (Suc e)"
  by (induction d s rule: paren_depth.induct) (auto split: nat.splits if_splits)

lemma split_top_star:
  "star_depth d s = Some e \<Longrightarrow> split_top (js '' * '') (int d) part s = [rev part @ s]"
proof (induction d s arbitrary: part rule: star_depth.induct)
  case (2 d c cs)
  have n: "\<not> js_starts_with (c # cs) (js '' * '')" if "d = 0" "c \<noteq> 40" "c \<noteq> 41"
    using 2(4) that by (cases cs) (auto simp: js_Cons split: if_splits)
  consider "c = 40" | "c = 41" | "c \<noteq> 40" "c \<noteq> 41" by blast
  then show ?case
  proof cases
    case 1
    then show ?thesis using 2(1) [of "c # part"] 2(4) by (simp add: Let_def js_Cons add.commute)
  next
    case 2
    then obtain f where "d = Suc f" "star_depth f cs = Some e" using \<open>star_depth d (c # cs) = Some e\<close> by (auto split: nat.splits)
    then show ?thesis using 2 "2.IH"(2) [of f "c # part"] by (simp add: Let_def js_Cons)
  next
    case 3
    then have "star_depth d cs = Some e" "\<not> (c = 42 \<and> d = 0)" using "2.prems"(1) by (auto split: if_splits)
    then have "split_top (js '' * '') (int d) (c # part) cs = [rev (c # part) @ cs]" using "2.IH"(3) [of "c # part"] 3 by simp
    then show ?thesis using 3 n by (auto simp: Let_def)
  qed
qed simp

lemma split_no_rules:
  assumes "b \<noteq> []" "js_trim b = b" "star_depth 0 b = Some e"
  shows "splitBillingExprAndRequestRules b = Returns (b, [])"
  using assms split_top_star [OF assms(3), of "[]"] by (simp add: splitBillingExprAndRequestRules_def splitTopLevelMultiply_def)

text \<open>The printed tiers: no star outside of parentheses, and no space at the ends.\<close>

lemma cond_printed_chars:
  assumes "cond_ok x"
  shows "40 \<notin> set (cond_printed x)" "41 \<notin> set (cond_printed x)" "42 \<notin> set (cond_printed x)"
proof -
  obtain v rel n where x: "x = (v, rel, n)" "v \<in> set COND_VARS" "rel \<in> set COND_OPS" "\<forall>c \<in> set n. bound_char c"
    using assms by (cases x) (auto simp: cond_ok_def bound_text_def)
  have "\<forall>v \<in> set (COND_VARS @ COND_OPS). 40 \<notin> set v \<and> 41 \<notin> set v \<and> 42 \<notin> set v" by (simp add: COND_VARS_def COND_OPS_def js_Cons)
  moreover have "\<not> bound_char 40" "\<not> bound_char 41" "\<not> bound_char 42" by (simp_all add: bound_char_def is_digit_def)
  ultimately show "40 \<notin> set (cond_printed x)" "41 \<notin> set (cond_printed x)" "42 \<notin> set (cond_printed x)"
    using x by (auto simp: cond_printed_def comparison_text_def js_Cons)
qed

lemma conds_printed_chars:
  assumes "tier_text_ok t"
  shows "star_depth 0 (conds_printed t) = Some 0"
proof -
  have "\<forall>x \<in> set (text_conds t). cond_ok x" using assms by (simp add: tier_text_ok_def list_all_iff)
  then have "40 \<notin> set (conds_printed t)" "41 \<notin> set (conds_printed t)" "42 \<notin> set (conds_printed t)"
    unfolding conds_printed_def using cond_printed_chars by (intro join_char; force simp: js_Cons)+
  then show ?thesis by (intro star_depth_plain) auto
qed

lemma body_no_paren:
  assumes "\<forall>f \<in> fst ` set tier_fields. price_readable (tier_cost t f)"
  shows "40 \<notin> set (buildTierBodyExpr t)"
proof -
  have "40 \<notin> set (price_printed x)" if "x \<in> set (body_prices t)" for x
  proof -
    have "price_ok x" using body_prices_ok [OF assms] that by (simp add: list_all_iff)
    obtain v n where x: "x = (v, n)" "v \<in> set PRICE_VARS" "\<forall>c \<in> set n. num_char c"
      using \<open>price_ok x\<close> by (cases x) (auto simp: price_ok_def)
    have "\<forall>v \<in> set PRICE_VARS. 40 \<notin> set v" by (simp add: PRICE_VARS_def js_Cons)
    moreover have "\<not> num_char 40" by (simp add: num_char_def is_digit_def)
    ultimately show ?thesis using x by (auto simp: price_printed_def js_Cons)
  qed
  then show ?thesis unfolding body_printed by (intro join_char) (auto simp: js_Cons)
qed

lemma tier_printed_shape:
  assumes "tier_shows t p" "paren_depth 0 (tier_label p) = Some 0"
  shows "star_depth 0 (tier_printed (text_of t p)) = Some 0" "tight (tier_printed (text_of t p))"
    "last (tier_printed (text_of t p)) = 41" "hd (tier_printed (text_of t p)) \<noteq> 40"
proof -
  define x where "x = text_of t p"
  have r: "\<forall>f \<in> fst ` set tier_fields. price_readable (tier_cost t f)" using assms(1) by (simp add: tier_shows_def)
  have "star_depth 1 (text_label x) = Some 1" using star_depth_inside [OF assms(2)] by (simp add: x_def text_of_def)
  moreover have "star_depth 1 (text_body x) = Some 1"
    using body_no_paren [OF r] body_text(3) [OF r] by (intro star_depth_plain) (simp_all add: x_def text_of_def)
  ultimately have c: "star_depth 0 (call_printed x) = Some 0" by (simp add: call_printed_def star_depth_append) (simp add: js_Cons star_depth_append)
  have ok: "tier_text_ok x" unfolding x_def by (rule text_of_ok [OF assms(1)])
  have "star_depth 0 (js '' ? '') = Some 0" by (simp add: js_Cons)
  then show "star_depth 0 (tier_printed (text_of t p)) = Some 0"
    using c conds_printed_chars [OF ok] by (simp add: tier_printed_def star_depth_append x_def)
  show l: "last (tier_printed (text_of t p)) = 41" by (simp add: tier_printed_def call_printed_def js_Cons)
  have "\<not> is_ws (hd (tier_printed x)) \<and> hd (tier_printed x) \<noteq> 40 \<and> tier_printed x \<noteq> []"
  proof (cases "text_conds x")
    case (Cons y ys)
    then have "cond_ok y" using ok by (simp add: tier_text_ok_def)
    then have "cond_printed y \<noteq> [] \<and> hd (cond_printed y) \<noteq> 40 \<and> \<not> is_ws (hd (cond_printed y))"
      by (auto simp: cond_ok_def cond_printed_def comparison_text_def COND_VARS_def js_Cons is_ws_def)
    then show ?thesis using Cons join_conds [of y ys] by (auto simp: tier_printed_def conds_printed_def)
  qed (simp add: tier_printed_def call_printed_def js_Cons is_ws_def)
  then show "tight (tier_printed (text_of t p))" "hd (tier_printed (text_of t p)) \<noteq> 40"
    using l by (simp_all add: tight_def x_def is_ws_def)
qed

lemma join_ends: "ws \<noteq> [] \<Longrightarrow> [] \<notin> set ws \<Longrightarrow> js_join sep ws \<noteq> [] \<and> hd (js_join sep ws) = hd (hd ws) \<and> last (js_join sep ws) = last (last ws)"
  by (induction ws rule: induct_list012) auto

lemma join_star: "star_depth 0 sep = Some 0 \<Longrightarrow> \<forall>w \<in> set ws. star_depth 0 w = Some 0 \<Longrightarrow> star_depth 0 (js_join sep ws) = Some 0"
  by (induction ws rule: induct_list012) (simp_all add: star_depth_append)

text \<open>A label with as many closing as opening parentheses does not disturb the split.\<close>

definition label_balanced :: "ParsedTier \<Rightarrow> bool" where
  "label_balanced p \<longleftrightarrow> paren_depth 0 (tier_label p) = Some 0"

lemma generated_base:
  assumes "list_all2 tier_shows ts ps" "list_all label_balanced ps" "ps \<noteq> []" "length ps = 1 \<or> tier_conditions (last ps) = []"
  shows "base_expr (generateExprFromVisualConfig (Some \<lparr>tiers = ts\<rparr>))"
    and "tier_conditions (last ps) = [] \<Longrightarrow> star_depth 0 (generateExprFromVisualConfig (Some \<lparr>tiers = ts\<rparr>)) = Some 0"
proof -
  define ws where "ws = map tier_printed (map2 text_of ts ps)"
  define j where "j = js_join (js '' : '') ws"
  define b where "b = j @ expr_suffix ps"
  have g: "generateExprFromVisualConfig (Some \<lparr>tiers = ts\<rparr>) = b"
    unfolding b_def j_def ws_def by (rule generated_text [OF assms(1,3,4)])
  have w: "\<forall>w \<in> set ws. star_depth 0 w = Some 0 \<and> tight w \<and> last w = 41 \<and> hd w \<noteq> 40"
    unfolding ws_def using assms(1,2)
    by (induction rule: list_all2_induct) (simp_all add: tier_printed_shape label_balanced_def)
  have ne: "ws \<noteq> []" "[] \<notin> set ws" using assms(1,3) w unfolding ws_def by (cases ts; cases ps; auto simp: tight_def)+
  have e: "j \<noteq> []" "hd j \<noteq> 40" "last j = 41" "\<not> is_ws (hd j)"
    using join_ends [OF ne, of "js '' : ''"] w ne by (simp_all add: j_def tight_def)
  have "star_depth 0 (js '' : '') = Some 0" by (simp add: js_Cons)
  then have s: "star_depth 0 j = Some 0" unfolding j_def using w by (intro join_star) simp_all
  have x: "paren_depth 0 (expr_suffix ps) = Some 0" by (simp add: expr_suffix_def js_Cons)
  have l: "last b = 41 \<or> last b = 48" using e(3) by (simp add: b_def expr_suffix_def js_Cons)
  have h: "b \<noteq> []" "hd b = hd j" using e(1) by (simp_all add: b_def)
  have "\<not> is_ws (last b)" using l by (elim disjE) (simp_all add: is_ws_def)
  then have "tight b" using e(4) h by (simp add: tight_def)
  moreover have "paren_depth 0 b = Some 0" using star_paren_depth [OF s] x by (simp add: b_def paren_depth_append)
  moreover have "\<not> hasFullOuterParens b" using e(2) h(2) by (cases b) (simp_all add: hasFullOuterParens_def js_Cons)
  moreover have "b \<noteq> a @ js '' : 1''" for a
  proof
    assume "b = a @ js '' : 1''"
    then have "last b = 49" by (simp add: js_Cons)
    then show False using l by simp
  qed
  ultimately show "base_expr (generateExprFromVisualConfig (Some \<lparr>tiers = ts\<rparr>))"
    unfolding g base_expr_def using tight_trim by blast
  assume "tier_conditions (last ps) = []"
  then have "expr_suffix ps = []" by (cases ps) (auto simp: expr_suffix_def)
  then show "star_depth 0 (generateExprFromVisualConfig (Some \<lparr>tiers = ts\<rparr>)) = Some 0" unfolding g using s by (simp add: b_def)
qed

section \<open>From the editor to the page\<close>

text \<open>The expression that is saved, from the tiers and the rules of the editor.\<close>

definition saved_expr :: "VisualTier list \<Rightarrow> RequestRuleGroup list \<Rightarrow> jstring" where
  "saved_expr ts gs = combineBillingExpr (generateExprFromVisualConfig (Some \<lparr>tiers = ts\<rparr>)) (buildRequestRuleExpr gs)"

text \<open>The condition of a tier that stands alone is printed with a product outside of parentheses, so there must be a rule to split at.\<close>

definition savable :: "VisualTier list \<Rightarrow> ParsedTier list \<Rightarrow> RequestRuleGroup list \<Rightarrow> bool" where
  "savable ts ps gs \<longleftrightarrow> list_all2 tier_shows ts ps \<and> list_all label_balanced ps \<and> ps \<noteq> [] \<and> list_all editable_group gs \<and>
     (tier_conditions (last ps) = [] \<or> length ps = 1 \<and> gs \<noteq> [])"

lemma savable_split:
  assumes "savable ts ps gs"
  shows "splitBillingExprAndRequestRules (saved_expr ts gs) =
    Returns (generateExprFromVisualConfig (Some \<lparr>tiers = ts\<rparr>), buildRequestRuleExpr gs)"
    and "saved_expr ts gs \<noteq> []"
proof -
  define b where "b = generateExprFromVisualConfig (Some \<lparr>tiers = ts\<rparr>)"
  have a: "list_all2 tier_shows ts ps" "list_all label_balanced ps" "ps \<noteq> []" "length ps = 1 \<or> tier_conditions (last ps) = []"
    "list_all editable_group gs" using assms by (auto simp: savable_def)
  have base: "base_expr b" unfolding b_def by (rule generated_base(1) [OF a(1-4)])
  have r: "splitBillingExprAndRequestRules (saved_expr ts gs) = Returns (b, buildRequestRuleExpr gs) \<and> saved_expr ts gs \<noteq> []"
  proof (cases "gs = []")
    case True
    then have "star_depth 0 b = Some 0" unfolding b_def using assms by (intro generated_base(2) [OF a(1-4)]) (auto simp: savable_def)
    moreover have "saved_expr ts gs = b" "buildRequestRuleExpr gs = []"
      using True base by (simp_all add: saved_expr_def combine_no_rules buildRequestRuleExpr_def base_expr_def b_def)
    ultimately show ?thesis using base split_no_rules by (auto simp: base_expr_def)
  next
    case False
    have "saved_expr ts gs = combineBillingExpr b (buildRequestRuleExpr gs)" by (simp add: saved_expr_def b_def)
    moreover have "combineBillingExpr b (buildRequestRuleExpr gs) \<noteq> []"
      using base by (simp add: combineBillingExpr_def base_expr_def Let_def js_Cons)
    ultimately show ?thesis using combine_split [OF base a(5) False] by simp
  qed
  then show "splitBillingExprAndRequestRules (saved_expr ts gs) = Returns (generateExprFromVisualConfig (Some \<lparr>tiers = ts\<rparr>), buildRequestRuleExpr gs)"
    "saved_expr ts gs \<noteq> []" by (simp_all add: b_def)
qed

text \<open>The entries of a tier are its positive prices, in the order of the variables.\<close>

lemma entries_split:
  "getDynamicPriceEntries intl s tier opts = filter primary (getDynamicPriceEntries intl s tier opts) @
     filter (\<lambda>e. \<not> primary e) (getDynamicPriceEntries intl s tier opts)"
  by (cases tier) (simp_all add: getDynamicPriceEntries_def sort_primary)

definition entry_price :: "DynamicPriceEntry \<Rightarrow> jstring \<times> jsnum" where
  "entry_price e = (entry_field e, entry_value e)"

definition positive_price :: "jstring \<times> jsnum \<Rightarrow> bool" where
  "positive_price x \<longleftrightarrow> is_finite_num (snd x) \<and> \<not> num_le (snd x) (Num 0)"

lemma price_entry_price:
  assumes "var_field v = Some f" "f \<noteq> []" "map_of (tier_prices p) f = Some x"
  shows "map entry_price (price_entry intl s opts p v) = filter positive_price [(f, x)]"
  using assms by (simp add: price_entry_def entry_price_def positive_price_def)

lemma shown_price_of:
  assumes "v \<in> set BILLING_PRICING_VARS"
  shows "\<exists>f. var_field v = Some f \<and> f \<noteq> [] \<and> map_of (shown_prices t) f = Some (tier_cost t (case tierField v of Some f \<Rightarrow> f | None \<Rightarrow> []))"
proof -
  have "\<forall>v \<in> set BILLING_PRICING_VARS. \<exists>f. var_field v = Some f \<and> f \<noteq> [] \<and>
      map_of (shown_prices t) f = Some (tier_cost t (case tierField v of Some f \<Rightarrow> f | None \<Rightarrow> []))"
    unfolding shown_prices_eq by (simp add: BILLING_PRICING_VARS_def BILLING_VARS_def price_var_def)
  then show ?thesis using assms by blast
qed

lemma concat_filter: "\<forall>x \<in> set xs. f x = filter P [g x] \<Longrightarrow> concat (map f xs) = filter P (map g xs)"
  by (induction xs) auto

lemma price_entries:
  assumes "tier_prices p = shown_prices t"
  shows "map entry_price (getDynamicPriceEntries intl s (Some p) opts) = filter positive_price (shown_prices t)"
proof -
  define es where "es = concat (map (price_entry intl s opts p) BILLING_PRICING_VARS)"
  define prim where "prim = (\<lambda>x :: jstring \<times> jsnum. fst x \<in> set PRIMARY_DYNAMIC_FIELDS)"
  define L where "L = shown_prices t"
  have "\<forall>v \<in> set BILLING_PRICING_VARS. map entry_price (price_entry intl s opts p v) = filter positive_price
      [(case var_field v of Some f \<Rightarrow> f | None \<Rightarrow> [], tier_cost t (case tierField v of Some f \<Rightarrow> f | None \<Rightarrow> []))]"
  proof
    fix v assume "v \<in> set BILLING_PRICING_VARS"
    from shown_price_of [OF this, of t] obtain f where f: "var_field v = Some f" "f \<noteq> []"
      "map_of (tier_prices p) f = Some (tier_cost t (case tierField v of Some f \<Rightarrow> f | None \<Rightarrow> []))" using assms by auto
    show "map entry_price (price_entry intl s opts p v) = filter positive_price
      [(case var_field v of Some f \<Rightarrow> f | None \<Rightarrow> [], tier_cost t (case tierField v of Some f \<Rightarrow> f | None \<Rightarrow> []))]"
      using price_entry_price [OF f] f(1) by simp
  qed
  then have m: "map entry_price es = filter positive_price L"
    unfolding es_def map_concat map_map comp_def L_def shown_prices_def by (rule concat_filter)
  have pr: "primary = (\<lambda>e. prim (entry_price e))" by (simp add: fun_eq_iff primary_def prim_def entry_price_def)
  have c: "map entry_price (filter primary es) = filter prim (map entry_price es)"
    "map entry_price (filter (\<lambda>e. \<not> primary e) es) = filter (\<lambda>x. \<not> prim x) (map entry_price es)"
    unfolding pr by (simp_all add: filter_map comp_def)
  have l: "filter prim L @ filter (\<lambda>x. \<not> prim x) L = L"
    unfolding L_def shown_prices_eq by (simp add: prim_def PRIMARY_DYNAMIC_FIELDS_def)
  have "filter prim (filter positive_price L) @ filter (\<lambda>x. \<not> prim x) (filter positive_price L) =
      filter positive_price (filter prim L @ filter (\<lambda>x. \<not> prim x) L)"
    by (simp add: conj_commute)
  then have "map entry_price (filter primary es @ filter (\<lambda>e. \<not> primary e) es) = filter positive_price L"
    unfolding map_append c m l .
  then show ?thesis unfolding getDynamicPriceEntries_def option.case sort_primary es_def L_def .
qed



end
