(* ===== verification/Format.thy ===== *)
theory Format
  imports Currency "HOL-Library.Word"
begin

unbundle bit_operations_syntax

text \<open>
  Formatting of numbers, quotas, times and colours (\<open>lib/format.ts\<close>).

  Quotas are stored in units and shown as an amount of the configured currency; forms convert in both
  directions, with a rounding at every step.  The main result is that the conversion to an amount and
  back gives the same number of units.  \<open>dayjs\<close>, the formatters of \<open>Intl\<close>, the parsing of dates and the
  clock are arguments.  The hash of a colour is computed in 32-bit words.
\<close>

section \<open>Numbers\<close>

definition plain_format :: "jstring option \<Rightarrow> number_format" where
  "plain_format l = \<lparr>nf_locale = l, nf_currency = None, nf_compact = False, nf_minimum = None, nf_maximum = 2\<rparr>"

definition formatNumber :: "intl \<Rightarrow> jstring option \<Rightarrow> jsnum option \<Rightarrow> jstring" where
  "formatNumber intl locales v = (case v of None \<Rightarrow> js ''-'' | Some x \<Rightarrow> if x = NaN then js ''-'' else intl (plain_format locales) x)"

definition formatCompactNumber :: "intl \<Rightarrow> jstring option \<Rightarrow> jsnum option \<Rightarrow> jstring" where
  "formatCompactNumber intl locales v = (case v of None \<Rightarrow> js ''-'' | Some x \<Rightarrow> if x = NaN then js ''-'' else intl (compact_format locales) x)"

text \<open>The formatter with the style \<open>percent\<close> is an argument of its own.\<close>

definition formatPercent :: "(jsnum \<Rightarrow> jstring) \<Rightarrow> jsnum option \<Rightarrow> jstring" where
  "formatPercent percent v = (case v of None \<Rightarrow> js ''-'' | Some x \<Rightarrow> if x = NaN then js ''-'' else percent (num_div x (num_int 100)))"

definition formatCurrencyUSD :: "intl \<Rightarrow> SystemConfigState \<Rightarrow> jsnum option \<Rightarrow> jstring" where
  "formatCurrencyUSD intl s v = formatCurrencyFromUSD intl s v None"

section \<open>Quotas\<close>

definition format_options :: "nat \<Rightarrow> nat \<Rightarrow> bool \<Rightarrow> CurrencyFormatOptions" where
  "format_options large small abbr = \<lparr>o_digitsLarge = Some large, o_digitsSmall = Some small, o_abbreviate = Some abbr,
     o_minimumNonZero = None, o_compact = None, o_showSymbol = None, o_locale = None\<rparr>"

definition formatQuota :: "intl \<Rightarrow> SystemConfigState \<Rightarrow> jsnum \<Rightarrow> jstring" where
  "formatQuota intl s quota = formatQuotaWithCurrency intl s (Some quota) (Some (format_options 2 4 True))"

definition formatLogQuota :: "intl \<Rightarrow> SystemConfigState \<Rightarrow> jsnum \<Rightarrow> jstring" where
  "formatLogQuota intl s quota = formatQuotaWithCurrency intl s (Some quota) (Some (format_options 4 6 False))"

definition parseQuotaFromDollars :: "SystemConfigState \<Rightarrow> jsnum \<Rightarrow> jsnum" where
  "parseQuotaFromDollars s amount =
     (if \<not> is_finite_num amount then Num 0
      else let (config, meta) = getCurrencyDisplay s
           in case meta of
                TokensMeta q \<Rightarrow> num_round amount
              | _ \<Rightarrow> (let usdAmount = (if num_less (Num 0) (exchangeRate meta) then num_div amount (exchangeRate meta) else amount)
                     in num_round (num_mul usdAmount (quotaPerUnit config))))"

definition quotaUnitsToDisplayAmount :: "jsnum \<Rightarrow> jsnum \<Rightarrow> DisplayMeta \<Rightarrow> jsnum" where
  "quotaUnitsToDisplayAmount units perUnit meta = (case meta of
     TokensMeta q \<Rightarrow> units
   | _ \<Rightarrow> num_mul (num_div units perUnit) (exchangeRate meta))"

definition quotaUnitsToDollars :: "SystemConfigState \<Rightarrow> jsnum \<Rightarrow> jsnum" where
  "quotaUnitsToDollars s units =
     (let (config, meta) = getCurrencyDisplay s in quotaUnitsToDisplayAmount units (quotaPerUnit config) meta)"

definition quotaUnitsToEditableAmount :: "SystemConfigState \<Rightarrow> jsnum \<Rightarrow> jsnum" where
  "quotaUnitsToEditableAmount s units =
     (let (config, meta) = getCurrencyDisplay s; amount = quotaUnitsToDisplayAmount units (quotaPerUnit config) meta
      in case meta of
           TokensMeta q \<Rightarrow> num_round amount
         | _ \<Rightarrow> js_Number (toFixed (getCurrencyFractionDigits amount None) amount))"

definition getEditableQuotaStep :: "SystemConfigState \<Rightarrow> jsnum" where
  "getEditableQuotaStep s = (case snd (getCurrencyDisplay s) of
     TokensMeta q \<Rightarrow> num_int 1 | _ \<Rightarrow> round_double (1 / 10 ^ getCurrencyFractionDigits (Num 0) None))"

section \<open>Times\<close>

text \<open>A time is a number of milliseconds; \<open>day_format\<close> is \<open>dayjs(ms).format(pattern)\<close>.\<close>

type_synonym day_format = "jsnum \<Rightarrow> jstring \<Rightarrow> jstring"

datatype time_unit = Seconds | Milliseconds

definition to_ms :: "time_unit \<Rightarrow> jsnum \<Rightarrow> jsnum" where
  "to_ms u t = (case u of Seconds \<Rightarrow> num_mul t (num_int 1000) | Milliseconds \<Rightarrow> t)"

text \<open>\<open>!timestamp || timestamp === -1 || timestamp === 0\<close>\<close>

definition no_time :: "jsnum option \<Rightarrow> bool" where
  "no_time timestamp = (case timestamp of None \<Rightarrow> True | Some t \<Rightarrow> \<not> num_truthy t \<or> t = num_int (-1) \<or> t = Num 0)"

definition formatTimestampToDate :: "day_format \<Rightarrow> jsnum option \<Rightarrow> time_unit \<Rightarrow> jstring" where
  "formatTimestampToDate fmt timestamp u =
     (if no_time timestamp then js ''-'' else fmt (to_ms u (the timestamp)) (js ''YYYY-MM-DD HH:mm:ss''))"

definition formatTimestamp :: "day_format \<Rightarrow> jsnum \<Rightarrow> jstring" where
  "formatTimestamp fmt timestamp =
     (if timestamp = num_int (-1) then js ''Never'' else formatTimestampToDate fmt (Some timestamp) Seconds)"

text \<open>The unit and the number that are handed to \<open>Intl.RelativeTimeFormat\<close>.\<close>

definition relative_time :: "jsnum \<Rightarrow> jsnum \<times> jstring" where
  "relative_time diffSeconds =
     (let absSeconds = num_abs diffSeconds; per = (\<lambda>n. num_round (num_div diffSeconds (num_int n)))
      in if num_less absSeconds (num_int 60) then (diffSeconds, js ''second'')
         else if num_less absSeconds (num_int 3600) then (per 60, js ''minute'')
         else if num_less absSeconds (num_int 86400) then (per 3600, js ''hour'')
         else if num_less absSeconds (num_int 2592000) then (per 86400, js ''day'')
         else if num_less absSeconds (num_int 31536000) then (per 2592000, js ''month'')
         else (per 31536000, js ''year''))"

definition formatTimestampRelative ::
  "(jstring option \<Rightarrow> jsnum \<Rightarrow> jstring \<Rightarrow> jstring) \<Rightarrow> jsnum \<Rightarrow> jsnum option \<Rightarrow> time_unit \<Rightarrow> jstring option \<Rightarrow> jstring" where
  "formatTimestampRelative relative now timestamp u locales =
     (if no_time timestamp then js ''-''
      else let diffSeconds = num_round (num_div (num_sub (to_ms u (the timestamp)) now) (num_int 1000));
               (n, name) = relative_time diffSeconds
           in relative locales n name)"

definition formatDateTimeStr :: "day_format \<Rightarrow> jsnum \<Rightarrow> jstring" where
  "formatDateTimeStr fmt date = fmt date (js ''YYYY-MM-DD HH:mm:ss'')"

definition formatDateStr :: "day_format \<Rightarrow> jsnum \<Rightarrow> jstring" where
  "formatDateStr fmt date = fmt date (js ''YYYY-MM-DD'')"

definition formatTimeStr :: "day_format \<Rightarrow> jsnum \<Rightarrow> jstring" where
  "formatTimeStr fmt date = fmt date (js ''HH:mm:ss'')"

definition formatTokens :: "jsnum \<Rightarrow> jstring" where
  "formatTokens tokens =
     (if tokens = Num 0 then js ''-''
      else if num_less tokens (num_int 1000) then num_to_string tokens
      else if num_less tokens (num_int 1000000) then toFixed 1 (num_div tokens (num_int 1000)) @ js ''K''
      else toFixed 2 (num_div tokens (num_int 1000000)) @ js ''M'')"

definition formatUseTime :: "jsnum \<Rightarrow> jstring" where
  "formatUseTime seconds =
     (if num_less seconds (num_int 60) then toFixed 1 seconds @ js ''s''
      else num_to_string (num_floor (num_div seconds (num_int 60))) @ js ''m '' @ toFixed 0 (num_mod seconds (num_int 60)) @ js ''s'')"

definition formatTimestampForInput :: "day_format \<Rightarrow> jsnum \<Rightarrow> jstring" where
  "formatTimestampForInput fmt timestamp =
     (if timestamp = num_int (-1) then [] else fmt (num_mul timestamp (num_int 1000)) (js ''YYYY-MM-DDTHH:mm''))"

text \<open>\<open>parse_date\<close> is \<open>new Date(value).getTime()\<close>.\<close>

definition parseTimestampFromInput :: "(jstring \<Rightarrow> jsnum) \<Rightarrow> jstring \<Rightarrow> jsnum" where
  "parseTimestampFromInput parse_date v =
     (if v = [] then num_int (-1) else num_floor (num_div (parse_date v) (num_int 1000)))"

section \<open>Colours\<close>

definition hash_step :: "32 word \<Rightarrow> jchar \<Rightarrow> 32 word" where
  "hash_step hash c = word_of_nat c + (push_bit 5 hash - hash)"

definition string_hash :: "jstring \<Rightarrow> 32 word" where
  "string_hash str = foldl hash_step 0 str"

text \<open>\<open>%\<close> has the sign of the dividend, so \<open>Math.abs(hash % 360)\<close> is \<open>\<bar>hash\<bar> mod 360\<close>; \<open>>>\<close> keeps the sign.\<close>

definition stringToColor :: "jstring \<Rightarrow> jstring" where
  "stringToColor str =
     (if str = [] then js ''gray''
      else let hash = sint (string_hash str); hue = \<bar>hash\<bar> mod 360;
               saturation = 65 + \<bar>hash\<bar> mod 10; lightness = 55 + \<bar>hash div 2 ^ 8\<bar> mod 10
           in js ''hsl('' @ show_int hue @ js '', '' @ show_int saturation @ js ''%, '' @ show_int lightness @ js ''%)'')"

section \<open>Units and amounts\<close>

text \<open>The numbers of the configuration are finite and neither extremely large nor extremely small.\<close>

definition moderate :: "jsnum \<Rightarrow> bool" where
  "moderate x = (case x of Num q \<Rightarrow> pow2 (-100) \<le> q \<and> q \<le> pow2 100 | _ \<Rightarrow> False)"

definition moderate_meta :: "DisplayMeta \<Rightarrow> bool" where
  "moderate_meta meta = (case meta of TokensMeta q \<Rightarrow> True | _ \<Rightarrow> moderate (exchangeRate meta))"

lemma moderateE:
  assumes "moderate x"
  obtains q where "x = Num q" "0 < q" "pow2 (-100) \<le> q" "q \<le> pow2 100"
  using assms pow2_pos [of "-100"] by (cases x) (auto simp: moderate_def less_le_trans)

lemma size_mul:
  assumes "pow2 a \<le> x" "x \<le> pow2 b" "pow2 c \<le> y" "y \<le> pow2 d"
  shows "pow2 (a + c) \<le> x * y" "x * y \<le> pow2 (b + d)"
proof -
  have "0 < x" "0 < y" using assms(1,3) pow2_pos [of a] pow2_pos [of c] by linarith+
  then show "pow2 (a + c) \<le> x * y" "x * y \<le> pow2 (b + d)"
    unfolding pow2_add using assms by (auto intro!: mult_mono simp: less_imp_le)
qed

lemma size_inverse: "pow2 a \<le> x \<Longrightarrow> x \<le> pow2 b \<Longrightarrow> pow2 (- b) \<le> 1 / x \<and> 1 / x \<le> pow2 (- a)"
proof -
  assume a: "pow2 a \<le> x" and b: "x \<le> pow2 b"
  have x: "0 < x" using a pow2_pos [of a] by linarith
  have "pow2 (- e) = 1 / pow2 e" for e
    using pow2_add [of "- e" e] pow2_pos [of e] by (auto simp: eq_divide_eq pow2_def [of 0] simp del: pow2_pos)
  then show ?thesis using a b x pow2_pos by (simp add: frac_le)
qed

lemma num_round_int: "num_round (num_int n) = num_int n"
proof -
  have "\<lfloor>(of_int n :: rat) + 1 / 2\<rfloor> = n" by (rule floor_unique) simp_all
  then show ?thesis by (simp add: num_round_def num_int_def)
qed

lemma amount_and_back:
  assumes "moderate (Num q)" "moderate (Num r)" "\<bar>n\<bar> < 2 ^ 48"
  obtains b where "num_mul (num_div (num_int n) (Num q)) (Num r) = Num b"
    "num_round (num_mul (num_div (Num b) (Num r)) (Num q)) = num_int n"
proof (cases "n = 0")
  case True
  have "q \<noteq> 0" "r \<noteq> 0" using assms(1,2) by (auto elim: moderateE)
  then show ?thesis
    using True by (intro that [of 0]) (simp_all add: num_int_def round_double_def num_round_int [of 0, unfolded num_int_def, simplified])
next
  case False
  have q: "pow2 (-100) \<le> q" "q \<le> pow2 100" "0 < q" and r: "pow2 (-100) \<le> r" "r \<le> pow2 100" "0 < r"
    using assms(1,2) by (auto elim: moderateE)
  define x :: rat where "x = of_int n"
  have "1 \<le> \<bar>n\<bar>" using False by linarith
  then have "(1 :: rat) \<le> of_int \<bar>n\<bar>" "of_int \<bar>n\<bar> \<le> (of_int (2 ^ 48) :: rat)"
    using assms(3) by (simp_all only: of_int_1_le_iff of_int_le_iff less_imp_le)
  then have x: "pow2 0 \<le> \<bar>x\<bar>" "\<bar>x\<bar> \<le> pow2 48" by (simp_all add: x_def pow2_def)
  note iq = size_inverse [OF q(1,2)]
  have s1: "pow2 (-100) \<le> \<bar>x / q\<bar>" "\<bar>x / q\<bar> \<le> pow2 148"
    using size_mul [OF x, of "-100" "1 / q" 100] iq q(3) by (simp_all add: abs_mult)
  have s2: "pow2 (-200) \<le> \<bar>x / q * r\<bar>" "\<bar>x / q * r\<bar> \<le> pow2 248"
    using size_mul [OF s1 r(1,2)] r(3) by (simp_all add: abs_mult)
  have big: "pow2 (-1000) \<le> pow2 e \<and> pow2 f \<le> pow2 999" if "-1000 \<le> e" "f \<le> 999" for e f
    using that pow2_mono by simp
  obtain a where a: "num_div (Num x) (Num q) = Num a" "near 1 (x / q) a"
    using num_div_near [OF near_refl [of x], of q] s1 q(3) big [of "-100" 148] by (auto intro: order_trans)
  obtain b where b: "num_mul (Num a) (Num r) = Num b" "near 2 (x / q * r) b"
    using num_mul_near [OF a(2), of r] s2 big [of "-200" 248] by (auto intro: order_trans simp: numeral_2_eq_2)
  obtain c where c: "num_div (Num b) (Num r) = Num c" "near 3 (x / q) c"
    using num_div_near [OF b(2), of r] s1 r(3) big [of "-100" 148] by (auto intro: order_trans simp: numeral_3_eq_3)
  obtain d where d: "num_mul (Num c) (Num q) = Num d" "near 4 x d"
    using num_mul_near [OF c(2), of q] x q(3) big [of 0 48] by (auto intro: order_trans)
  have "num_round (Num d) = num_int n" by (rule num_round_near [OF d(2) [unfolded x_def] _ assms(3)]) simp
  then show ?thesis
    using a(1) b(1) c(1) d(1) by (intro that [of b]) (simp_all add: num_int_def x_def)
qed

lemma quota_amount:
  assumes "moderate (quotaPerUnit (getConfig s))" "moderate_meta (getDisplayMeta (getConfig s))" "\<bar>n\<bar> < 2 ^ 48"
  obtains b where "quotaUnitsToDollars s (num_int n) = Num b" "parseQuotaFromDollars s (Num b) = num_int n"
proof (cases "getDisplayMeta (getConfig s)")
  case (TokensMeta q)
  then show ?thesis
    using num_round_int [of n] by (intro that [of "of_int n"])
      (simp_all add: parseQuotaFromDollars_def quotaUnitsToDollars_def quotaUnitsToDisplayAmount_def getCurrencyDisplay_simps
        num_int_def is_finite_num_def)
next
  case (CurrencyMeta symb code rate)
  obtain q r where qr: "quotaPerUnit (getConfig s) = Num q" "rate = Num r" "0 < r"
    using assms(1,2) CurrencyMeta by (auto simp: moderate_meta_def elim!: moderateE)
  obtain b where "num_mul (num_div (num_int n) (Num q)) (Num r) = Num b"
    "num_round (num_mul (num_div (Num b) (Num r)) (Num q)) = num_int n"
    using amount_and_back [of q r n] assms qr CurrencyMeta by (auto simp: moderate_meta_def)
  then show ?thesis
    using qr CurrencyMeta by (intro that [of b]) (simp_all add: parseQuotaFromDollars_def quotaUnitsToDollars_def
        quotaUnitsToDisplayAmount_def getCurrencyDisplay_simps is_finite_num_def)
next
  case (CustomMeta symb rate)
  obtain q r where qr: "quotaPerUnit (getConfig s) = Num q" "rate = Num r" "0 < r"
    using assms(1,2) CustomMeta by (auto simp: moderate_meta_def elim!: moderateE)
  obtain b where "num_mul (num_div (num_int n) (Num q)) (Num r) = Num b"
    "num_round (num_mul (num_div (Num b) (Num r)) (Num q)) = num_int n"
    using amount_and_back [of q r n] assms qr CustomMeta by (auto simp: moderate_meta_def)
  then show ?thesis
    using qr CustomMeta by (intro that [of b]) (simp_all add: parseQuotaFromDollars_def quotaUnitsToDollars_def
        quotaUnitsToDisplayAmount_def getCurrencyDisplay_simps is_finite_num_def)
qed

text \<open>
  C12. A quota that is shown as an amount and read back is the same number of units, although every
  step of both conversions is rounded, in every display mode and for all rates of moderate size.
\<close>

theorem quota_amount_roundtrip:
  assumes "moderate (quotaPerUnit (getConfig s))" "moderate_meta (getDisplayMeta (getConfig s))" "\<bar>n\<bar> < 2 ^ 48"
  shows "parseQuotaFromDollars s (quotaUnitsToDollars s (num_int n)) = num_int n"
  using quota_amount [OF assms] by metis

definition yuan_config :: partial_config where
  "yuan_config = \<lparr>p_systemName = None, p_logo = None, p_footerHtml = None, p_demoSiteEnabled = None, p_displayTokenStatEnabled = None,
     p_currency = Some (no_currency\<lparr>s_quotaDisplayType := Some (js ''CNY''), s_usdExchangeRate := Some (Num (29 / 4))\<rparr>)\<rparr>"

definition yuan_store :: SystemConfigState where
  "yuan_store = setConfig yuan_config (initial_system_config (js ''name'') (js ''logo''))"

lemma yuan_store_config:
  "getConfig yuan_store = \<lparr>displayInCurrency = True, quotaDisplayType = js ''CNY'', quotaPerUnit = num_int 500000,
     usdExchangeRate = Num (29 / 4), customCurrencySymbol = [164], customCurrencyExchangeRate = num_int 1\<rparr>"
  by (simp add: getConfig_def yuan_store_def yuan_config_def setConfig_def initial_system_config_def merge_currency_def no_currency_def
      stored_default_def or_else_def positive_or_def num_truthy_def num_int_def Let_def trim_defs is_ws_def)

theorem quota_amount_roundtrip_witness:
  "parseQuotaFromDollars yuan_store (quotaUnitsToDollars yuan_store (num_int 1234567)) = num_int 1234567"
  by (rule quota_amount_roundtrip)
    (simp_all add: yuan_store_config getDisplayMeta_def moderate_meta_def moderate_def num_int_def pow2_def)

text \<open>The seconds of a duration can be shown as 60, and a number of tokens as 1000.0K.\<close>

lemma use_time_sixty: "formatUseTime (Num (239 / 2)) = js ''1m 60s''"
proof -
  obtain y where y: "round_double (239 / 120) = Num y" "\<bar>y - 239 / 120\<bar> \<le> 239 / 120 / 2 ^ 53"
    by (rule round_double_error [of "239 / 120"]) (simp_all add: pow2_def)
  have "(239 / 120 / 2 ^ 53 :: rat) \<le> 1 / 1000" by simp
  then have "\<bar>y - 239 / 120\<bar> \<le> 1 / 1000" using y(2) by (rule order_trans [rotated])
  then have "\<lfloor>y\<rfloor> = 1" by (intro floor_unique) linarith+
  moreover have "num_mod (Num (239 / 2)) (num_int 60) = Num (119 / 2)"
  proof -
    have "\<lfloor>239 / 120 :: rat\<rfloor> = 1" by (rule floor_unique) simp_all
    then show ?thesis by (simp add: num_mod_def num_int_def)
  qed
  moreover have "\<lfloor>119 / 2 + 1 / 2 :: rat\<rfloor> = 60" by (rule floor_unique) simp_all
  ultimately show ?thesis
    using y(1) by (simp add: formatUseTime_def num_int_def [of 60] num_floor_def toFixed_def fixed_digits_def safe_int_def)
      (simp add: show_int_def show_nat.simps js_Cons)
qed

lemma tokens_thousand: "formatTokens (num_int 999999) = js ''1000.0K''"
proof -
  obtain y where y: "round_double (999999 / 1000) = Num y" "\<bar>y - 999999 / 1000\<bar> \<le> 999999 / 1000 / 2 ^ 53"
    by (rule round_double_error [of "999999 / 1000"]) (simp_all add: pow2_def)
  have "(999999 / 1000 / 2 ^ 53 :: rat) \<le> 1 / 1000" by simp
  then have e: "\<bar>y - 999999 / 1000\<bar> \<le> 1 / 1000" using y(2) by (rule order_trans [rotated])
  have "\<lfloor>y * 10 + 1 / 2\<rfloor> = 10000" using e by (intro floor_unique) linarith+
  moreover have "0 \<le> y" "y < 2000" using e by linarith+
  moreover from this(2) have "y < 10 ^ 21" by (rule less_trans) simp
  ultimately show ?thesis
    using y(1) by (simp add: formatTokens_def num_int_def toFixed_def fixed_digits_def)
      (simp add: show_nat.simps js_Cons)
qed

section \<open>The hash of a colour\<close>

text \<open>The hash is the polynomial of the characters at 31, kept to 32 bits with a sign.\<close>

definition poly_hash :: "jstring \<Rightarrow> int" where
  "poly_hash s = foldl (\<lambda>h c. 31 * h + int c) 0 s"

lemma string_hash_poly: "string_hash s = word_of_int (poly_hash s)"
proof (induction s rule: rev_induct)
  case (snoc c s)
  have "hash_step (word_of_int h) c = word_of_int (31 * h + int c)" for h
    by (simp add: hash_step_def push_bit_eq_mult algebra_simps)
  then show ?case using snoc by (simp add: string_hash_def poly_hash_def)
qed (simp add: string_hash_def poly_hash_def)


end
