(* ===== verification/Quota_Forms.thy ===== *)
theory Quota_Forms
  imports Format Nav_Access
begin

text \<open>
  The forms whose values are quotas: keys (\<open>features/keys/lib/api-key-form.ts\<close>), redemption codes
  (\<open>features/redemption-codes/lib\<close>), subscription plans (\<open>features/subscriptions/lib\<close>) and users
  (\<open>features/users/lib\<close>).  Each form fills its values from a stored record and makes from its values what
  is sent to the server.

  A date is its time in milliseconds.  Of the schemas, which belong to a library, only the additional
  check of the keys is code of the client.  An absent field is \<open>None\<close>; the records of the server hold the
  fields that the forms read.
\<close>

section \<open>Dates\<close>

text \<open>\<open>new Date(ms)\<close>: whole milliseconds, within the range of the language, or an invalid date.\<close>

definition new_Date :: "jsnum \<Rightarrow> jsnum" where
  "new_Date ms = (case ms of
     Num q \<Rightarrow> if \<bar>q\<bar> \<le> 8640000000000000 then Num (of_int (sgn \<lfloor>q\<rfloor> * \<lfloor>\<bar>q\<bar>\<rfloor>)) else NaN
   | _ \<Rightarrow> NaN)"

definition seconds_of :: "jsnum \<Rightarrow> jsnum" where
  "seconds_of date = num_floor (num_div date (num_int 1000))"

definition date_of :: "jsnum \<Rightarrow> jsnum option" where
  "date_of seconds = (if num_less (Num 0) seconds then Some (new_Date (num_mul seconds (num_int 1000))) else None)"

section \<open>Keys\<close>

datatype auto_groups_mode = InheritGroups | CustomGroups

record ApiKeyFormValues =
  fv_name :: jstring
  fv_remain_quota_dollars :: "jsnum option"
  fv_expired_time :: "jsnum option"
  fv_unlimited_quota :: bool
  fv_model_limits :: "jstring list"
  fv_allow_ips :: "jstring option"
  fv_group :: "jstring option"
  fv_auto_groups_mode :: auto_groups_mode
  fv_auto_groups :: "jstring list"
  fv_cross_group_retry :: "bool option"
  fv_tokenCount :: "jsnum option"

record ApiKeyFormData =
  fd_name :: jstring
  fd_remain_quota :: jsnum
  fd_expired_time :: jsnum
  fd_unlimited_quota :: bool
  fd_model_limits_enabled :: bool
  fd_model_limits :: jstring
  fd_allow_ips :: jstring
  fd_group :: jstring
  fd_auto_groups :: "jstring list"
  fd_cross_group_retry :: bool

record ApiKey =
  key_name :: jstring
  key_remain_quota :: jsnum
  key_unlimited_quota :: bool
  key_expired_time :: jsnum
  key_group :: "jstring option"
  key_auto_groups :: "jstring list option"
  key_cross_group_retry :: "bool option"
  key_model_limits_enabled :: bool
  key_model_limits :: "jstring option"
  key_allow_ips :: "jstring option"

definition keys_DEFAULT_GROUP :: jstring where "keys_DEFAULT_GROUP = []"

definition or_empty :: "jstring option \<Rightarrow> jstring" where
  "or_empty x = (case x of Some s \<Rightarrow> s | None \<Rightarrow> [])"

definition auto_group :: "jstring option \<Rightarrow> bool" where
  "auto_group g \<longleftrightarrow> g = Some (js ''auto'')"

text \<open>The check that the schema adds: the field and the message of each issue.\<close>

definition auto_group_limit :: "jsnum \<Rightarrow> jsnum" where
  "auto_group_limit m = (if is_integer_num m \<and> num_less (Num 0) m then m else num_int 5)"

definition getApiKeyFormSchema :: "jsnum \<Rightarrow> ApiKeyFormValues \<Rightarrow> (jstring \<times> jstring) list" where
  "getApiKeyFormSchema maxAutoGroups data =
     (let groups = fv_auto_groups data; count = num_int (int (length groups)); path = js ''auto_groups''
      in (if auto_group (fv_group data)
          then (if fv_auto_groups_mode data = CustomGroups \<and> groups = []
                then [(path, js ''Select at least one Auto group or restore global Auto.'')] else []) @
               (if num_less (auto_group_limit maxAutoGroups) count then [(path, js ''Select at most {{max}} Auto groups'')] else []) @
               (if length (remdups groups) \<noteq> length groups then [(path, js ''Auto groups must not contain duplicates'')] else [])
          else []) @
         (if fv_unlimited_quota data then []
          else case fv_remain_quota_dollars data of
                 Some q \<Rightarrow> if num_less q (Num 0) then [(js ''remain_quota_dollars'', js ''Quota must be zero or greater'')] else []
               | None \<Rightarrow> [(js ''remain_quota_dollars'', js ''Quota must be zero or greater'')]))"

definition API_KEY_FORM_DEFAULT_VALUES :: ApiKeyFormValues where
  "API_KEY_FORM_DEFAULT_VALUES = \<lparr>fv_name = [], fv_remain_quota_dollars = Some (num_int 10), fv_expired_time = None,
     fv_unlimited_quota = True, fv_model_limits = [], fv_allow_ips = Some [], fv_group = Some keys_DEFAULT_GROUP,
     fv_auto_groups_mode = InheritGroups, fv_auto_groups = [], fv_cross_group_retry = Some True, fv_tokenCount = Some (num_int 1)\<rparr>"

definition getApiKeyFormDefaultValues :: "bool \<Rightarrow> ApiKeyFormValues" where
  "getApiKeyFormDefaultValues defaultUseAutoGroup = API_KEY_FORM_DEFAULT_VALUES
     \<lparr>fv_group := Some (if defaultUseAutoGroup then js ''auto'' else keys_DEFAULT_GROUP), fv_auto_groups_mode := InheritGroups,
      fv_auto_groups := [], fv_cross_group_retry := Some defaultUseAutoGroup\<rparr>"

definition key_transformFormDataToPayload :: "SystemConfigState \<Rightarrow> ApiKeyFormValues \<Rightarrow> ApiKeyFormData" where
  "key_transformFormDataToPayload s data =
     \<lparr>fd_name = fv_name data,
      fd_remain_quota = (if fv_unlimited_quota data then Num 0
        else parseQuotaFromDollars s (case fv_remain_quota_dollars data of Some x \<Rightarrow> if num_truthy x then x else Num 0 | None \<Rightarrow> Num 0)),
      fd_expired_time = (case fv_expired_time data of Some d \<Rightarrow> seconds_of d | None \<Rightarrow> num_int (-1)),
      fd_unlimited_quota = fv_unlimited_quota data,
      fd_model_limits_enabled = (fv_model_limits data \<noteq> []),
      fd_model_limits = js_join (js '','') (fv_model_limits data),
      fd_allow_ips = or_empty (fv_allow_ips data),
      fd_group = or_empty (fv_group data),
      fd_auto_groups = (if auto_group (fv_group data) \<and> fv_auto_groups_mode data = CustomGroups then fv_auto_groups data else []),
      fd_cross_group_retry = (auto_group (fv_group data) \<and> fv_cross_group_retry data = Some True)\<rparr>"

text \<open>The number of groups that are kept is a whole number; \<open>slice(0, Math.max(0, n))\<close> takes that many.\<close>

definition transformApiKeyToFormDefaults :: "SystemConfigState \<Rightarrow> ApiKey \<Rightarrow> jstring list \<Rightarrow> int \<Rightarrow> ApiKeyFormValues" where
  "transformApiKeyToFormDefaults s apiKey availableAutoGroups maxAutoGroups =
     (let stored = (case key_auto_groups apiKey of Some gs \<Rightarrow> gs | None \<Rightarrow> [])
      in \<lparr>fv_name = key_name apiKey,
          fv_remain_quota_dollars = Some (if key_unlimited_quota apiKey then Num 0 else quotaUnitsToDollars s (key_remain_quota apiKey)),
          fv_expired_time = date_of (key_expired_time apiKey),
          fv_unlimited_quota = key_unlimited_quota apiKey,
          fv_model_limits = (case key_model_limits apiKey of None \<Rightarrow> []
            | Some m \<Rightarrow> if m = [] then [] else filter (\<lambda>p. p \<noteq> []) (js_split 44 m)),
          fv_allow_ips = Some (or_empty (key_allow_ips apiKey)),
          fv_group = Some (if or_empty (key_group apiKey) = [] then keys_DEFAULT_GROUP else or_empty (key_group apiKey)),
          fv_auto_groups_mode = (if stored \<noteq> [] then CustomGroups else InheritGroups),
          fv_auto_groups = take (nat (max 0 maxAutoGroups)) (filter (\<lambda>g. g \<in> set availableAutoGroups) stored),
          fv_cross_group_retry = Some (key_cross_group_retry apiKey = Some True),
          fv_tokenCount = Some (num_int 1)\<rparr>)"

section \<open>Redemption codes\<close>

definition REDEMPTION_NAME_MIN :: nat where "REDEMPTION_NAME_MIN = 1"
definition REDEMPTION_NAME_MAX :: nat where "REDEMPTION_NAME_MAX = 20"
definition REDEMPTION_COUNT_MIN :: int where "REDEMPTION_COUNT_MIN = 1"
definition REDEMPTION_COUNT_MAX :: int where "REDEMPTION_COUNT_MAX = 100"

record RedemptionFormValues =
  rv_name :: jstring
  rv_quota_dollars :: jsnum
  rv_expired_time :: "jsnum option"
  rv_count :: "jsnum option"

record RedemptionFormData =
  rd_id :: "jsnum option"
  rd_name :: jstring
  rd_quota :: jsnum
  rd_expired_time :: jsnum
  rd_count :: jsnum

record Redemption =
  code_id :: jsnum
  code_name :: jstring
  code_status :: jsnum
  code_quota :: jsnum
  code_expired_time :: jsnum

definition REDEMPTION_FORM_DEFAULT_VALUES :: RedemptionFormValues where
  "REDEMPTION_FORM_DEFAULT_VALUES = \<lparr>rv_name = [], rv_quota_dollars = num_int 10, rv_expired_time = None, rv_count = Some (num_int 1)\<rparr>"

definition redemption_transformFormDataToPayload :: "SystemConfigState \<Rightarrow> RedemptionFormValues \<Rightarrow> RedemptionFormData" where
  "redemption_transformFormDataToPayload s data =
     \<lparr>rd_id = None, rd_name = rv_name data, rd_quota = parseQuotaFromDollars s (rv_quota_dollars data),
      rd_expired_time = (case rv_expired_time data of Some d \<Rightarrow> seconds_of d | None \<Rightarrow> Num 0),
      rd_count = (case rv_count data of Some c \<Rightarrow> if num_truthy c then c else num_int 1 | None \<Rightarrow> num_int 1)\<rparr>"

definition transformRedemptionToFormDefaults :: "SystemConfigState \<Rightarrow> Redemption \<Rightarrow> RedemptionFormValues" where
  "transformRedemptionToFormDefaults s r =
     \<lparr>rv_name = code_name r, rv_quota_dollars = quotaUnitsToEditableAmount s (code_quota r),
      rv_expired_time = date_of (code_expired_time r), rv_count = Some (num_int 1)\<rparr>"

text \<open>What an update sends (\<open>onSubmit\<close>): the quota of the form only if its field was edited.\<close>

definition redemption_update :: "SystemConfigState \<Rightarrow> bool \<Rightarrow> Redemption \<Rightarrow> RedemptionFormValues \<Rightarrow> RedemptionFormData" where
  "redemption_update s quota_dirty loaded data =
     (let base = redemption_transformFormDataToPayload s data
      in base\<lparr>rd_quota := (if quota_dirty then rd_quota base else code_quota loaded), rd_id := Some (code_id loaded)\<rparr>)"

text \<open>\<open>now\<close> is \<open>Date.now()\<close>.\<close>

definition isTimestampExpired :: "jsnum \<Rightarrow> jsnum \<Rightarrow> bool" where
  "isTimestampExpired now timestamp \<longleftrightarrow> timestamp \<noteq> Num 0 \<and> num_less timestamp (num_div now (num_int 1000))"

definition isRedemptionExpired :: "jsnum \<Rightarrow> jsnum \<Rightarrow> jsnum \<Rightarrow> bool" where
  "isRedemptionExpired now expired_time status \<longleftrightarrow> status = num_int 1 \<and> isTimestampExpired now expired_time"

section \<open>Subscription plans\<close>

record plan_fields =
  title :: jstring
  subtitle :: "jstring option"
  price_amount :: jsnum
  duration_unit :: jstring
  duration_value :: jsnum
  custom_seconds :: "jsnum option"
  quota_reset_period :: jstring
  quota_reset_custom_seconds :: "jsnum option"
  enabled :: bool
  sort_order :: jsnum
  allow_balance_pay :: "bool option"
  allow_wallet_overflow :: "bool option"
  max_purchase_per_user :: jsnum
  total_amount :: jsnum
  upgrade_group :: "jstring option"
  downgrade_group :: "jstring option"
  stripe_price_id :: "jstring option"
  creem_product_id :: "jstring option"
  waffo_pancake_product_id :: "jstring option"

text \<open>The values of the form have the same fields; a plan of the server has also a currency, which the payload sets.\<close>

definition or_num :: "jsnum \<Rightarrow> jsnum option \<Rightarrow> jsnum" where
  "or_num d x = (case x of Some v \<Rightarrow> if num_truthy v then v else d | None \<Rightarrow> d)"

definition PLAN_FORM_DEFAULTS :: plan_fields where
  "PLAN_FORM_DEFAULTS = \<lparr>title = [], subtitle = Some [], price_amount = Num 0, duration_unit = js ''month'', duration_value = num_int 1,
     custom_seconds = Some (Num 0), quota_reset_period = js ''never'', quota_reset_custom_seconds = Some (Num 0), enabled = True,
     sort_order = Num 0, allow_balance_pay = Some True, allow_wallet_overflow = Some True, max_purchase_per_user = Num 0,
     total_amount = Num 0, upgrade_group = Some [], downgrade_group = Some [], stripe_price_id = Some [], creem_product_id = Some [],
     waffo_pancake_product_id = Some []\<rparr>"

definition planToFormValues :: "SystemConfigState \<Rightarrow> plan_fields \<Rightarrow> plan_fields" where
  "planToFormValues s plan =
     \<lparr>title = title plan, subtitle = Some (or_empty (subtitle plan)), price_amount = or_num (Num 0) (Some (price_amount plan)),
      duration_unit = (if duration_unit plan = [] then js ''month'' else duration_unit plan),
      duration_value = or_num (num_int 1) (Some (duration_value plan)),
      custom_seconds = Some (or_num (Num 0) (custom_seconds plan)),
      quota_reset_period = (if quota_reset_period plan = [] then js ''never'' else quota_reset_period plan),
      quota_reset_custom_seconds = Some (or_num (Num 0) (quota_reset_custom_seconds plan)),
      enabled = enabled plan, sort_order = or_num (Num 0) (Some (sort_order plan)),
      allow_balance_pay = Some (allow_balance_pay plan \<noteq> Some False), allow_wallet_overflow = Some (allow_wallet_overflow plan \<noteq> Some False),
      max_purchase_per_user = or_num (Num 0) (Some (max_purchase_per_user plan)),
      total_amount = quotaUnitsToDollars s (or_num (Num 0) (Some (total_amount plan))),
      upgrade_group = Some (or_empty (upgrade_group plan)), downgrade_group = Some (or_empty (downgrade_group plan)),
      stripe_price_id = Some (or_empty (stripe_price_id plan)), creem_product_id = Some (or_empty (creem_product_id plan)),
      waffo_pancake_product_id = Some (or_empty (waffo_pancake_product_id plan))\<rparr>"

text \<open>The plan that is sent and its currency.\<close>

definition formValuesToPlanPayload :: "SystemConfigState \<Rightarrow> plan_fields \<Rightarrow> plan_fields \<times> jstring" where
  "formValuesToPlanPayload s values =
     (values\<lparr>price_amount := or_num (Num 0) (Some (price_amount values)),
        duration_value := or_num (Num 0) (Some (duration_value values)),
        custom_seconds := Some (or_num (Num 0) (custom_seconds values)),
        quota_reset_period := (if quota_reset_period values = [] then js ''never'' else quota_reset_period values),
        quota_reset_custom_seconds := Some (if quota_reset_period values = js ''custom''
          then or_num (Num 0) (quota_reset_custom_seconds values) else Num 0),
        sort_order := or_num (Num 0) (Some (sort_order values)),
        max_purchase_per_user := or_num (Num 0) (Some (max_purchase_per_user values)),
        total_amount := parseQuotaFromDollars s (or_num (Num 0) (Some (total_amount values))),
        upgrade_group := Some (or_empty (upgrade_group values)), downgrade_group := Some (or_empty (downgrade_group values))\<rparr>,
      js ''USD'')"

text \<open>The texts of a plan; \<open>t\<close> translates.\<close>

definition count_of :: "jsnum \<Rightarrow> int \<Rightarrow> jstring \<Rightarrow> jstring" where
  "count_of seconds n name = num_to_string (num_floor (num_div seconds (num_int n))) @ js '' '' @ name"

definition formatDuration :: "(jstring \<Rightarrow> jstring) \<Rightarrow> jstring option \<Rightarrow> jsnum option \<Rightarrow> jsnum option \<Rightarrow> jstring" where
  "formatDuration t unit_field value_field seconds_field =
     (let u = (if or_empty unit_field = [] then js ''month'' else or_empty unit_field);
          labels = [(js ''year'', t (js ''years'')), (js ''month'', t (js ''months'')), (js ''day'', t (js ''days'')),
            (js ''hour'', t (js ''hours'')), (js ''custom'', t (js ''Custom (seconds)''))];
          seconds = or_num (Num 0) seconds_field
      in if u = js ''custom''
         then (if num_le (num_int 86400) seconds then count_of seconds 86400 (t (js ''days''))
               else if num_le (num_int 3600) seconds then count_of seconds 3600 (t (js ''hours''))
               else num_to_string seconds @ js '' '' @ t (js ''seconds''))
         else num_to_string (or_num (num_int 1) value_field) @ js '' '' @
           (case map_of labels u of Some l \<Rightarrow> if l = [] then u else l | None \<Rightarrow> u))"

definition formatResetPeriod :: "(jstring \<Rightarrow> jstring) \<Rightarrow> jstring option \<Rightarrow> jsnum option \<Rightarrow> jstring" where
  "formatResetPeriod t period_field seconds_field =
     (let period = or_empty period_field; seconds = or_num (Num 0) seconds_field
      in if period = js ''daily'' then t (js ''Daily'')
         else if period = js ''weekly'' then t (js ''Weekly'')
         else if period = js ''monthly'' then t (js ''Monthly'')
         else if period = js ''custom''
         then (if num_le (num_int 86400) seconds then count_of seconds 86400 (t (js ''days''))
               else if num_le (num_int 3600) seconds then count_of seconds 3600 (t (js ''hours''))
               else if num_le (num_int 60) seconds then count_of seconds 60 (t (js ''minutes''))
               else num_to_string seconds @ js '' '' @ t (js ''seconds''))
         else t (js ''No Reset''))"

definition plan_formatTimestamp :: "day_format \<Rightarrow> jsnum \<Rightarrow> jstring" where
  "plan_formatTimestamp fmt ts =
     (if \<not> num_truthy ts then js ''-'' else fmt (num_mul ts (num_int 1000)) (js ''YYYY-MM-DD HH:mm:ss''))"

section \<open>Users\<close>

definition users_DEFAULT_GROUP :: jstring where "users_DEFAULT_GROUP = js ''default''"

record UserFormValues =
  uv_username :: jstring
  uv_display_name :: "jstring option"
  uv_password :: "jstring option"
  uv_role :: "jsnum option"
  uv_quota_dollars :: "jsnum option"
  uv_group :: "jstring option"
  uv_remark :: "jstring option"
  uv_admin_permissions :: "AdminPermissionMatrix option"
  uv_extra_group_keys :: "jstring list"

record UserFormData =
  ud_id :: "jsnum option"
  ud_username :: jstring
  ud_display_name :: jstring
  ud_password :: "jstring option"
  ud_role :: "jsnum option"
  ud_group :: "jstring option"
  ud_remark :: "jstring option"
  ud_admin_permissions :: "AdminPermissionMatrix option"
  ud_extra_group_keys :: "jstring list option"

record User =
  u_username :: jstring
  u_display_name :: jstring
  u_quota :: jsnum
  u_group :: jstring
  u_role :: jsnum
  u_remark :: "jstring option"
  u_admin_permissions :: "AdminPermissionMatrix option"
  u_extra_group_keys :: "jstring list option"

definition USER_FORM_DEFAULT_VALUES :: UserFormValues where
  "USER_FORM_DEFAULT_VALUES = \<lparr>uv_username = [], uv_display_name = Some [], uv_password = Some [], uv_role = Some (num_int 1),
     uv_quota_dollars = Some (Num 0), uv_group = Some users_DEFAULT_GROUP, uv_remark = Some [], uv_admin_permissions = Some [],
     uv_extra_group_keys = []\<rparr>"

definition not_empty :: "jstring option \<Rightarrow> jstring option" where
  "not_empty x = (if or_empty x = [] then None else x)"

definition user_transformFormDataToPayload ::
  "UserFormValues \<Rightarrow> jsnum option \<Rightarrow> PermissionCatalog option \<Rightarrow> UserFormData" where
  "user_transformFormDataToPayload data userId catalog =
     (let role = (case userId of
            None \<Rightarrow> or_num (num_int 1) (uv_role data)
          | Some i \<Rightarrow> (case uv_role data of Some r \<Rightarrow> r | None \<Rightarrow> Num 0));
          payload = \<lparr>ud_id = None, ud_username = uv_username data,
            ud_display_name = (if or_empty (uv_display_name data) = [] then uv_username data else or_empty (uv_display_name data)),
            ud_password = not_empty (uv_password data), ud_role = None, ud_group = None, ud_remark = None,
            ud_admin_permissions = (case catalog of
              Some c \<Rightarrow> if num_le (Num ROLE_ADMIN) role then Some (normalizeAdminPermissions (uv_admin_permissions data) c) else None
            | None \<Rightarrow> None),
            ud_extra_group_keys = None\<rparr>
      in case userId of
           None \<Rightarrow> payload\<lparr>ud_role := Some role\<rparr>
         | Some i \<Rightarrow> payload\<lparr>ud_group := uv_group data, ud_remark := not_empty (uv_remark data), ud_id := Some i,
             ud_extra_group_keys := Some (uv_extra_group_keys data)\<rparr>)"

definition transformUserToFormDefaults :: "SystemConfigState \<Rightarrow> User \<Rightarrow> UserFormValues" where
  "transformUserToFormDefaults s u =
     \<lparr>uv_username = u_username u, uv_display_name = Some (u_display_name u), uv_password = Some [],
      uv_role = Some (u_role u), uv_quota_dollars = Some (quotaUnitsToDollars s (u_quota u)),
      uv_group = Some (if u_group u = [] then users_DEFAULT_GROUP else u_group u),
      uv_remark = Some (or_empty (u_remark u)),
      uv_admin_permissions = Some (case u_admin_permissions u of Some m \<Rightarrow> m | None \<Rightarrow> []),
      uv_extra_group_keys = (case u_extra_group_keys u of Some ks \<Rightarrow> ks | None \<Rightarrow> [])\<rparr>"

text \<open>The message of an action on a user; the action is one of the keys.\<close>

definition ACTION_MESSAGES :: "(jstring \<times> jstring) list" where
  "ACTION_MESSAGES = [(js ''enable'', js ''User enabled successfully''), (js ''disable'', js ''User disabled successfully''),
     (js ''promote'', js ''User promoted to admin successfully''), (js ''demote'', js ''User demoted to regular user successfully''),
     (js ''delete'', js ''User deleted successfully''), (js ''add_quota'', js ''Quota adjusted successfully'')]"

definition getUserActionMessage :: "jstring \<Rightarrow> jstring option" where
  "getUserActionMessage act = map_of ACTION_MESSAGES act"

section \<open>Times survive the form\<close>

lemma safe_round: "safe_int i \<Longrightarrow> round_double (of_int i) = num_int i"
  by (rule round_double_safe_int)

lemma date_seconds:
  assumes "0 < e" "e \<le> 8640000000000"
  shows "date_of (num_int e) = Some (num_int (e * 1000))" "seconds_of (num_int (e * 1000)) = num_int e"
proof -
  have "safe_int (e * 1000)" using assms by (simp add: safe_int_def)
  then have "num_mul (num_int e) (num_int 1000) = num_int (e * 1000)"
    using safe_round [of "e * 1000"] by (simp add: num_int_def)
  moreover have "new_Date (num_int (e * 1000)) = num_int (e * 1000)"
  proof -
    have "\<bar>of_int (e * 1000) :: rat\<bar> \<le> of_int 8640000000000000"
      using assms by (simp only: of_int_abs [symmetric] of_int_le_iff)
    then show ?thesis using assms by (simp add: new_Date_def num_int_def floor_of_int [of "e * 1000", simplified])
  qed
  ultimately show "date_of (num_int e) = Some (num_int (e * 1000))" using assms by (simp add: date_of_def num_int_pos)
  have "safe_int e" using assms by (simp add: safe_int_def)
  then have "num_div (num_int (e * 1000)) (num_int 1000) = num_int e" using safe_round [of e] by (simp add: num_int_def)
  then show "seconds_of (num_int (e * 1000)) = num_int e" by (simp add: seconds_of_def num_floor_def num_int_def)
qed

lemma date_never: "e \<le> 0 \<Longrightarrow> date_of (num_int e) = None"
  by (simp add: date_of_def num_int_pos)

lemma or_num_amount: "(if num_truthy (Num b) then Num b else Num 0) = Num b"
  by (simp add: num_truthy_def)

text \<open>The conditions on the configuration under which quotas survive.\<close>

definition moderate_config :: "SystemConfigState \<Rightarrow> bool" where
  "moderate_config s \<longleftrightarrow> moderate (quotaPerUnit (getConfig s)) \<and> moderate_meta (getDisplayMeta (getConfig s))"

lemma quota_survives:
  assumes "moderate_config s" "\<bar>n\<bar> < 2 ^ 48"
  obtains b where "quotaUnitsToDollars s (num_int n) = Num b" "parseQuotaFromDollars s (Num b) = num_int n"
  using quota_amount [of s n] assms by (auto simp: moderate_config_def)

text \<open>A stored key: whole quota, a time or never, no blank model name, and groups that are still offered.\<close>

definition stored_groups :: "ApiKey \<Rightarrow> jstring list" where
  "stored_groups a = (case key_auto_groups a of Some gs \<Rightarrow> gs | None \<Rightarrow> [])"

definition tidy_key :: "jstring list \<Rightarrow> int \<Rightarrow> ApiKey \<Rightarrow> bool" where
  "tidy_key available m a \<longleftrightarrow>
     (\<exists>n. key_remain_quota a = num_int n \<and> \<bar>n\<bar> < 2 ^ 48) \<and>
     (\<exists>e. key_expired_time a = num_int e \<and> (e = -1 \<or> 0 < e \<and> e \<le> 8640000000000)) \<and>
     (or_empty (key_model_limits a) = [] \<or> [] \<notin> set (js_split 44 (or_empty (key_model_limits a)))) \<and>
     set (stored_groups a) \<subseteq> set available \<and> int (length (stored_groups a)) \<le> m"


definition sample_key :: ApiKey where
  "sample_key = \<lparr>key_name = js ''build'', key_remain_quota = num_int 1234567, key_unlimited_quota = False,
     key_expired_time = num_int 1900000000, key_group = Some (js ''auto''), key_auto_groups = Some [js ''vip'', js ''default''],
     key_cross_group_retry = Some True, key_model_limits_enabled = True, key_model_limits = Some (js ''m1,m2''), key_allow_ips = None\<rparr>"

lemma yuan_moderate: "moderate_config yuan_store"
  by (simp add: moderate_config_def yuan_store_config getDisplayMeta_def moderate_meta_def moderate_def num_int_def pow2_def)

lemma sample_key_tidy: "tidy_key [js ''default'', js ''vip'', js ''free''] 5 sample_key"
proof -
  have "[] \<notin> set (js_split 44 (js ''m1,m2''))" by (simp add: js_Cons)
  moreover have "\<exists>n. num_int 1234567 = num_int n \<and> \<bar>n\<bar> < 2 ^ 48" by (intro exI [of _ 1234567]) simp
  moreover have "\<exists>e. num_int 1900000000 = num_int e \<and> (e = -1 \<or> 0 < e \<and> e \<le> 8640000000000)"
    by (intro exI [of _ 1900000000]) simp
  ultimately show ?thesis by (simp add: tidy_key_def sample_key_def stored_groups_def or_empty_def)
qed


section \<open>Plans and codes survive the form\<close>

lemma or_num_keeps: "v \<noteq> NaN \<Longrightarrow> or_num (Num 0) (Some v) = v"
  by (simp add: or_num_def num_truthy_def)

text \<open>A stored plan with all its fields.\<close>

definition tidy_plan :: "plan_fields \<Rightarrow> bool" where
  "tidy_plan p \<longleftrightarrow>
     (\<exists>n. total_amount p = num_int n \<and> \<bar>n\<bar> < 2 ^ 48) \<and>
     price_amount p \<noteq> NaN \<and> sort_order p \<noteq> NaN \<and> max_purchase_per_user p \<noteq> NaN \<and> num_truthy (duration_value p) \<and>
     duration_unit p \<noteq> [] \<and> quota_reset_period p \<noteq> [] \<and>
     custom_seconds p \<notin> {None, Some NaN} \<and> quota_reset_custom_seconds p \<notin> {None, Some NaN} \<and>
     (quota_reset_period p = js ''custom'' \<or> quota_reset_custom_seconds p = Some (Num 0)) \<and>
     subtitle p \<noteq> None \<and> allow_balance_pay p \<noteq> None \<and> allow_wallet_overflow p \<noteq> None \<and> upgrade_group p \<noteq> None \<and>
     downgrade_group p \<noteq> None \<and> stripe_price_id p \<noteq> None \<and> creem_product_id p \<noteq> None \<and> waffo_pancake_product_id p \<noteq> None"


definition sample_plan :: plan_fields where
  "sample_plan = PLAN_FORM_DEFAULTS\<lparr>title := js ''Pro'', price_amount := num_int 20, total_amount := num_int 10000001,
     quota_reset_period := js ''monthly''\<rparr>"

lemma sample_plan_tidy: "tidy_plan sample_plan"
proof -
  have "\<exists>n. num_int 10000001 = num_int n \<and> \<bar>n\<bar> < 2 ^ 48" by (intro exI [of _ 10000001]) simp
  then show ?thesis by (simp add: tidy_plan_def sample_plan_def PLAN_FORM_DEFAULTS_def num_truthy_def) (simp add: num_int_def)
qed


text \<open>A code whose quota field is not touched keeps its quota, although the field shows it with few digits.\<close>

lemma redemption_update_keeps:
  assumes "code_expired_time r = num_int e" "e = 0 \<or> 0 < e \<and> e \<le> 8640000000000"
  shows "redemption_update s False r (transformRedemptionToFormDefaults s r) =
    \<lparr>rd_id = Some (code_id r), rd_name = code_name r, rd_quota = code_quota r, rd_expired_time = code_expired_time r, rd_count = num_int 1\<rparr>"
proof -
  have "(case date_of (num_int e) of Some d \<Rightarrow> seconds_of d | None \<Rightarrow> Num 0) = num_int e"
    using assms(2) date_seconds [of e] date_never [of e] by (auto simp: num_int_def)
  then show ?thesis
    using assms(1) by (simp add: redemption_update_def redemption_transformFormDataToPayload_def transformRedemptionToFormDefaults_def
        Let_def num_truthy_def num_int_def)
qed

end
