(* ===== verification/Spec2Isabelle.thy ===== *)
theory Spec2Isabelle
  imports Status_Code_Rules Model_Mapping Auth_Session Chat_Handler Playground_Storage Http_Client Nav_Access
    Ratio_Sync Advanced_Custom Dynamic_Price Quota_Forms
begin

text \<open>
  Verification of the web client of the gateway (\<open>src/web/src\<close>).

  \<^bold>\<open>The parts and how they interact.\<close>  Every page talks to the server through the HTTP client
  (\<open>lib/http-client.ts\<close>).  The client takes its token from the authentication store
  (\<open>stores/auth-store.ts\<close>); when the server refuses the token it asks the authentication session
  (\<open>lib/auth-session.ts\<close>) for a refresh and repeats the request once.  The tabs of a browser tell each
  other about sign-in and sign-out (\<open>lib/auth-session-sync.ts\<close>).  The playground keeps a conversation
  of messages, streams answers from the server, and stores the conversation in the browser.  The
  administration pages check and normalize the settings of channels, models, prices and permissions
  before they are sent.  The price of a model can be an expression: the editor prints tiers and request
  rules into one text, and the price pages read it again.  All amounts are shown and read in the currency
  of the system configuration (\<open>stores/system-config-store.ts\<close>, \<open>lib/currency.ts\<close>), also by the forms of
  keys, redemption codes and plans.

  \<^bold>\<open>The theories.\<close>

  \<^item> \<open>Prelude\<close>, \<open>JS_Value\<close>, \<open>JS_Json\<close>: the part of the language that the sources use.  A string is a list
    of 16-bit code units (\<open>jstring\<close>), a \<open>Set\<close> a distinct list, an object an association list, a number a
    rational that a double represents, or one of the special values.  \<open>json_parse\<close> and
    \<open>json_stringify\<close> are executable, and printing followed by parsing is the identity on canonical
    values.
  \<^item> \<open>JS_Regex\<close>, \<open>JS_Number\<close>: regular expressions with the backtracking order of the language, as the list
    of all ways to match, and the repeated search of the flag \<open>g\<close>; and the arithmetic of doubles: every
    operation is the exact result rounded to the nearest double, with bounds on the error.
  \<^item> \<open>Guards\<close>: reachability of a step relation and the two interfaces of the asynchronous parts.
    \<open>transition_system\<close> lifts an invariant from steps to runs.  \<open>epoch_guard\<close> adds a counter that newer
    work advances and that late callbacks are checked against; work that is superseded once stays
    without effect.
  \<^item> \<open>Auth_Store\<close>, \<open>Auth_Sync\<close>, \<open>Auth_Session\<close>: the store, the messages between tabs, and the session:
    the refresh runner as a function on its suspension points (\<open>run_pc\<close>), the refreshes of a tab as
    \<open>flight\<close>s, and the steps of a tab as a relation.
  \<^item> \<open>Http_Client\<close>: the requests of a page (\<open>api_request\<close>, with their state \<open>api_pc\<close>), both interceptors and
    the table of GET requests that can be joined, with the texts for server errors
    (\<open>lib/server-error-message.ts\<close>).
  \<^item> \<open>Playground_Messages\<close>, \<open>Playground_Conversation\<close>: messages, reasoning tags, streaming, and the
    handlers of the conversation (\<open>features/playground/lib\<close> and \<open>hooks\<close>).
  \<^item> \<open>Stream_Controller\<close>: \<open>hooks/use-stream-request.ts\<close> and \<open>lib/streaming\<close>, one definition per callback
    of the event source.
  \<^item> \<open>Chat_Handler\<close>: \<open>hooks/use-chat-handler.ts\<close>.  The updaters that the hook hands to the state are data
    (\<open>message_update\<close>) that runs at once or at the next rendering.
  \<^item> \<open>Playground_Storage\<close>: \<open>lib/storage\<close> and the persistence of \<open>hooks/use-playground-state.ts\<close>.
  \<^item> \<open>Nav_Access\<close>: \<open>lib/nav-modules.ts\<close>, \<open>lib/admin-permissions.ts\<close>, \<open>lib/roles.ts\<close>.
  \<^item> \<open>Ratio_Sync\<close>: \<open>features/system-settings/models/upstream-ratio-sync-helpers.ts\<close>.
  \<^item> \<open>Advanced_Custom\<close>: \<open>features/channels/lib/advanced-custom.ts\<close>.
  \<^item> \<open>Billing_Expr\<close>, \<open>Billing_Rules\<close>: the request rules of \<open>features/pricing/lib/billing-expr.ts\<close>; the first
    holds the definitions, the second the matching of what is printed.
  \<^item> \<open>Tier_Expr\<close>, \<open>Tier_Text\<close>, \<open>Tier_Prices\<close>: the tiers of \<open>billing-expr.ts\<close> and \<open>tier-expr.ts\<close>; definitions, the
    matching of printed tiers, and their properties.
  \<^item> \<open>Pricing\<close>, \<open>Dynamic_Price\<close>: \<open>model-helpers.ts\<close>, \<open>filters.ts\<close>, \<open>price.ts\<close> and \<open>dynamic-price.ts\<close>.  The
    contract of a comparison function is the locale \<open>comparison_function\<close>, interpreted for both orders of
    prices and for the order of the entries.
  \<^item> \<open>Currency\<close>, \<open>Format\<close>, \<open>Quota_Forms\<close>: the system configuration, \<open>lib/currency.ts\<close>, \<open>lib/format.ts\<close>, and the
    conversions of the forms of keys, redemption codes, subscription plans and users.
  \<^item> \<open>Status_Code_Rules\<close>, \<open>Model_Mapping\<close>: \<open>lib/http-status-code-rules.ts\<close>,
    \<open>features/channels/lib/status-code-risk-guard.ts\<close> and \<open>model-mapping-validation.ts\<close>.

  \<^bold>\<open>State and effects.\<close>  A mutable module or hook is a record; an operation is a function on it.  An
  asynchronous function is cut at each \<open>await\<close> into one definition per piece, and the steps of a
  component interleave these pieces in every order.  An exception is a value of an option or sum
  type.  Times and generated identifiers are arguments.

  \<^bold>\<open>What the lemmas show.\<close>

  \<^item> Session: a refresh that was overtaken never touches the store again; at most one refresh of a tab
    is in progress; the store is consistent in every reachable state; the runner ends after at most
    eight answers; each outcome is true of the store it leaves; a sign-out reaches exactly the tabs of
    the same session.
  \<^item> HTTP client: a request is transmitted at most twice; GET requests are joined within one session
    only; a second refusal signs out.
  \<^item> Streaming and chat: superseded requests are silent; a request is told its end once; no event
    source is leaked; the cutting of an answer into chunks does not change it; the buffer of the chat
    handler agrees with single chunks under stated conditions, and what stopping leaves.
  \<^item> Storage: the limits hold and are used up as far as possible; what is saved is loaded; no edit is
    lost once the messages are loaded.
  \<^item> Settings: normal forms of status-code rules, exactness of the checks, round trips, equality of
    batch and single selections of prices, and permissions completed from the catalog; the routes of a custom channel that pass
    the validation, also as a matter of types.

  \<^item> Prices: rules survive printing and reading; what the editor saves is taken apart again and shown as
    it was configured, down to the prices of the first tier; both readers of tiers end on every text;
    the list of models holds exactly the models of the filters in the order of their prices; the ratio
    of a model is the best of its groups; a comparison of a parameter is printed but never read back.
  \<^item> Amounts and forms: a quota that is shown as an amount and read again is the same quota, rounding
    included; keys and plans that are opened and saved without a change are sent as they are stored;
    bills are never shown in tokens; colours stay within their bounds for every 32-bit hash.

  \<^bold>\<open>Bounds and fuel.\<close>  Only the JSON parser uses fuel; \<open>json_fuel\<close> grows with the length of the text and
  more fuel never changes its result.  All other loops are structural or come with a termination
  proof.  The repeated search of an expression could stay at an empty match, which is the value \<open>None\<close>
  of \<open>re_exec_all\<close>; \<open>tier_readers_end\<close> shows that it never does.  The limits of the storage are the
  constants of the source.  Quotas are below \<open>2 ^ 48\<close> and rates between \<open>2 ^ -100\<close> and \<open>2 ^ 100\<close> where rounding
  errors are bounded: the error of the conversions is then below half a unit.

  \<^bold>\<open>Arguments for code of libraries.\<close>  The schemas that validate stored values, the object form of
  messages (the record of a message identifies an absent flag with a false one), the acceptance of
  writes by the storage, the transport, translations, the query cache, and the URL parser; the number and
  date formatters of the browser and of \<open>dayjs\<close>, the clock, the parser of dates, lower case, and the
  comparison of texts in a language.  What a theorem needs of them is among its hypotheses.

  \<^bold>\<open>Not modelled.\<close>  Rendering, routing and styles; pages that only display server data; the forms of
  channels and system settings beyond the parts named above; writes of other tabs to the
  stored messages; the estimator of prices, which runs an expression as a program (\<open>new Function\<close>);
  \<open>normalizeTierLabel\<close>; the sign of zero; exceptions of reading the local storage; the server and the desktop shell.
\<close>

end
